(* ===== verification/Mux_Prelude.thy ===== *)
theory Mux_Prelude
  imports Main "HOL-Library.Word" "HOL-Library.AList"
begin

text \<open>
  What the components of the muxocket development share: the machine integer types of the
  Go sources, the error values, byte slices, the big-endian accessors of
  \<^verbatim>\<open>encoding/binary\<close>, two's-complement facts for \<^verbatim>\<open>int32\<close> counters, and facts on Go
  maps kept as association lists.  The collections \<open>byte_simps\<close> (byte layouts),
  \<open>i32_simps\<close> (signed counters) and \<open>gomap_simps\<close> (association lists) carry the automation
  of the component theories.
\<close>

unbundle bit_operations_syntax

named_theorems byte_simps \<open>sizes and slices of byte layouts\<close>
named_theorems i32_simps \<open>readings of int32 counters\<close>
named_theorems gomap_simps \<open>Go maps as association lists\<close>

section \<open>Types\<close>

type_synonym u8 = "8 word"
type_synonym u16 = "16 word"
type_synonym u32 = "32 word"
type_synonym u64 = "64 word"
type_synonym i32 = "32 word"

text \<open>An \<^verbatim>\<open>int32\<close> is a 32-bit word read by \<open>sint\<close>.  Addresses of buffers, of channel objects
  and of unacknowledged-frame objects are numbers; \<^verbatim>\<open>time.Time\<close> and \<^verbatim>\<open>time.Duration\<close> are
  nanoseconds.\<close>

type_synonym bytes = "u8 list"
type_synonym bref = nat
type_synonym cref = nat
type_synonym uref = nat
type_synonym time = int

text \<open>A \<^verbatim>\<open>*[]byte\<close>: the buffer's identity and the bytes it shows.\<close>

type_synonym pbuf = "bref \<times> bytes"

text \<open>The error values the sources return.\<close>

datatype go_error =
    ErrClosedPipe | ErrEOF | ErrShortWrite
  | ErrSessionClosed | ErrChannelReset | ErrDeadlineExceeded
  | ErrProtocolVersionMismatch | ErrInvalidSignature | ErrSessionNotFound
  | ErrResumptionDisabled | ErrInvalidNonce | ErrMalformedHandshake
  | ErrListenerClosed | ErrNotResumable | ErrNonceExhausted
  | ErrServerKeyMismatch | ErrSessionIDMismatch | ErrInvalidHandshake
  | ErrText string
  | ErrIO nat

section \<open>Slices\<close>

text \<open>\<^verbatim>\<open>b[lo:hi]\<close>.\<close>

definition slice :: "nat \<Rightarrow> nat \<Rightarrow> 'a list \<Rightarrow> 'a list" where
  "slice lo hi b = take (hi - lo) (drop lo b)"

lemma length_slice [byte_simps]: "hi \<le> length b \<Longrightarrow> length (slice lo hi b) = hi - lo"
  by (simp add: slice_def)

lemma slice_append_left [byte_simps]:
  "hi \<le> length b \<Longrightarrow> slice lo hi (b @ c) = slice lo hi b"
  by (simp add: slice_def)

lemma slice_append_right [byte_simps]:
  "length b \<le> lo \<Longrightarrow> slice lo hi (b @ c) = slice (lo - length b) (hi - length b) c"
  by (simp add: slice_def)

lemma slice_all [byte_simps]: "n = length b \<Longrightarrow> slice 0 n b = b"
  by (simp add: slice_def)

section \<open>Big-endian accessors\<close>

text \<open>\<^verbatim>\<open>binary.BigEndian.PutUint16/32/64\<close> and \<^verbatim>\<open>Uint16/32/64\<close>.\<close>

definition be_put16 :: "u16 \<Rightarrow> bytes" where
  "be_put16 w = [ucast (drop_bit 8 w), ucast w]"

definition be_get16 :: "bytes \<Rightarrow> u16" where
  "be_get16 b = ucast (b ! 1) OR push_bit 8 (ucast (b ! 0))"

definition be_put32 :: "u32 \<Rightarrow> bytes" where
  "be_put32 w = [ucast (drop_bit 24 w), ucast (drop_bit 16 w), ucast (drop_bit 8 w), ucast w]"

definition be_get32 :: "bytes \<Rightarrow> u32" where
  "be_get32 b = ucast (b ! 3) OR push_bit 8 (ucast (b ! 2)) OR push_bit 16 (ucast (b ! 1)) OR
     push_bit 24 (ucast (b ! 0))"

definition be_put64 :: "u64 \<Rightarrow> bytes" where
  "be_put64 w = [ucast (drop_bit 56 w), ucast (drop_bit 48 w), ucast (drop_bit 40 w),
     ucast (drop_bit 32 w), ucast (drop_bit 24 w), ucast (drop_bit 16 w), ucast (drop_bit 8 w),
     ucast w]"

definition be_get64 :: "bytes \<Rightarrow> u64" where
  "be_get64 b = ucast (b ! 7) OR push_bit 8 (ucast (b ! 6)) OR push_bit 16 (ucast (b ! 5)) OR
     push_bit 24 (ucast (b ! 4)) OR push_bit 32 (ucast (b ! 3)) OR push_bit 40 (ucast (b ! 2)) OR
     push_bit 48 (ucast (b ! 1)) OR push_bit 56 (ucast (b ! 0))"

lemma length_be_put [simp, byte_simps]:
  "length (be_put16 v) = 2" "length (be_put32 w) = 4" "length (be_put64 x) = 8"
  by (simp_all add: be_put16_def be_put32_def be_put64_def)

text \<open>The byte a shift selects, put back at its place, is a window of eight bits.\<close>

lemma bit_byte_window:
  fixes w :: "'a::len word"
  shows "bit (push_bit k (ucast (ucast (drop_bit k w) :: u8)) :: 'a word) n \<longleftrightarrow>
     k \<le> n \<and> n < k + 8 \<and> bit w n"
  by (auto simp: bit_simps dest: bit_imp_le_length)

lemma bit_byte_window0:
  fixes w :: "'a::len word"
  shows "bit (ucast (ucast w :: u8) :: 'a word) n \<longleftrightarrow> n < 8 \<and> bit w n"
  by (auto simp: bit_simps dest: bit_imp_le_length)

lemmas bit_windows = bit_or_iff bit_byte_window bit_byte_window0

lemma be_get_put16 [simp]: "be_get16 (be_put16 w) = w"
  by (rule bit_word_eqI)
    (auto simp: be_get16_def be_put16_def bit_windows simp del: bit_push_bit_iff)

lemma be_get_put32 [simp]: "be_get32 (be_put32 w) = w"
  by (rule bit_word_eqI)
    (auto simp: be_get32_def be_put32_def bit_windows simp del: bit_push_bit_iff)

lemma be_get_put64 [simp]: "be_get64 (be_put64 w) = w"
  by (rule bit_word_eqI)
    (auto simp: be_get64_def be_put64_def bit_windows simp del: bit_push_bit_iff)

lemma u8_bit_high: "8 \<le> n \<Longrightarrow> \<not> bit (b :: u8) n"
  using bit_imp_le_length [of b n] by auto

lemma be_put_get16: "length b = 2 \<Longrightarrow> be_put16 (be_get16 b) = b"
  by (auto simp: be_get16_def be_put16_def bit_simps u8_bit_high length_Suc_conv numeral_2_eq_2
      intro!: bit_word_eqI simp flip: push_bit_eq_mult)

lemma list4E: "length b = 4 \<Longrightarrow> (\<And>p q r s. b = [p, q, r, s] \<Longrightarrow> P) \<Longrightarrow> P"
  by (auto simp: length_Suc_conv eval_nat_numeral)

lemma list8E:
  "length b = 8 \<Longrightarrow> (\<And>p q r s p' q' r' s'. b = [p, q, r, s, p', q', r', s'] \<Longrightarrow> P) \<Longrightarrow> P"
  by (auto simp: length_Suc_conv eval_nat_numeral)

lemma be_put_get32: "length b = 4 \<Longrightarrow> be_put32 (be_get32 b) = b"
  by (erule list4E) (auto simp: be_get32_def be_put32_def bit_simps u8_bit_high
      intro!: bit_word_eqI simp flip: push_bit_eq_mult)

lemma be_put_get64: "length b = 8 \<Longrightarrow> be_put64 (be_get64 b) = b"
  by (erule list8E) (auto simp: be_get64_def be_put64_def bit_simps u8_bit_high
      intro!: bit_word_eqI simp flip: push_bit_eq_mult)

section \<open>Fixed-width codecs\<close>

text \<open>The contract of a fixed-width field: what is written takes \<open>width\<close> bytes and reads back.
  A client can then cut a field off the front of any message.\<close>

locale field_codec =
  fixes put :: "'a \<Rightarrow> bytes" and get :: "bytes \<Rightarrow> 'a" and width :: nat
  assumes width_put: "length (put x) = width"
    and get_put: "get (put x) = x"
begin

lemma get_front: "get (slice 0 width (put x @ rest)) = x"
  by (simp add: slice_def width_put get_put)

lemma get_at: "length pre = n \<Longrightarrow> get (slice n (n + width) (pre @ put x @ rest)) = x"
  by (simp add: slice_def width_put get_put)

lemma put_inj: "put x = put y \<Longrightarrow> x = y"
  by (metis get_put)

lemma put_append_inj: "put x @ r = put y @ r' \<Longrightarrow> x = y \<and> r = r'"
  by (metis append_eq_append_conv put_inj width_put)

end

interpretation be16: field_codec be_put16 be_get16 2
  by unfold_locales simp_all

interpretation be32: field_codec be_put32 be_get32 4
  by unfold_locales simp_all

interpretation be64: field_codec be_put64 be_get64 8
  by unfold_locales simp_all

section \<open>Transition systems\<close>

text \<open>The contract of an inductive invariant: every step keeps it; then every run does.\<close>

locale step_invariant =
  fixes step :: "'s \<Rightarrow> 's \<Rightarrow> bool" and inv :: "'s \<Rightarrow> bool"
  assumes inv_step: "step s s' \<Longrightarrow> inv s \<Longrightarrow> inv s'"
begin

lemma inv_run: "step\<^sup>*\<^sup>* s s' \<Longrightarrow> inv s \<Longrightarrow> inv s'"
  by (induction rule: rtranclp_induct) (blast intro: inv_step)+

end

section \<open>Unsigned readings\<close>

lemma unat_u8 [simp]: "unat (c :: u8) < 256"
  using unsigned_less [of c] by simp

lemma unat_u16 [simp]: "unat (c :: u16) < 65536"
  using unsigned_less [of c] by simp

lemma unat_u32 [simp]: "unat (c :: u32) < 4294967296"
  using unsigned_less [of c] by simp

lemma unat_of_nat_u8: "k < 256 \<Longrightarrow> unat (of_nat k :: u8) = k"
  by (simp add: unat_of_nat)

lemma unat_of_nat_u16: "k < 65536 \<Longrightarrow> unat (of_nat k :: u16) = k"
  by (simp add: unat_of_nat)

lemma unat_of_nat_u32: "k < 4294967296 \<Longrightarrow> unat (of_nat k :: u32) = k"
  by (simp add: unat_of_nat)

lemma ucast_byte_of_nat: "k < 256 \<Longrightarrow> (ucast (of_nat k :: u32) :: u8) = of_nat k"
  by (simp add: unsigned_of_nat take_bit_nat_eq_self)

lemma ucast_byte_diff: "m \<le> c \<Longrightarrow> (ucast (c - m :: u8) :: u32) = of_nat (unat c - unat m)"
  by (metis of_nat_unat unat_sub)

section \<open>int32 counters\<close>

definition i32_of :: "int \<Rightarrow> i32" where
  "i32_of k = word_of_int k"

definition i32_max :: int where
  "i32_max = 2147483647"

lemma sint_range: "- 2147483648 \<le> sint (w :: i32)" "sint (w :: i32) \<le> 2147483647"
  using sint_ge [of w] sint_lt [of w] by simp_all

lemma signed_take_bit_i32:
  "- 2147483648 \<le> k \<Longrightarrow> k \<le> 2147483647 \<Longrightarrow> signed_take_bit 31 (k :: int) = k"
  by (rule signed_take_bit_int_eq_self) simp_all

lemma sint_of_int [i32_simps]:
  "- 2147483648 \<le> k \<Longrightarrow> k \<le> 2147483647 \<Longrightarrow> sint (word_of_int k :: i32) = k"
  by (simp add: sint_sbintrunc' signed_take_bit_i32)

lemma sint_add [i32_simps]:
  "- 2147483648 \<le> sint a + sint b \<Longrightarrow> sint a + sint b \<le> 2147483647 \<Longrightarrow>
   sint (a + b :: i32) = sint a + sint b"
  by (simp add: sint_word_add signed_take_bit_i32)

lemma sint_diff [i32_simps]:
  "- 2147483648 \<le> sint a - sint b \<Longrightarrow> sint a - sint b \<le> 2147483647 \<Longrightarrow>
   sint (a - b :: i32) = sint a - sint b"
  by (simp add: sint_word_diff signed_take_bit_i32)

lemma uint_eq_sint [i32_simps]: "0 \<le> sint (w :: i32) \<Longrightarrow> uint w = sint w"
  using sint_range [of w] by (simp add: uint_sint take_bit_int_eq_self)

section \<open>Go maps\<close>

text \<open>A Go map that is iterated or counted is an association list with distinct keys; the order
  of the list stands for the iteration order, which Go leaves open.\<close>

type_synonym ('k, 'v) gomap = "('k \<times> 'v) list"

definition gomap_ok :: "('k, 'v) gomap \<Rightarrow> bool" where
  "gomap_ok m \<longleftrightarrow> distinct (map fst m)"

lemma gomap_ok_Nil [simp]: "gomap_ok []"
  by (simp add: gomap_ok_def)

lemma gomap_ok_update [simp]: "gomap_ok m \<Longrightarrow> gomap_ok (AList.update k v m)"
  by (simp add: gomap_ok_def distinct_update)

lemma gomap_ok_delete [simp]: "gomap_ok m \<Longrightarrow> gomap_ok (AList.delete k m)"
  by (simp add: gomap_ok_def distinct_delete)

lemma gomap_ok_filter [simp]: "gomap_ok m \<Longrightarrow> gomap_ok (filter P m)"
  unfolding gomap_ok_def by (metis distinct_map_filter)

lemma length_delete_present:
  "gomap_ok m \<Longrightarrow> map_of m k = Some v \<Longrightarrow> length (AList.delete k m) < length m"
proof (induction m)
  case Nil
  then show ?case by simp
next
  case (Cons p m)
  then show ?case
    by (cases p) (auto simp: gomap_ok_def AList.delete_eq less_Suc_eq_le split: if_splits)
qed

lemma length_update_absent [gomap_simps]:
  "map_of m k = None \<Longrightarrow> length (AList.update k v m) = Suc (length m)"
  by (induction m) auto

lemma length_update_present [gomap_simps]:
  "map_of m k = Some w \<Longrightarrow> length (AList.update k v m) = length m"
  by (induction m) (auto split: if_splits)

lemma gomap_delete [gomap_simps]:
  "map_of (AList.delete k m) = (map_of m)(k := None)"
  by (simp add: delete_conv')

lemma gomap_update [gomap_simps]:
  "map_of (AList.update k v m) = (map_of m)(k \<mapsto> v)"
  by (simp add: update_conv')

text \<open>The sum of a quantity over the values of a map.\<close>

definition gsum :: "('v \<Rightarrow> int) \<Rightarrow> ('k, 'v) gomap \<Rightarrow> int" where
  "gsum g m = (\<Sum>p\<leftarrow>m. g (snd p))"

lemma gsum_Nil [simp]: "gsum g [] = 0"
  by (simp add: gsum_def)

lemma gsum_Cons [simp]: "gsum g ((k, v) # m) = g v + gsum g m"
  by (simp add: gsum_def)

lemma delete_absent: "map_of m k = None \<Longrightarrow> AList.delete k m = m"
  by (induction m) (auto split: if_splits)

lemma gsum_delete:
  "gomap_ok m \<Longrightarrow> map_of m k = Some v \<Longrightarrow> gsum g (AList.delete k m) = gsum g m - g v"
proof (induction m)
  case (Cons p m)
  obtain a b where p: "p = (a, b)" by (cases p)
  show ?case
  proof (cases "a = k")
    case True
    then have "map_of m k = None" using Cons.prems p by (simp add: gomap_ok_def map_of_eq_None_iff)
    with True Cons.prems p show ?thesis by (simp add: delete_absent)
  next
    case False
    with Cons p show ?thesis by (simp add: gomap_ok_def)
  qed
qed simp

lemma gsum_update_absent: "map_of m k = None \<Longrightarrow> gsum g (AList.update k v m) = gsum g m + g v"
  by (induction m) (auto split: if_splits)

lemma gsum_update_present:
  "map_of m k = Some w \<Longrightarrow> gsum g (AList.update k v m) = gsum g m + g v - g w"
  by (induction m) (auto split: if_splits)

lemma gsum_nonneg: "(\<And>k v. (k, v) \<in> set m \<Longrightarrow> 0 \<le> g v) \<Longrightarrow> 0 \<le> gsum g m"
proof (induction m)
  case (Cons p m)
  obtain k v where p: "p = (k, v)" by (cases p)
  have "0 \<le> g v" using Cons.prems [of k v] p by simp
  moreover have "0 \<le> gsum g m" using Cons.IH Cons.prems by (meson list.set_intros(2))
  ultimately show ?case by (simp add: p)
qed simp

end
