(* ===== verification/Allocator.thy ===== *)
theory Allocator
  imports Mux_Prelude
begin

text \<open>
  The buffer allocator (\<^verbatim>\<open>src/allocator.go\<close>): nineteen \<^verbatim>\<open>sync.Pool\<close>s of byte slices with
  capacities \<open>2 ^ 0\<close> to \<open>2 ^ 18\<close>, selected by the position of the most significant bit of the
  requested size, which \<^verbatim>\<open>msb\<close> finds with a de Bruijn multiplication on a 32-bit word.
  A pool is the list of the slices put back; \<^verbatim>\<open>sync.Pool.Get\<close> may hand out any of them or
  a new one, so every lookup takes the choice as an argument.  An index or slice
  expression out of range is the outcome \<open>Panic\<close>.
\<close>

section \<open>The source's allocator\<close>

datatype 'a outcome = Ret 'a | Panic

text \<open>A \<^verbatim>\<open>*[]byte\<close> as the allocator sees it.\<close>

record slab =
  slab_len :: nat
  slab_cap :: nat

type_synonym pools = "slab list list"

definition MaxAllocSize :: nat where
  "MaxAllocSize = 256 * 1024"

definition debruijnPos :: "u8 list" where
  "debruijnPos = [0, 9, 1, 10, 13, 21, 2, 29, 11, 14, 16, 18, 22, 25, 3, 30, 8, 12, 20, 28, 15,
     17, 24, 7, 19, 27, 23, 6, 26, 5, 4, 31]"

definition smear :: "u32 \<Rightarrow> u32" where
  "smear v0 =
     (let v1 = v0 OR drop_bit 1 v0;
          v2 = v1 OR drop_bit 2 v1;
          v3 = v2 OR drop_bit 4 v2;
          v4 = v3 OR drop_bit 8 v3
      in v4 OR drop_bit 16 v4)"

definition msb :: "int \<Rightarrow> u8" where
  "msb sz =
     debruijnPos ! unat (drop_bit 27 (smear (word_of_int sz) * 0x07C4ACDD))"

definition NewAllocator :: pools where
  "NewAllocator = replicate 19 []"

text \<open>\<^verbatim>\<open>alloc.buffers[k].Get()\<close>: the chosen pooled slice, or \<^verbatim>\<open>New\<close>'s.\<close>

definition pool_get :: "nat option \<Rightarrow> nat \<Rightarrow> pools \<Rightarrow> (slab \<times> pools) outcome" where
  "pool_get choice k ps =
     (if k < length ps then
        (case choice of
           Some i \<Rightarrow>
             if i < length (ps ! k)
             then Ret (ps ! k ! i, ps[k := take i (ps ! k) @ drop (Suc i) (ps ! k)])
             else Ret (\<lparr>slab_len = 2 ^ k, slab_cap = 2 ^ k\<rparr>, ps)
         | None \<Rightarrow> Ret (\<lparr>slab_len = 2 ^ k, slab_cap = 2 ^ k\<rparr>, ps))
      else Panic)"

text \<open>\<^verbatim>\<open>*p = ( *p)[:sz]\<close>.\<close>

definition reslice :: "nat \<Rightarrow> slab \<Rightarrow> slab outcome" where
  "reslice n p = (if n \<le> slab_cap p then Ret (p\<lparr>slab_len := n\<rparr>) else Panic)"

definition pool_get_sized ::
  "nat option \<Rightarrow> nat \<Rightarrow> nat \<Rightarrow> pools \<Rightarrow> (slab option \<times> pools) outcome" where
  "pool_get_sized choice k sz ps =
     (case pool_get choice k ps of
        Panic \<Rightarrow> Panic
      | Ret (p, ps') \<Rightarrow> (case reslice sz p of Panic \<Rightarrow> Panic | Ret p' \<Rightarrow> Ret (Some p', ps')))"

definition Get :: "nat option \<Rightarrow> int \<Rightarrow> pools \<Rightarrow> (slab option \<times> pools) outcome" where
  "Get choice sz ps =
     (if sz \<le> 0 \<or> sz > int MaxAllocSize then Ret (None, ps)
      else
        let bits = msb sz in
        if sz = 2 ^ unat bits then pool_get_sized choice (unat bits) (nat sz) ps
        else pool_get_sized choice (unat (bits + 1)) (nat sz) ps)"

definition Put :: "slab option \<Rightarrow> pools \<Rightarrow> (go_error option \<times> pools) outcome" where
  "Put pp ps =
     (case pp of
        None \<Rightarrow> Ret (Some (ErrText ''allocator Put() incorrect buffer size''), ps)
      | Some p \<Rightarrow>
          if slab_cap p = 0 \<or> slab_cap p > MaxAllocSize
          then Ret (Some (ErrText ''allocator Put() incorrect buffer size''), ps)
          else
            let bits = unat (msb (int (slab_cap p))) in
            if slab_cap p \<noteq> 2 ^ bits
            then Ret (Some (ErrText ''allocator Put() incorrect buffer size''), ps)
            else if bits < length ps then Ret (None, ps[bits := p # ps ! bits])
            else Panic)"

section \<open>The most significant bit\<close>

lemma smear_round:
  assumes "\<And>n. bit (a :: u32) n \<longleftrightarrow> (\<exists>j < m. bit v (n + j))" and mm: "mm = m + m"
  shows "bit (a OR drop_bit m a) n \<longleftrightarrow> (\<exists>j < mm. bit v (n + j))"
proof -
  have "(\<exists>j < m. bit v (m + n + j)) \<longleftrightarrow> (\<exists>j < m + m. m \<le> j \<and> bit v (n + j))"
  proof
    assume "\<exists>j < m. bit v (m + n + j)"
    then obtain j where "j < m" "bit v (m + n + j)" by blast
    then show "\<exists>j < m + m. m \<le> j \<and> bit v (n + j)"
      by (intro exI [of _ "m + j"]) (simp add: ac_simps)
  next
    assume "\<exists>j < m + m. m \<le> j \<and> bit v (n + j)"
    then obtain j where "j < m + m" "m \<le> j" "bit v (n + j)" by blast
    then show "\<exists>j < m. bit v (m + n + j)"
      by (intro exI [of _ "j - m"]) auto
  qed
  then show ?thesis
    by (simp add: bit_or_iff bit_drop_bit_eq assms(1) mm) (meson not_le trans_less_add1)
qed

lemma bit_smear: "bit (smear v) n \<longleftrightarrow> (\<exists>j < 32. bit v (n + j))"
proof -
  define v1 where "v1 = v OR drop_bit 1 v"
  define v2 where "v2 = v1 OR drop_bit 2 v1"
  define v3 where "v3 = v2 OR drop_bit 4 v2"
  define v4 where "v4 = v3 OR drop_bit 8 v3"
  have 1: "bit v1 n \<longleftrightarrow> (\<exists>j < 2. bit v (n + j))" for n
    unfolding v1_def by (rule smear_round) simp_all
  have 2: "bit v2 n \<longleftrightarrow> (\<exists>j < 4. bit v (n + j))" for n
    unfolding v2_def by (rule smear_round [OF 1]) simp
  have 3: "bit v3 n \<longleftrightarrow> (\<exists>j < 8. bit v (n + j))" for n
    unfolding v3_def by (rule smear_round [OF 2]) simp
  have 4: "bit v4 n \<longleftrightarrow> (\<exists>j < 16. bit v (n + j))" for n
    unfolding v4_def by (rule smear_round [OF 3]) simp
  have "smear v = v4 OR drop_bit 16 v4"
    by (simp add: smear_def Let_def v1_def v2_def v3_def v4_def)
  then show ?thesis
    using smear_round [OF 4, of 32 n] by simp
qed

lemma bit_unat: "bit (v :: u32) i \<longleftrightarrow> odd (unat v div 2 ^ i)"
  by (simp add: bit_unsigned_iff flip: bit_iff_odd)

lemma bit_top:
  assumes "2 ^ k \<le> unat v" "unat v < 2 ^ Suc k"
  shows "bit (v :: u32) k" "k < i \<Longrightarrow> \<not> bit v i"
proof -
  have "unat v div 2 ^ k = 1"
    using assms by (intro div_nat_eqI) simp_all
  then show "bit v k" by (simp add: bit_unat)
  show "\<not> bit v i" if "k < i"
  proof -
    have "unat v < 2 ^ i"
      using assms(2) that by (metis Suc_leI one_le_numeral order_less_le_trans power_increasing)
    then show ?thesis by (simp add: bit_unat)
  qed
qed

lemma smear_mask:
  assumes "2 ^ k \<le> unat v" "unat v < 2 ^ Suc k"
  shows "smear v = mask (Suc k)"
proof (rule bit_word_eqI)
  fix n :: nat
  assume n: "n < LENGTH(32)"
  have "(\<exists>j < 32. bit v (n + j)) \<longleftrightarrow> n \<le> k"
  proof
    assume "\<exists>j < 32. bit v (n + j)"
    then show "n \<le> k" using bit_top(2) [OF assms] by (meson not_le trans_less_add1)
  next
    assume "n \<le> k"
    moreover have "k < 32" using bit_top(1) [OF assms] bit_imp_le_length by fastforce
    ultimately show "\<exists>j < 32. bit v (n + j)"
      using bit_top(1) [OF assms] by (intro exI [of _ "k - n"]) simp
  qed
  then show "bit (smear v) n = bit (mask (Suc k) :: u32) n"
    using n by (simp add: bit_smear bit_mask_iff less_Suc_eq_le)
qed

lemma debruijn_table:
  "k < 32 \<Longrightarrow> debruijnPos ! unat (drop_bit 27 (mask (Suc k) * 0x07C4ACDD :: u32)) = of_nat k"
proof -
  have "list_all (\<lambda>k. debruijnPos ! unat (drop_bit 27 (mask (Suc k) * 0x07C4ACDD :: u32)) = of_nat k)
    [0..<32]"
    by code_simp
  then show "k < 32 \<Longrightarrow> ?thesis" by (simp add: list_all_iff)
qed

lemma log2_exists: "0 < (n :: nat) \<Longrightarrow> \<exists>k. 2 ^ k \<le> n \<and> n < 2 ^ Suc k"
  using ex_power_ivl1 [of 2 n] by (auto simp: Suc_le_eq)

text \<open>The de Bruijn lookup is the integer logarithm, on all of \<^verbatim>\<open>uint32\<close>.\<close>

lemma msb_bounds:
  assumes "0 < n" "n < 2 ^ 32"
  shows "2 ^ unat (msb (int n)) \<le> n \<and> n < 2 ^ Suc (unat (msb (int n)))"
proof -
  obtain k where k: "2 ^ k \<le> n" "n < 2 ^ Suc k" using log2_exists [OF assms(1)] by blast
  have "(2 :: nat) ^ k < 2 ^ 32" using k(1) assms(2) by linarith
  then have "k < 32" by (simp only: power_strict_increasing_iff one_less_numeral_iff semiring_norm)
  have "unat (of_nat n :: u32) = n" using assms(2) by (simp add: unat_of_nat_u32)
  then have "smear (of_nat n) = mask (Suc k)" using k smear_mask [of k "of_nat n"] by simp
  then have "msb (int n) = of_nat k" using \<open>k < 32\<close> by (simp add: msb_def debruijn_table)
  then have "unat (msb (int n)) = k" using \<open>k < 32\<close> by (simp add: unat_of_nat_u8)
  then show ?thesis using k by simp
qed

lemma msb_pow2: "k < 32 \<Longrightarrow> unat (msb (2 ^ k)) = k"
proof -
  assume "k < 32"
  then have "(2 :: nat) ^ k < 2 ^ 32" by (intro power_strict_increasing) simp_all
  then have b: "2 ^ unat (msb (2 ^ k)) \<le> (2 :: nat) ^ k" "(2 :: nat) ^ k < 2 ^ Suc (unat (msb (2 ^ k)))"
    using msb_bounds [of "2 ^ k"] by simp_all
  then have "unat (msb (2 ^ k)) \<le> k" "k < Suc (unat (msb (2 ^ k)))"
    by (simp_all only: power_increasing_iff power_strict_increasing_iff one_less_numeral_iff semiring_norm)
  then show ?thesis by simp
qed

section \<open>Pool discipline\<close>

text \<open>Pool \<open>k\<close> only ever holds slices of capacity \<open>2 ^ k\<close>.\<close>

definition alloc_ok :: "pools \<Rightarrow> bool" where
  "alloc_ok ps \<longleftrightarrow>
     length ps = 19 \<and> list_all2 (\<lambda>k pool. list_all (\<lambda>p. slab_cap p = 2 ^ k) pool) [0..<19] ps"

lemma alloc_ok_iff:
  "alloc_ok ps \<longleftrightarrow> length ps = 19 \<and> (\<forall>k < 19. \<forall>p \<in> set (ps ! k). slab_cap p = 2 ^ k)"
  by (auto simp: alloc_ok_def list_all2_conv_all_nth list_all_iff)

lemma NewAllocator_ok [simp]: "alloc_ok NewAllocator"
  by (simp add: alloc_ok_iff NewAllocator_def)

lemma alloc_ok_update:
  "alloc_ok ps \<Longrightarrow> (\<And>p. p \<in> set pool \<Longrightarrow> slab_cap p = 2 ^ k) \<Longrightarrow> alloc_ok (ps[k := pool])"
  by (cases "k < length ps") (auto simp: alloc_ok_iff nth_list_update list_update_beyond)

lemma pool_get_ok:
  assumes "alloc_ok ps" "k < 19"
  shows "\<exists>p ps'. pool_get choice k ps = Ret (p, ps') \<and> slab_cap p = 2 ^ k \<and> alloc_ok ps'"
proof (cases "\<exists>i. choice = Some i \<and> i < length (ps ! k)")
  case True
  then obtain i where i: "choice = Some i" "i < length (ps ! k)" by blast
  have "alloc_ok (ps[k := take i (ps ! k) @ drop (Suc i) (ps ! k)])"
    using assms by (intro alloc_ok_update) (auto simp: alloc_ok_iff dest: in_set_takeD in_set_dropD)
  with assms i show ?thesis by (auto simp: pool_get_def alloc_ok_iff)
next
  case False
  with assms show ?thesis
    by (auto simp: pool_get_def alloc_ok_iff split: option.splits)
qed

lemma pool_get_sized_ok:
  assumes "alloc_ok ps" "k < 19" "n \<le> 2 ^ k"
  shows "\<exists>p ps'. pool_get_sized choice k n ps = Ret (Some p, ps') \<and> slab_len p = n \<and>
           slab_cap p = 2 ^ k \<and> alloc_ok ps'"
  using pool_get_ok [OF assms(1,2), of choice] assms(3)
  by (auto simp: pool_get_sized_def reslice_def)

text \<open>The class a request of \<open>n\<close> bytes is served from.\<close>

lemma Get_class:
  assumes "0 < n" "n \<le> MaxAllocSize"
  shows "\<exists>k < 19. n \<le> 2 ^ k \<and> 2 ^ k < 2 * n \<and>
           (\<forall>choice ps. Get choice (int n) ps = pool_get_sized choice k n ps)"
proof -
  define b where "b = unat (msb (int n))"
  have n: "n \<le> 2 ^ 18" using assms(2) by (simp add: MaxAllocSize_def)
  then have mb: "2 ^ b \<le> n" "n < 2 ^ Suc b" using msb_bounds [of n] assms(1) by (simp_all add: b_def)
  have "(2 :: nat) ^ b \<le> 2 ^ 18" using mb(1) n by linarith
  then have b18: "b \<le> 18" by (simp only: power_increasing_iff one_less_numeral_iff semiring_norm)
  have suc: "unat (msb (int n) + 1) = Suc b"
    using b18 by (simp add: b_def unat_word_ariths)
  have int_eq: "int n = 2 ^ b \<longleftrightarrow> n = 2 ^ b" by (metis of_nat_eq_iff of_nat_numeral of_nat_power)
  show ?thesis
  proof (cases "n = 2 ^ b")
    case True
    have "Get choice (int n) ps = pool_get_sized choice b n ps" for choice ps
      unfolding Get_def Let_def b_def [symmetric] using assms True int_eq by (simp add: nat_power_eq)
    with assms b18 show ?thesis by (intro exI [of _ b]) (simp flip: True)
  next
    case False
    have "b \<noteq> 18" using False mb(1) n by auto
    with b18 have "Suc b < 19" by simp
    moreover have "Get choice (int n) ps = pool_get_sized choice (Suc b) n ps" for choice ps
      unfolding Get_def Let_def b_def [symmetric] using assms False int_eq suc by simp
    moreover have "2 ^ Suc b < 2 * n" using mb(1) False by simp
    ultimately show ?thesis using mb(2) by (intro exI [of _ "Suc b"]) auto
  qed
qed

text \<open>C34: for every size up to 256 KiB \<^verbatim>\<open>Get\<close> returns, without panicking and whatever the pools hold,
  a slice of exactly that length whose capacity is a power of two below twice the request (the
  documented bound of 50% waste), and the pools keep their capacity classes.\<close>

theorem Get_correct:
  assumes "alloc_ok ps" "0 < n" "n \<le> MaxAllocSize"
  shows "\<exists>p ps' k. Get choice (int n) ps = Ret (Some p, ps') \<and> alloc_ok ps' \<and>
           slab_len p = n \<and> slab_cap p = 2 ^ k \<and> n \<le> slab_cap p \<and> slab_cap p < 2 * n"
proof -
  from Get_class [OF assms(2,3)] obtain k
    where k: "k < 19" "n \<le> 2 ^ k" "2 ^ k < 2 * n" "Get choice (int n) ps = pool_get_sized choice k n ps"
    by blast
  with pool_get_sized_ok [OF assms(1) k(1,2), of choice] show ?thesis by auto
qed

theorem Get_correct_witness:
  "\<exists>p ps' k. Get (Some 0) 1000 NewAllocator = Ret (Some p, ps') \<and> alloc_ok ps' \<and>
           slab_len p = 1000 \<and> slab_cap p = 2 ^ k \<and> 1000 \<le> slab_cap p \<and> slab_cap p < 2 * 1000"
  using Get_correct [of NewAllocator 1000 "Some 0"] by (simp add: MaxAllocSize_def)

text \<open>\<^verbatim>\<open>Put\<close> never panics, keeps the classes, and accepts a slice exactly when its capacity is a
  power of two up to 256 KiB; a slice it refuses leaves the pools as they were.\<close>

lemma Put_correct:
  assumes "alloc_ok ps"
  shows "\<exists>e ps'. Put (Some p) ps = Ret (e, ps') \<and> alloc_ok ps' \<and>
           (e = None \<longleftrightarrow> (\<exists>k \<le> 18. slab_cap p = 2 ^ k)) \<and> (e \<noteq> None \<longrightarrow> ps' = ps)"
proof (cases "\<exists>k \<le> 18. slab_cap p = 2 ^ k")
  case True
  then obtain k where k: "k \<le> 18" "slab_cap p = 2 ^ k" by blast
  then have "(2 :: nat) ^ k \<le> 2 ^ 18" by (intro power_increasing) simp_all
  moreover have "alloc_ok (ps[k := p # ps ! k])"
    using assms k by (intro alloc_ok_update) (auto simp: alloc_ok_iff)
  moreover have "length ps = 19" using assms by (simp add: alloc_ok_iff)
  ultimately have "Put (Some p) ps = Ret (None, ps[k := p # ps ! k])" "alloc_ok (ps[k := p # ps ! k])"
    using k by (simp_all add: Put_def MaxAllocSize_def msb_pow2 Let_def)
  with True show ?thesis by blast
next
  case False
  show ?thesis
  proof (cases "slab_cap p = 0 \<or> slab_cap p > MaxAllocSize")
    case in_range: False
    let ?b = "unat (msb (int (slab_cap p)))"
    have "2 ^ ?b \<le> slab_cap p"
      using in_range msb_bounds [of "slab_cap p"] by (simp add: MaxAllocSize_def)
    then have "(2 :: nat) ^ ?b \<le> 2 ^ 18" using in_range by (simp add: MaxAllocSize_def)
    then have "?b \<le> 18" by (simp only: power_increasing_iff one_less_numeral_iff semiring_norm)
    with False have "slab_cap p \<noteq> 2 ^ ?b" by blast
    with in_range False assms show ?thesis by (auto simp: Put_def Let_def)
  qed (use assms False in \<open>auto simp: Put_def\<close>)
qed

lemma Put_correct_example:
  "\<exists>e ps'. Put (Some \<lparr>slab_len = 5, slab_cap = 8\<rparr>) NewAllocator = Ret (e, ps') \<and> alloc_ok ps' \<and>
     (e = None \<longleftrightarrow> (\<exists>k \<le> 18. slab_cap \<lparr>slab_len = 5, slab_cap = 8\<rparr> = 2 ^ k)) \<and>
     (e \<noteq> None \<longrightarrow> ps' = NewAllocator)"
  by (rule Put_correct) simp

end
