(* ===== verification/RingBuffer.thy ===== *)
theory RingBuffer
  imports Allocator
begin

text \<open>
  The chunked ring buffer (\<^verbatim>\<open>src/ringbuffer.go\<close>) that carries received payloads from the reader
  of a session to the application.  The chunks reachable from \<^verbatim>\<open>cChunk\<close> through \<^verbatim>\<open>next\<close> are a
  list whose last element is \<^verbatim>\<open>pChunk\<close>; the list is empty once \<^verbatim>\<open>Close\<close> has set both pointers to
  nil.  \<^verbatim>\<open>chunkPool\<close> only ever receives chunks that \<^verbatim>\<open>recycleChunk\<close> has zeroed, so taking
  one from it is the same as making a new one.  An index out of range is \<open>Panic\<close>.

  \<open>ring_items\<close> is the abstract queue.  The lemmas show that every operation keeps the invariant
  \<open>ring_ok\<close>, that no index is ever out of range, and that the operations are those of a FIFO
  queue of buffers and of a byte stream; the interface is the locale \<open>fifo_ring\<close>.
\<close>

section \<open>The source's ring\<close>

definition MinChunkCap :: nat where "MinChunkCap = 16"
definition MaxChunkCap :: nat where "MaxChunkCap = 65536"
definition MaxRecycleSlots :: nat where "MaxRecycleSlots = 1024"

text \<open>\<open>sbuf = None\<close> is a nil slice.\<close>

record slot =
  sbuf :: "bytes option"
  shead :: "bref option"

record chunk =
  ck_slots :: "slot list"
  ck_cap :: nat
  ck_tail :: nat

record ring =
  ring_chunks :: "chunk list"
  cHead :: nat
  cachedTail :: nat
  popped :: u64
  totalPopped :: u64
  freeChunk :: "chunk option"
  pushed :: u64
  totalPushed :: u64

abbreviation zero_slot :: slot where
  "zero_slot \<equiv> \<lparr>sbuf = None, shead = None\<rparr>"

text \<open>\<^verbatim>\<open>for cap < capacity { cap <<= 1 }\<close>\<close>

function pow2_from :: "nat \<Rightarrow> nat \<Rightarrow> nat" where
  "pow2_from c capacity = (if 0 < c \<and> c < capacity then pow2_from (2 * c) capacity else c)"
  by pat_completeness auto
termination
  by (relation "measure (\<lambda>(c, capacity). capacity - c)") auto

declare pow2_from.simps [simp del]

definition newChunk :: "nat \<Rightarrow> chunk" where
  "newChunk capacity =
     (if capacity \<le> MinChunkCap
      then \<lparr>ck_slots = replicate MinChunkCap zero_slot, ck_cap = MinChunkCap, ck_tail = 0\<rparr>
      else let cap = pow2_from 1 capacity in
        \<lparr>ck_slots = replicate cap zero_slot, ck_cap = cap, ck_tail = 0\<rparr>)"

text \<open>What \<^verbatim>\<open>recycleChunk\<close> gives to the pool, if anything.\<close>

definition recycleChunk :: "chunk option \<Rightarrow> chunk option" where
  "recycleChunk oc =
     (case oc of
        None \<Rightarrow> None
      | Some c \<Rightarrow>
          if ck_cap c = MinChunkCap
          then Some (c\<lparr>ck_slots := map (\<lambda>_. zero_slot) (ck_slots c), ck_tail := 0\<rparr>) else None)"

text \<open>\<^verbatim>\<open>Close\<close> with the chunks it returns to the pool: the free chunk, then the chain.\<close>

definition ring_Close :: "ring \<Rightarrow> ring \<times> chunk list" where
  "ring_Close r =
     (r\<lparr>freeChunk := None, ring_chunks := []\<rparr>,
      List.map_filter recycleChunk (freeChunk r # map Some (ring_chunks r)))"

definition NewBufferRing :: "nat \<Rightarrow> ring" where
  "NewBufferRing initialCapacity =
     \<lparr>ring_chunks = [newChunk initialCapacity], cHead = 0, cachedTail = 0, popped = 0,
      totalPopped = 0, freeChunk = None, pushed = 0, totalPushed = 0\<rparr>"

definition ring_Length :: "ring \<Rightarrow> nat" where
  "ring_Length r =
     (if totalPushed r \<ge> totalPopped r then unat (totalPushed r - totalPopped r) else 0)"

text \<open>The chunk \<^verbatim>\<open>Push\<close> links behind a full one, and the free list afterwards.\<close>

definition next_chunk :: "ring \<Rightarrow> chunk \<Rightarrow> chunk" where
  "next_chunk r pc =
     (let currentLag = ring_Length r in
      if currentLag = 0 then newChunk MinChunkCap
      else
        case freeChunk r of
          Some f \<Rightarrow> f\<lparr>ck_slots := map (\<lambda>_. zero_slot) (ck_slots f), ck_tail := 0\<rparr>
        | None \<Rightarrow>
            newChunk (if currentLag \<ge> ck_cap pc
                      then (if ck_cap pc * 2 > MaxChunkCap then MaxChunkCap else ck_cap pc * 2)
                      else ck_cap pc))"

definition grow :: "ring \<Rightarrow> ring" where
  "grow r =
     (let pc = last (ring_chunks r) in
      if ck_tail pc \<ge> ck_cap pc
      then r\<lparr>ring_chunks := ring_chunks r @ [next_chunk r pc], freeChunk := None\<rparr>
      else r)"

text \<open>\<^verbatim>\<open>Push\<close>; the second component is the buffer a closed ring gives back to the allocator.\<close>

definition Push :: "bytes option \<Rightarrow> bref option \<Rightarrow> ring \<Rightarrow> (ring \<times> bref option) outcome" where
  "Push b h r0 =
     (if ring_chunks r0 = [] then Ret (r0, h)
      else
        let r = grow r0;
            pc = last (ring_chunks r);
            idx = ck_tail pc
        in if idx < length (ck_slots pc) then
             Ret (r\<lparr>ring_chunks := butlast (ring_chunks r) @
                      [pc\<lparr>ck_slots := (ck_slots pc)[idx := \<lparr>sbuf = b, shead = h\<rparr>],
                         ck_tail := idx + 1\<rparr>],
                    pushed := pushed r + 1,
                    totalPushed := pushed r + 1\<rparr>, None)
           else Panic)"

text \<open>The loop that \<^verbatim>\<open>Pop\<close>, \<^verbatim>\<open>PartialRead\<close> and \<^verbatim>\<open>peekSlot\<close> open with: it leaves the ring at the
  consumer's next slot (\<open>True\<close>) or finds it empty (\<open>False\<close>).\<close>

function seek :: "ring \<Rightarrow> ring \<times> bool" where
  "seek r =
     (case ring_chunks r of
        [] \<Rightarrow> (r, False)
      | cc # rest \<Rightarrow>
          if cHead r \<ge> cachedTail r then
            let r1 = r\<lparr>cachedTail := ck_tail cc\<rparr> in
            if cHead r1 \<ge> cachedTail r1 then
              if cHead r1 \<ge> ck_cap cc \<and> rest \<noteq> [] then
                seek (r1\<lparr>freeChunk := (if ck_cap cc \<le> MaxRecycleSlots then Some cc else freeChunk r1),
                         ring_chunks := rest, cHead := 0, cachedTail := 0\<rparr>)
              else (r1, False)
            else (r1, True)
          else (r, True))"
  by pat_completeness auto
termination
  by (relation "measure (length \<circ> ring_chunks)") auto

declare seek.simps [simp del]

text \<open>\<^verbatim>\<open>&cc.slots[r.cHead]\<close>, and the removal of that slot.\<close>

definition cur_slot :: "ring \<Rightarrow> slot option" where
  "cur_slot r =
     (case ring_chunks r of
        [] \<Rightarrow> None
      | cc # _ \<Rightarrow> if cHead r < length (ck_slots cc) then Some (ck_slots cc ! cHead r) else None)"

definition set_slot :: "slot \<Rightarrow> ring \<Rightarrow> ring" where
  "set_slot s r =
     (case ring_chunks r of
        [] \<Rightarrow> r
      | cc # rest \<Rightarrow> r\<lparr>ring_chunks := cc\<lparr>ck_slots := (ck_slots cc)[cHead r := s]\<rparr> # rest\<rparr>)"

definition popSlot :: "ring \<Rightarrow> ring" where
  "popSlot r =
     (let r1 = set_slot zero_slot r in
      r1\<lparr>cHead := cHead r1 + 1, popped := popped r1 + 1, totalPopped := popped r1 + 1\<rparr>)"

definition Pop :: "ring \<Rightarrow> ((bytes option \<times> bref option) option \<times> ring) outcome" where
  "Pop r0 =
     (case seek r0 of
        (r, False) \<Rightarrow> Ret (None, r)
      | (r, True) \<Rightarrow>
          (case cur_slot r of
             None \<Rightarrow> Panic
           | Some s \<Rightarrow> Ret (Some (sbuf s, shead s), popSlot r)))"

text \<open>\<^verbatim>\<open>PartialRead(b)\<close> with \<open>k = len(b)\<close>: the bytes copied, the drained buffer, the ring.\<close>

definition PartialRead :: "nat \<Rightarrow> ring \<Rightarrow> (bytes \<times> bref option \<times> ring) outcome" where
  "PartialRead k r0 =
     (case seek r0 of
        (r, False) \<Rightarrow> Ret ([], None, r)
      | (r, True) \<Rightarrow>
          (case cur_slot r of
             None \<Rightarrow> Panic
           | Some s \<Rightarrow>
               (case sbuf s of
                  None \<Rightarrow> Ret ([], shead s, popSlot r)
                | Some d \<Rightarrow>
                    let n = min k (length d) in
                    if drop n d = [] then Ret (take n d, shead s, popSlot r)
                    else Ret (take n d, None, set_slot (s\<lparr>sbuf := Some (drop n d)\<rparr>) r))))"

text \<open>\<^verbatim>\<open>Peek\<close>: \<open>None\<close> on an empty ring, otherwise the unread bytes and the drained buffer.\<close>

definition Peek :: "ring \<Rightarrow> ((bytes option \<times> bref option) option \<times> ring) outcome" where
  "Peek r0 =
     (case seek r0 of
        (r, False) \<Rightarrow> Ret (None, r)
      | (r, True) \<Rightarrow>
          (case cur_slot r of
             None \<Rightarrow> Panic
           | Some s \<Rightarrow>
               if sbuf s = None \<or> sbuf s = Some []
               then Ret (Some (None, shead s), popSlot r)
               else Ret (Some (sbuf s, None), r)))"

definition Advance :: "nat \<Rightarrow> ring \<Rightarrow> (bref option \<times> ring) outcome" where
  "Advance n r0 =
     (case seek r0 of
        (r, False) \<Rightarrow> Ret (None, r)
      | (r, True) \<Rightarrow>
          (case cur_slot r of
             None \<Rightarrow> Panic
           | Some s \<Rightarrow>
               let d = (case sbuf s of None \<Rightarrow> [] | Some d \<Rightarrow> d) in
               if n > length d then Panic
               else if drop n d = [] then Ret (shead s, popSlot r)
               else Ret (None, set_slot (s\<lparr>sbuf := Some (drop n d)\<rparr>) r)))"

section \<open>Invariant and abstract queue\<close>

definition chunk_ok :: "chunk \<Rightarrow> bool" where
  "chunk_ok c \<longleftrightarrow> length (ck_slots c) = ck_cap c \<and> 0 < ck_cap c \<and> ck_tail c \<le> ck_cap c"

definition items_of :: "chunk \<Rightarrow> slot list" where
  "items_of c = take (ck_tail c) (ck_slots c)"

definition ring_items :: "ring \<Rightarrow> slot list" where
  "ring_items r = drop (cHead r) (concat (map items_of (ring_chunks r)))"

definition ring_ok :: "ring \<Rightarrow> bool" where
  "ring_ok r \<longleftrightarrow>
     list_all chunk_ok (ring_chunks r) \<and>
     list_all (\<lambda>c. ck_tail c = ck_cap c) (butlast (ring_chunks r)) \<and>
     (case ring_chunks r of [] \<Rightarrow> True | cc # _ \<Rightarrow> cHead r \<le> ck_tail cc \<and> cachedTail r \<le> ck_tail cc) \<and>
     (case freeChunk r of None \<Rightarrow> True | Some f \<Rightarrow> length (ck_slots f) = ck_cap f \<and> 0 < ck_cap f) \<and>
     totalPushed r = pushed r \<and> totalPopped r = popped r \<and>
     (ring_chunks r \<noteq> [] \<longrightarrow> pushed r = popped r + of_nat (length (ring_items r)))"

lemma length_items_of: "chunk_ok c \<Longrightarrow> length (items_of c) = ck_tail c"
  by (simp add: items_of_def chunk_ok_def)

lemma ring_items_Cons:
  "ring_chunks r = cc # rest \<Longrightarrow> chunk_ok cc \<Longrightarrow> cHead r \<le> ck_tail cc \<Longrightarrow>
   ring_items r = drop (cHead r) (items_of cc) @ concat (map items_of rest)"
  by (simp add: ring_items_def length_items_of)

lemma ring_items_cachedTail [simp]: "ring_items (r\<lparr>cachedTail := k\<rparr>) = ring_items r"
  by (simp add: ring_items_def)

text \<open>The consumer's loop changes nothing of the queue and decides emptiness.\<close>

lemma seek_spec:
  assumes "ring_ok r" "ring_chunks r \<noteq> []" "seek r = (r', b)"
  shows "ring_ok r' \<and> ring_chunks r' \<noteq> [] \<and> ring_items r' = ring_items r \<and> pushed r' = pushed r \<and>
         (if b then cHead r' < ck_tail (hd (ring_chunks r')) else ring_items r = [])"
  using assms
proof (induction r arbitrary: r' b rule: seek.induct)
  case (1 r)
  then obtain cc rest where ch: "ring_chunks r = cc # rest" by (cases "ring_chunks r") auto
  with "1.prems"(1) have ok: "chunk_ok cc" "cHead r \<le> ck_tail cc" "cachedTail r \<le> ck_tail cc"
    by (auto simp: ring_ok_def)
  have items: "ring_items r = drop (cHead r) (items_of cc) @ concat (map items_of rest)"
    by (rule ring_items_Cons [OF ch ok(1,2)])
  show ?case
  proof (cases "cHead r \<ge> ck_tail cc \<and> cHead r \<ge> ck_cap cc \<and> rest \<noteq> []")
    case True
    define r2 where "r2 = r\<lparr>cachedTail := ck_tail cc,
      freeChunk := (if ck_cap cc \<le> MaxRecycleSlots then Some cc
                    else freeChunk (r\<lparr>cachedTail := ck_tail cc\<rparr>)),
      ring_chunks := rest, cHead := 0, cachedTail := 0\<rparr>"
    note IH = "1.IH" [OF ch _ refl, folded r2_def]
    have step: "seek r = seek r2"
      using True ok ch by (subst seek.simps) (simp add: r2_def Let_def)
    have it2: "ring_items r2 = ring_items r"
      using True items ok by (simp add: r2_def ring_items_def length_items_of)
    have "ring_ok r2"
      using "1.prems"(1) ch True it2
      by (auto simp: ring_ok_def r2_def chunk_ok_def neq_Nil_conv)
    then have "ring_ok r' \<and> ring_chunks r' \<noteq> [] \<and> ring_items r' = ring_items r2 \<and> pushed r' = pushed r2 \<and>
         (if b then cHead r' < ck_tail (hd (ring_chunks r')) else ring_items r2 = [])"
      using IH [of r' b] "1.prems"(3) True ok step by (simp add: r2_def [THEN arg_cong [of _ _ ring_chunks]])
    moreover have "pushed r2 = pushed r" by (simp add: r2_def)
    ultimately show ?thesis unfolding it2 by simp
  next
    case False
    then have rest: "cHead r \<ge> ck_tail cc \<Longrightarrow> rest = []"
      using "1.prems"(1) ch ok by (cases rest) (auto simp: ring_ok_def chunk_ok_def)
    have "seek r = (if cHead r \<ge> cachedTail r then r\<lparr>cachedTail := ck_tail cc\<rparr> else r,
                    cHead r < ck_tail cc)"
      using False ch ok by (subst seek.simps) (auto simp: Let_def)
    moreover have "ring_items r = []" if "cHead r \<ge> ck_tail cc"
      using rest [OF that] that items ok by (simp add: length_items_of)
    ultimately show ?thesis
      using "1.prems" ch ok by (auto simp: ring_ok_def split: if_splits)
  qed
qed

lemma seek_closed [simp]: "ring_chunks r = [] \<Longrightarrow> seek r = (r, False)"
  by (simp add: seek.simps)

lemma seek_True:
  assumes "ring_ok r0" "seek r0 = (r, True)"
  obtains cc rest s xs where
    "ring_chunks r = cc # rest" "cHead r < ck_tail cc" "chunk_ok cc" "ring_ok r"
    "cur_slot r = Some s" "ring_items r0 = s # xs" "ring_items r = s # xs"
proof -
  have ne: "ring_chunks r0 \<noteq> []" using assms(2) by auto
  note sp = seek_spec [OF assms(1) ne assms(2)]
  then obtain cc rest where ch: "ring_chunks r = cc # rest" by (cases "ring_chunks r") auto
  with sp have ok: "chunk_ok cc" "cHead r < ck_tail cc" by (auto simp: ring_ok_def)
  then have lt: "cHead r < length (ck_slots cc)" by (simp add: chunk_ok_def)
  then have "drop (cHead r) (items_of cc) = ck_slots cc ! cHead r # drop (Suc (cHead r)) (items_of cc)"
    using ok by (simp add: items_of_def flip: Cons_nth_drop_Suc)
  then have "ring_items r = ck_slots cc ! cHead r # drop (Suc (cHead r)) (items_of cc) @ concat (map items_of rest)"
    using ring_items_Cons [OF ch ok(1)] ok(2) by simp
  moreover have "cur_slot r = Some (ck_slots cc ! cHead r)" using ch lt by (simp add: cur_slot_def)
  ultimately show thesis using that ch ok sp by auto
qed

lemma seek_False:
  assumes "ring_ok r0" "seek r0 = (r, False)"
  shows "ring_ok r" "ring_chunks r0 \<noteq> [] \<Longrightarrow> ring_items r0 = []" "ring_items r = ring_items r0"
    "ring_chunks r = [] \<longleftrightarrow> ring_chunks r0 = []"
proof -
  show "ring_ok r" "ring_chunks r0 \<noteq> [] \<Longrightarrow> ring_items r0 = []" "ring_items r = ring_items r0"
    "ring_chunks r = [] \<longleftrightarrow> ring_chunks r0 = []"
    using assms seek_spec [OF assms(1) _ assms(2)] by (cases "ring_chunks r0 = []"; simp)+
qed

text \<open>Overwriting and removing the consumer's slot.\<close>

lemma set_slot_fields [simp]:
  "cHead (set_slot s r) = cHead r" "cachedTail (set_slot s r) = cachedTail r"
  "popped (set_slot s r) = popped r" "pushed (set_slot s r) = pushed r"
  "totalPushed (set_slot s r) = totalPushed r" "freeChunk (set_slot s r) = freeChunk r"
  by (simp_all add: set_slot_def split: list.split)

lemma set_slot_spec:
  assumes "ring_chunks r = cc # rest" "cHead r < ck_tail cc" "ring_ok r" "ring_items r = s # xs"
  shows "ring_ok (set_slot s' r)" "ring_items (set_slot s' r) = s' # xs"
    "ring_chunks (set_slot s' r) \<noteq> []"
proof -
  have ok: "chunk_ok cc" using assms(1,3) by (simp add: ring_ok_def)
  let ?cc = "cc\<lparr>ck_slots := (ck_slots cc)[cHead r := s']\<rparr>"
  have ok': "chunk_ok ?cc" using ok by (simp add: chunk_ok_def)
  have lt: "cHead r < length (items_of cc)" using assms(2) ok by (simp add: length_items_of)
  have "items_of ?cc = (items_of cc)[cHead r := s']"
    by (simp add: items_of_def take_update_swap)
  then have "drop (cHead r) (items_of ?cc) = s' # drop (Suc (cHead r)) (items_of cc)"
    using lt by (simp add: drop_update_swap flip: Cons_nth_drop_Suc)
  moreover have "drop (cHead r) (items_of cc) = s # drop (Suc (cHead r)) (items_of cc) \<and>
      xs = drop (Suc (cHead r)) (items_of cc) @ concat (map items_of rest)"
    using assms(4) ring_items_Cons [OF assms(1) ok] assms(2) lt by (simp flip: Cons_nth_drop_Suc)
  ultimately show it: "ring_items (set_slot s' r) = s' # xs"
    using ring_items_Cons [of "set_slot s' r" ?cc rest] assms(1,2) ok'
    by (simp add: set_slot_def)
  show "ring_chunks (set_slot s' r) \<noteq> []" using assms(1) by (simp add: set_slot_def)
  show "ring_ok (set_slot s' r)"
    using assms it ok' by (cases rest) (auto simp: ring_ok_def set_slot_def)
qed

lemma popSlot_spec:
  assumes "ring_chunks r = cc # rest" "cHead r < ck_tail cc" "ring_ok r" "ring_items r = s # xs"
  shows "ring_ok (popSlot r)" "ring_items (popSlot r) = xs" "ring_chunks (popSlot r) \<noteq> []"
proof -
  note sp = set_slot_spec [OF assms, of zero_slot]
  have ch: "ring_chunks (popSlot r) = cc\<lparr>ck_slots := (ck_slots cc)[cHead r := zero_slot]\<rparr> # rest"
    using assms(1) by (simp add: popSlot_def set_slot_def Let_def)
  then show "ring_chunks (popSlot r) \<noteq> []" by simp
  have "ring_items (popSlot r) = drop 1 (ring_items (set_slot zero_slot r))"
    by (simp add: popSlot_def ring_items_def Let_def)
  then show it: "ring_items (popSlot r) = xs" using sp(2) by simp
  show "ring_ok (popSlot r)"
    using sp(1,2) it assms(1,2) ch
    by (cases rest) (auto simp: ring_ok_def popSlot_def set_slot_def Let_def)
qed

section \<open>The operations on the abstract queue\<close>

lemma Pop_spec:
  assumes "ring_ok r"
  shows "case ring_items r of
           [] \<Rightarrow> ring_chunks r \<noteq> [] \<longrightarrow>
                   (\<exists>r'. Pop r = Ret (None, r') \<and> ring_ok r' \<and> ring_items r' = [] \<and> ring_chunks r' \<noteq> [])
         | s # xs \<Rightarrow> ring_chunks r \<noteq> [] \<longrightarrow>
                   (\<exists>r'. Pop r = Ret (Some (sbuf s, shead s), r') \<and> ring_ok r' \<and> ring_items r' = xs \<and>
                         ring_chunks r' \<noteq> [])"
proof -
  obtain r1 b where s: "seek r = (r1, b)" by force
  show ?thesis
  proof (cases b)
    case True
    with s have "seek r = (r1, True)" by simp
    from seek_True [OF assms this] obtain cc rest sl xs where
      "ring_chunks r1 = cc # rest" "cHead r1 < ck_tail cc" "ring_ok r1"
      "cur_slot r1 = Some sl" "ring_items r = sl # xs" "ring_items r1 = sl # xs" by metis
    with popSlot_spec [of r1 cc rest sl xs] s True show ?thesis by (simp add: Pop_def)
  next
    case False
    with s seek_False [OF assms, of r1] show ?thesis by (auto simp: Pop_def split: list.splits)
  qed
qed

text \<open>The bytes a slot still holds.\<close>

definition slot_bytes :: "slot \<Rightarrow> bytes" where
  "slot_bytes s = (case sbuf s of None \<Rightarrow> [] | Some d \<Rightarrow> d)"

lemma slot_bytes_simps [simp]:
  "slot_bytes \<lparr>sbuf = None, shead = h\<rparr> = []" "slot_bytes \<lparr>sbuf = Some d, shead = h\<rparr> = d"
  "slot_bytes (s\<lparr>sbuf := Some d\<rparr>) = d"
  by (simp_all add: slot_bytes_def)

text \<open>What one \<^verbatim>\<open>PartialRead\<close> of \<open>k\<close> bytes does to the queue.\<close>

fun read_items :: "nat \<Rightarrow> slot list \<Rightarrow> bytes \<times> bref option \<times> slot list" where
  "read_items k [] = ([], None, [])"
| "read_items k (s # xs) =
     (let d = slot_bytes s in
      if length d \<le> k then (d, shead s, xs)
      else (take k d, None, s\<lparr>sbuf := Some (drop k d)\<rparr> # xs))"

lemma PartialRead_spec:
  assumes "ring_ok r" "ring_chunks r \<noteq> []"
  shows "\<exists>r'. PartialRead k r = Ret (fst (read_items k (ring_items r)),
                fst (snd (read_items k (ring_items r))), r') \<and>
           ring_ok r' \<and> ring_chunks r' \<noteq> [] \<and> ring_items r' = snd (snd (read_items k (ring_items r)))"
proof -
  obtain r1 b where s: "seek r = (r1, b)" by force
  show ?thesis
  proof (cases b)
    case True
    with s have "seek r = (r1, True)" by simp
    from seek_True [OF assms(1) this] obtain cc rest sl xs where
      sk: "ring_chunks r1 = cc # rest" "cHead r1 < ck_tail cc" "ring_ok r1"
      "cur_slot r1 = Some sl" "ring_items r = sl # xs" "ring_items r1 = sl # xs" by metis
    with popSlot_spec [of r1 cc rest sl xs] set_slot_spec [of r1 cc rest sl xs] s True show ?thesis
      by (auto simp: PartialRead_def slot_bytes_def Let_def min_def split: option.splits)
  next
    case False
    with s seek_False [OF assms(1), of r1] assms(2) show ?thesis by (auto simp: PartialRead_def)
  qed
qed

lemma Peek_spec:
  assumes "ring_ok r" "ring_chunks r \<noteq> []"
  shows "case ring_items r of
           [] \<Rightarrow> \<exists>r'. Peek r = Ret (None, r') \<and> ring_ok r' \<and> ring_items r' = [] \<and> ring_chunks r' \<noteq> []
         | s # xs \<Rightarrow>
             if slot_bytes s = []
             then \<exists>r'. Peek r = Ret (Some (None, shead s), r') \<and> ring_ok r' \<and> ring_items r' = xs \<and>
                        ring_chunks r' \<noteq> []
             else \<exists>r'. Peek r = Ret (Some (Some (slot_bytes s), None), r') \<and> ring_ok r' \<and>
                        ring_items r' = s # xs \<and> ring_chunks r' \<noteq> []"
proof -
  obtain r1 b where s: "seek r = (r1, b)" by force
  show ?thesis
  proof (cases b)
    case True
    with s have "seek r = (r1, True)" by simp
    from seek_True [OF assms(1) this] obtain cc rest sl xs where
      "ring_chunks r1 = cc # rest" "cHead r1 < ck_tail cc" "ring_ok r1"
      "cur_slot r1 = Some sl" "ring_items r = sl # xs" "ring_items r1 = sl # xs" by metis
    with popSlot_spec [of r1 cc rest sl xs] s True show ?thesis
      by (auto simp: Peek_def slot_bytes_def split: option.splits)
  next
    case False
    with s seek_False [OF assms(1), of r1] assms(2) show ?thesis
      by (auto simp: Peek_def split: list.splits)
  qed
qed

lemma Advance_spec:
  assumes "ring_ok r" "ring_chunks r \<noteq> []" "ring_items r = s # xs" "n \<le> length (slot_bytes s)"
  shows "\<exists>r'. Advance n r = Ret (if n = length (slot_bytes s) then shead s else None, r') \<and>
           ring_ok r' \<and> ring_chunks r' \<noteq> [] \<and>
           ring_items r' = (if n = length (slot_bytes s) then xs
                            else s\<lparr>sbuf := Some (drop n (slot_bytes s))\<rparr> # xs)"
proof -
  obtain r1 b where s: "seek r = (r1, b)" by force
  have True: "b" using s assms seek_False(2) [OF assms(1), of r1] by (cases b) auto
  with s have "seek r = (r1, True)" by simp
  from seek_True [OF assms(1) this] obtain cc rest sl ys where
    "ring_chunks r1 = cc # rest" "cHead r1 < ck_tail cc" "ring_ok r1"
    "cur_slot r1 = Some sl" "ring_items r = sl # ys" "ring_items r1 = sl # ys" by metis
  with popSlot_spec [of r1 cc rest sl ys] set_slot_spec [of r1 cc rest sl ys] s True assms(3,4)
  show ?thesis by (auto simp: Advance_def slot_bytes_def Let_def split: option.splits)
qed

subsection \<open>The producer\<close>

lemma pow2_from_pos: "0 < c \<Longrightarrow> 0 < pow2_from c n"
  by (induction c n rule: pow2_from.induct) (subst pow2_from.simps, auto)

lemma newChunk_ok: "chunk_ok (newChunk n)" "ck_tail (newChunk n) = 0"
  by (auto simp: newChunk_def chunk_ok_def MinChunkCap_def Let_def pow2_from_pos)

lemma next_chunk_ok:
  assumes "ring_ok r"
  shows "chunk_ok (next_chunk r pc) \<and> ck_tail (next_chunk r pc) = 0"
proof (cases "freeChunk r")
  case (Some f)
  with assms have "length (ck_slots f) = ck_cap f" "0 < ck_cap f" by (auto simp: ring_ok_def)
  with Some newChunk_ok [of MinChunkCap] show ?thesis
    by (simp add: next_chunk_def chunk_ok_def Let_def)
qed (simp add: next_chunk_def newChunk_ok Let_def)

lemma items_of_empty [simp]: "ck_tail c = 0 \<Longrightarrow> items_of c = []"
  by (simp add: items_of_def)

lemma grow_spec:
  assumes "ring_ok r" "ring_chunks r \<noteq> []"
  shows "ring_ok (grow r)" "ring_chunks (grow r) \<noteq> []" "ring_items (grow r) = ring_items r"
    "pushed (grow r) = pushed r" "ck_tail (last (ring_chunks (grow r))) < ck_cap (last (ring_chunks (grow r)))"
proof -
  let ?pc = "last (ring_chunks r)"
  have pc: "chunk_ok ?pc" using assms by (simp add: ring_ok_def list_all_iff)
  note nx = next_chunk_ok [OF assms(1), of ?pc]
  show it: "ring_items (grow r) = ring_items r"
    using nx by (simp add: grow_def ring_items_def Let_def)
  show "ring_chunks (grow r) \<noteq> []" "pushed (grow r) = pushed r"
    using assms by (simp_all add: grow_def Let_def)
  show "ck_tail (last (ring_chunks (grow r))) < ck_cap (last (ring_chunks (grow r)))"
    using nx by (auto simp: grow_def Let_def chunk_ok_def)
  show "ring_ok (grow r)"
  proof (cases "ck_tail ?pc \<ge> ck_cap ?pc")
    case True
    with pc have full: "ck_tail ?pc = ck_cap ?pc" by (simp add: chunk_ok_def)
    have "list_all (\<lambda>c. ck_tail c = ck_cap c) (butlast (ring_chunks r) @ [?pc])"
      using assms(1) full by (simp add: ring_ok_def)
    then have "list_all (\<lambda>c. ck_tail c = ck_cap c) (ring_chunks r)" using assms(2) by simp
    then show ?thesis
      using assms True nx it
      by (auto simp: ring_ok_def grow_def Let_def split: list.splits)
  qed (use assms in \<open>simp add: grow_def Let_def\<close>)
qed

lemma items_of_push:
  assumes "chunk_ok c" "ck_tail c < ck_cap c"
  shows "items_of (c\<lparr>ck_slots := (ck_slots c)[ck_tail c := s], ck_tail := ck_tail c + 1\<rparr>) = items_of c @ [s]"
  using assms by (simp add: items_of_def chunk_ok_def take_Suc_conv_app_nth)

lemma ring_items_snoc:
  "ring_ok r \<Longrightarrow> ring_chunks r \<noteq> [] \<Longrightarrow>
   cHead r \<le> length (concat (map items_of (ring_chunks r)))"
  by (cases "ring_chunks r") (auto simp: ring_ok_def length_items_of trans_le_add1)

lemma Push_spec:
  assumes "ring_ok r0" "ring_chunks r0 \<noteq> []"
  shows "\<exists>r'. Push b h r0 = Ret (r', None) \<and> ring_ok r' \<and> ring_chunks r' \<noteq> [] \<and>
           ring_items r' = ring_items r0 @ [\<lparr>sbuf = b, shead = h\<rparr>]"
proof -
  let ?s = "\<lparr>sbuf = b, shead = h\<rparr>"
  define r where "r = grow r0"
  note g = grow_spec [OF assms, folded r_def]
  obtain cs pc where ch: "ring_chunks r = cs @ [pc]" using g(2) by (cases "ring_chunks r" rule: rev_cases) auto
  with g have pc: "chunk_ok pc" "ck_tail pc < ck_cap pc" by (auto simp: ring_ok_def)
  let ?pc = "pc\<lparr>ck_slots := (ck_slots pc)[ck_tail pc := ?s], ck_tail := ck_tail pc + 1\<rparr>"
  define r' where "r' = r\<lparr>ring_chunks := cs @ [?pc], pushed := pushed r + 1, totalPushed := pushed r + 1\<rparr>"
  have push: "Push b h r0 = Ret (r', None)"
    using assms pc ch by (simp add: Push_def Let_def r'_def chunk_ok_def flip: r_def)
  have it: "ring_items r' = ring_items r @ [?s]"
    using ring_items_snoc [OF g(1,2)] ch items_of_push [OF pc, of ?s]
    by (simp add: r'_def ring_items_def)
  have "chunk_ok ?pc" using pc by (simp add: chunk_ok_def)
  then have "ring_ok r'"
    using g(1) ch it by (cases cs) (auto simp: ring_ok_def r'_def)
  with push it g(3) show ?thesis by (simp add: r'_def)
qed

lemma Push_closed: "ring_chunks r = [] \<Longrightarrow> Push b h r = Ret (r, h)"
  by (simp add: Push_def)

lemma NewBufferRing_ok:
  "ring_ok (NewBufferRing n)" "ring_items (NewBufferRing n) = []" "ring_chunks (NewBufferRing n) \<noteq> []"
  using newChunk_ok [of n] by (simp_all add: NewBufferRing_def ring_ok_def ring_items_def)

lemma ring_Length_items:
  assumes "ring_ok r" "ring_chunks r \<noteq> []" "unat (popped r) + length (ring_items r) < 2 ^ 64"
  shows "ring_Length r = length (ring_items r)"
proof -
  have eq: "pushed r = popped r + of_nat (length (ring_items r))"
    and tot: "totalPushed r = pushed r" "totalPopped r = popped r"
    using assms(1,2) by (auto simp: ring_ok_def)
  have len: "unat (of_nat (length (ring_items r)) :: u64) = length (ring_items r)"
    using assms(3) by (simp add: unat_of_nat)
  then have "popped r \<le> pushed r"
    using assms(3) by (simp add: eq word_le_nat_alt unat_word_ariths)
  then show ?thesis using eq len by (simp add: ring_Length_def tot)
qed

lemma ring_Close_spec:
  "ring_chunks (fst (ring_Close r)) = []" "ring_ok r \<Longrightarrow> ring_ok (fst (ring_Close r))"
  by (simp_all add: ring_Close_def ring_ok_def)

section \<open>The interface\<close>

text \<open>A client of the ring sees a FIFO queue of buffers that can be read piecewise.  \<open>run_ops\<close> is
  any sequence of pushes and reads: it collects the bytes read and the buffers handed back;
  \<open>drain\<close> is the loop that pops until the ring is empty.\<close>

datatype ring_op = OpPush bytes bref | OpRead nat

fun run_ops ::
  "(bytes option \<Rightarrow> bref option \<Rightarrow> 'q \<Rightarrow> ('q \<times> bref option) outcome) \<Rightarrow>
   (nat \<Rightarrow> 'q \<Rightarrow> (bytes \<times> bref option \<times> 'q) outcome) \<Rightarrow>
   ring_op list \<Rightarrow> 'q \<Rightarrow> (bytes \<times> bref list \<times> 'q) outcome" where
  "run_ops push rd [] q = Ret ([], [], q)"
| "run_ops push rd (OpPush d h # ops) q =
     (case push (Some d) (Some h) q of
        Panic \<Rightarrow> Panic
      | Ret (q', bk) \<Rightarrow>
          (case run_ops push rd ops q' of
             Panic \<Rightarrow> Panic
           | Ret (out, fr, q'') \<Rightarrow> Ret (out, (case bk of None \<Rightarrow> fr | Some x \<Rightarrow> x # fr), q'')))"
| "run_ops push rd (OpRead k # ops) q =
     (case rd k q of
        Panic \<Rightarrow> Panic
      | Ret (d, bk, q') \<Rightarrow>
          (case run_ops push rd ops q' of
             Panic \<Rightarrow> Panic
           | Ret (out, fr, q'') \<Rightarrow> Ret (d @ out, (case bk of None \<Rightarrow> fr | Some x \<Rightarrow> x # fr), q'')))"

fun drain ::
  "('q \<Rightarrow> ((bytes option \<times> bref option) option \<times> 'q) outcome) \<Rightarrow> nat \<Rightarrow> 'q \<Rightarrow>
   ((bytes option \<times> bref option) list \<times> 'q) option" where
  "drain pop 0 q = None"
| "drain pop (Suc fuel) q =
     (case pop q of
        Panic \<Rightarrow> None
      | Ret (None, q') \<Rightarrow> Some ([], q')
      | Ret (Some x, q') \<Rightarrow> map_option (\<lambda>(xs, q''). (x # xs, q'')) (drain pop fuel q'))"

definition bytes_of :: "slot list \<Rightarrow> bytes" where
  "bytes_of xs = concat (map slot_bytes xs)"

definition heads_of :: "slot list \<Rightarrow> bref list" where
  "heads_of xs = List.map_filter shead xs"

fun pushed_bytes :: "ring_op list \<Rightarrow> bytes" where
  "pushed_bytes [] = []"
| "pushed_bytes (OpPush d h # ops) = d @ pushed_bytes ops"
| "pushed_bytes (OpRead k # ops) = pushed_bytes ops"

fun pushed_heads :: "ring_op list \<Rightarrow> bref list" where
  "pushed_heads [] = []"
| "pushed_heads (OpPush d h # ops) = h # pushed_heads ops"
| "pushed_heads (OpRead k # ops) = pushed_heads ops"

lemma bytes_of_simps [simp]:
  "bytes_of [] = []" "bytes_of (s # xs) = slot_bytes s @ bytes_of xs"
  "bytes_of (xs @ ys) = bytes_of xs @ bytes_of ys"
  by (simp_all add: bytes_of_def)

lemma heads_of_simps [simp]:
  "heads_of [] = []" "heads_of (s # xs) = (case shead s of None \<Rightarrow> heads_of xs | Some h \<Rightarrow> h # heads_of xs)"
  "heads_of (xs @ ys) = heads_of xs @ heads_of ys"
  by (simp_all add: heads_of_def map_filter_simps map_filter_def split: option.split)

text \<open>One read moves bytes and drained buffers from the queue to the reader, in order.\<close>

lemma read_items_conserves:
  "read_items k xs = (d, bk, ys) \<Longrightarrow>
   d @ bytes_of ys = bytes_of xs \<and> (case bk of None \<Rightarrow> [] | Some h \<Rightarrow> [h]) @ heads_of ys = heads_of xs"
  by (cases xs) (auto simp: Let_def split: if_splits option.splits)

locale fifo_ring =
  fixes push :: "bytes option \<Rightarrow> bref option \<Rightarrow> 'q \<Rightarrow> ('q \<times> bref option) outcome"
    and pop :: "'q \<Rightarrow> ((bytes option \<times> bref option) option \<times> 'q) outcome"
    and rd :: "nat \<Rightarrow> 'q \<Rightarrow> (bytes \<times> bref option \<times> 'q) outcome"
    and items :: "'q \<Rightarrow> slot list"
    and live :: "'q \<Rightarrow> bool"
  assumes push_law: "live q \<Longrightarrow>
      \<exists>q'. push b h q = Ret (q', None) \<and> live q' \<and> items q' = items q @ [\<lparr>sbuf = b, shead = h\<rparr>]"
    and pop_empty: "live q \<Longrightarrow> items q = [] \<Longrightarrow> \<exists>q'. pop q = Ret (None, q') \<and> live q' \<and> items q' = []"
    and pop_item: "live q \<Longrightarrow> items q = s # xs \<Longrightarrow>
      \<exists>q'. pop q = Ret (Some (sbuf s, shead s), q') \<and> live q' \<and> items q' = xs"
    and rd_law: "live q \<Longrightarrow> \<exists>q'. rd k q = Ret (fst (read_items k (items q)),
        fst (snd (read_items k (items q))), q') \<and> live q' \<and> items q' = snd (snd (read_items k (items q)))"
begin

lemma run_ops_stream:
  "live q \<Longrightarrow> \<exists>out fr q'. run_ops push rd ops q = Ret (out, fr, q') \<and> live q' \<and>
     out @ bytes_of (items q') = bytes_of (items q) @ pushed_bytes ops \<and>
     fr @ heads_of (items q') = heads_of (items q) @ pushed_heads ops"
proof (induction ops arbitrary: q)
  case (Cons op ops)
  show ?case
  proof (cases op)
    case (OpPush d h)
    obtain q1 where "push (Some d) (Some h) q = Ret (q1, None)" "live q1"
      "items q1 = items q @ [\<lparr>sbuf = Some d, shead = Some h\<rparr>]"
      using push_law [OF Cons.prems, of "Some d" "Some h"] by blast
    with Cons.IH [of q1] OpPush show ?thesis by auto
  next
    case (OpRead k)
    obtain d bk ys where rk: "read_items k (items q) = (d, bk, ys)" by (metis prod_cases3)
    then obtain q1 where q1: "rd k q = Ret (d, bk, q1)" "live q1" "items q1 = ys"
      using rd_law [OF Cons.prems, of k] by auto
    note c = read_items_conserves [OF rk]
    from Cons.IH [OF q1(2)] obtain out fr q' where
      R: "run_ops push rd ops q1 = Ret (out, fr, q')" "live q'"
      "out @ bytes_of (items q') = bytes_of ys @ pushed_bytes ops"
      "fr @ heads_of (items q') = heads_of ys @ pushed_heads ops" using q1(3) by auto
    have "(d @ out) @ bytes_of (items q') = bytes_of (items q) @ pushed_bytes ops"
      using R(3) c by (metis append_assoc)
    moreover have "(case bk of None \<Rightarrow> fr | Some x \<Rightarrow> x # fr) @ heads_of (items q') =
        heads_of (items q) @ pushed_heads ops"
      using R(4) c [THEN conjunct2, symmetric] by (cases bk) simp_all
    ultimately show ?thesis using OpRead q1 R(1,2) by simp
  qed
qed simp

lemma drain_all:
  "live q \<Longrightarrow> length (items q) < fuel \<Longrightarrow>
   \<exists>q'. drain pop fuel q = Some (map (\<lambda>s. (sbuf s, shead s)) (items q), q') \<and> live q' \<and> items q' = []"
proof (induction fuel arbitrary: q)
  case (Suc fuel)
  show ?case
  proof (cases "items q")
    case Nil
    with pop_empty [OF Suc.prems(1)] show ?thesis by auto
  next
    case (Cons s xs)
    with pop_item [OF Suc.prems(1)] obtain q1
      where "pop q = Ret (Some (sbuf s, shead s), q1)" "live q1" "items q1 = xs" by blast
    with Suc.IH [of q1] Suc.prems(2) Cons show ?thesis by auto
  qed
qed simp

end

definition ring_live :: "ring \<Rightarrow> bool" where
  "ring_live r \<longleftrightarrow> ring_ok r \<and> ring_chunks r \<noteq> []"

interpretation rb: fifo_ring Push Pop PartialRead ring_items ring_live
proof unfold_locales
  fix q b h k s xs
  assume q: "ring_live q"
  show "\<exists>q'. Push b h q = Ret (q', None) \<and> ring_live q' \<and> ring_items q' = ring_items q @ [\<lparr>sbuf = b, shead = h\<rparr>]"
    using Push_spec [of q b h] q by (auto simp: ring_live_def)
  show "\<exists>q'. PartialRead k q = Ret (fst (read_items k (ring_items q)),
      fst (snd (read_items k (ring_items q))), q') \<and> ring_live q' \<and>
      ring_items q' = snd (snd (read_items k (ring_items q)))"
    using PartialRead_spec [of q k] q by (auto simp: ring_live_def)
  show "ring_items q = [] \<Longrightarrow> \<exists>q'. Pop q = Ret (None, q') \<and> ring_live q' \<and> ring_items q' = []"
    using Pop_spec [of q] q by (auto simp: ring_live_def)
  show "ring_items q = s # xs \<Longrightarrow>
      \<exists>q'. Pop q = Ret (Some (sbuf s, shead s), q') \<and> ring_live q' \<and> ring_items q' = xs"
    using Pop_spec [of q] q by (auto simp: ring_live_def)
qed

lemma NewBufferRing_live [simp]: "ring_live (NewBufferRing n)"
  by (simp add: ring_live_def NewBufferRing_ok)

section \<open>Reading from a queue\<close>

text \<open>No slot is empty.\<close>

definition full_slots :: "slot list \<Rightarrow> bool" where
  "full_slots xs \<longleftrightarrow> list_all (\<lambda>s. slot_bytes s \<noteq> []) xs"

lemma full_slots_simps [simp]:
  "full_slots []" "full_slots (s # xs) \<longleftrightarrow> slot_bytes s \<noteq> [] \<and> full_slots xs"
  "full_slots (xs @ ys) \<longleftrightarrow> full_slots xs \<and> full_slots ys"
  by (simp_all add: full_slots_def)

lemma read_items_full:
  assumes "full_slots xs"
  shows "full_slots (snd (snd (read_items k xs)))"
    "0 < k \<Longrightarrow> fst (read_items k xs) = [] \<longleftrightarrow> xs = []" "length (fst (read_items k xs)) \<le> k"
  using assms by (cases xs; force simp: Let_def slot_bytes_def)+

text \<open>Taking bytes off the front until \<open>k\<close> are there or the queue is empty; \<open>rest\<close> is what a reader has
  besides its queue.\<close>

definition ring_taken :: "('s \<Rightarrow> ring) \<Rightarrow> ('s \<Rightarrow> 'f) \<Rightarrow> nat \<Rightarrow> 's \<Rightarrow> bytes \<Rightarrow> 's \<Rightarrow> bool" where
  "ring_taken queue rest k s d s1 \<longleftrightarrow>
     ring_live (queue s1) \<and> full_slots (ring_items (queue s1)) \<and>
     d @ bytes_of (ring_items (queue s1)) = bytes_of (ring_items (queue s)) \<and>
     rest s1 = rest s \<and> (d = [] \<longrightarrow> k = 0 \<or> ring_items (queue s) = []) \<and> length d \<le> k \<and>
     (length d < k \<longrightarrow> ring_items (queue s1) = [])"

text \<open>The loop that both kinds of connection have around \<^verbatim>\<open>PartialRead\<close>: a reader whose single reads take
  what \<open>read_items\<close> takes, and whose loop repeats them until the buffer is full or nothing comes.\<close>

locale ring_reader =
  fixes partial :: "nat \<Rightarrow> 's \<Rightarrow> bytes \<times> 's" and fill :: "nat \<Rightarrow> 's \<Rightarrow> bytes \<times> 's"
    and queue :: "'s \<Rightarrow> ring" and rest :: "'s \<Rightarrow> 'f"
  assumes fill_loop: "fill k s =
      (if k = 0 then ([], s)
       else case partial k s of (d, s1) \<Rightarrow>
         if d = [] then ([], s1) else (case fill (k - length d) s1 of (e, s2) \<Rightarrow> (d @ e, s2)))"
    and partial_law: "ring_live (queue s) \<Longrightarrow> partial k s = (d, s1) \<Longrightarrow>
      d = fst (read_items k (ring_items (queue s))) \<and> ring_live (queue s1) \<and>
      ring_items (queue s1) = snd (snd (read_items k (ring_items (queue s)))) \<and> rest s1 = rest s"
begin

lemma partial_taken:
  assumes "ring_live (queue s)" "full_slots (ring_items (queue s))" "partial k s = (d, s1)"
  shows "ring_live (queue s1)" "full_slots (ring_items (queue s1))"
    "d @ bytes_of (ring_items (queue s1)) = bytes_of (ring_items (queue s))"
    "rest s1 = rest s" "0 < k \<Longrightarrow> d = [] \<longleftrightarrow> ring_items (queue s) = []" "length d \<le> k"
    "d = [] \<Longrightarrow> 0 < k \<Longrightarrow> ring_items (queue s1) = []"
proof -
  note p = partial_law [OF assms(1,3)] and full = read_items_full [OF assms(2), of k]
  show "ring_live (queue s1)" "full_slots (ring_items (queue s1))" "rest s1 = rest s" using p full(1) by simp_all
  show "d @ bytes_of (ring_items (queue s1)) = bytes_of (ring_items (queue s))"
    using read_items_conserves [of k "ring_items (queue s)"] p by (simp add: prod_eq_iff)
  show "0 < k \<Longrightarrow> d = [] \<longleftrightarrow> ring_items (queue s) = []" "length d \<le> k" using p full(2,3) by simp_all
  then show "d = [] \<Longrightarrow> 0 < k \<Longrightarrow> ring_items (queue s1) = []" using p by simp
qed

lemma fill_taken:
  "ring_live (queue s) \<Longrightarrow> full_slots (ring_items (queue s)) \<Longrightarrow> fill k s = (d, s1) \<Longrightarrow>
   ring_taken queue rest k s d s1"
proof (induction k arbitrary: s d s1 rule: less_induct)
  case (less k)
  obtain x t where par: "partial k s = (x, t)" by force
  note t = partial_taken [OF less.prems(1,2) par]
  consider "k = 0" | "0 < k" "x = []" | "0 < k" "x \<noteq> []" by blast
  then show ?case
  proof cases
    case 1
    then show ?thesis using less.prems by (simp add: fill_loop ring_taken_def)
  next
    case 2
    then have "d = []" "s1 = t" using less.prems(3) par by (simp_all add: fill_loop [of k])
    with 2 t show ?thesis by (auto simp: ring_taken_def)
  next
    case 3
    obtain e u where rec: "fill (k - length x) t = (e, u)" by force
    then have d: "d = x @ e" "s1 = u" using 3 less.prems(3) par by (simp_all add: fill_loop [of k])
    have "ring_taken queue rest (k - length x) t e u" using 3 by (intro less.IH [OF _ t(1,2) rec]) simp
    with t d 3 show ?thesis by (auto simp: ring_taken_def)
  qed
qed

end

section \<open>Properties\<close>

text \<open>C23: a ring of any initial capacity, under any sequence of pushes and partial reads, never panics;
  the bytes read followed by the bytes still queued are the bytes pushed, and every pushed buffer is
  handed back for recycling exactly once, in order, when its last byte has been read.\<close>

theorem ring_stream:
  "\<exists>out fr r'. run_ops Push PartialRead ops (NewBufferRing n) = Ret (out, fr, r') \<and> ring_ok r' \<and>
     out @ bytes_of (ring_items r') = pushed_bytes ops \<and>
     fr @ heads_of (ring_items r') = pushed_heads ops"
  using rb.run_ops_stream [OF NewBufferRing_live, of ops n] NewBufferRing_ok(2) [of n]
  by (auto simp: ring_live_def)

text \<open>C33: \<^verbatim>\<open>Length\<close> counts the queued buffers (while fewer than \<open>2 ^ 64\<close> have been pushed), and the loop
  of \<^verbatim>\<open>drainRing\<close> ends with the ring empty after handing out every queued buffer once, in order.\<close>

theorem ring_drain:
  assumes "ring_ok r" "ring_chunks r \<noteq> []" "unat (popped r) + length (ring_items r) < 2 ^ 64"
  shows "\<exists>r'. drain Pop (Suc (ring_Length r)) r =
           Some (map (\<lambda>s. (sbuf s, shead s)) (ring_items r), r') \<and> ring_ok r' \<and> ring_items r' = []"
  using rb.drain_all [of r "Suc (ring_Length r)"] assms ring_Length_items [OF assms]
  by (auto simp: ring_live_def)

theorem ring_drain_witness:
  "\<exists>r r'. Push (Some [7, 8]) (Some 0) (NewBufferRing 8) = Ret (r, None) \<and>
     drain Pop (Suc (ring_Length r)) r = Some ([(Some [7, 8], Some 0)], r')"
proof -
  obtain r where r: "Push (Some [7, 8]) (Some 0) (NewBufferRing 8) = Ret (r, None)" "ring_ok r"
    "ring_chunks r \<noteq> []" "ring_items r = [\<lparr>sbuf = Some [7, 8], shead = Some 0\<rparr>]"
    using Push_spec [of "NewBufferRing 8" "Some [7, 8]" "Some 0"] NewBufferRing_ok [of 8] by auto
  moreover have "popped r = 0"
    using r(1) by (auto simp: Push_def NewBufferRing_def grow_def Let_def split: if_splits)
  ultimately show ?thesis using ring_drain [of r] by auto
qed

end
