(* ===== verification/Frames.thy ===== *)
theory Frames
  imports Allocator
begin

text \<open>
  The wire format: the 17-byte frame header (\<^verbatim>\<open>putHeader\<close> of \<^verbatim>\<open>src/write_scheduler.go\<close>, the header
  reads of \<^verbatim>\<open>streamReadLoop\<close> and \<^verbatim>\<open>datagramReadLoop\<close> of \<^verbatim>\<open>src/session.go\<close>), the framing of a byte
  stream, and the packing of frames into datagrams (\<^verbatim>\<open>flushDatagrams\<close>).  The lemmas are the
  round trips between writer and reader on both kinds of transport.
\<close>

section \<open>Frames and headers\<close>

definition FLG_DATA :: u8 where "FLG_DATA = 1"
definition FLG_NOOP :: u8 where "FLG_NOOP = 2"
definition FLG_FIN :: u8 where "FLG_FIN = 3"
definition FLG_PING :: u8 where "FLG_PING = 4"
definition FLG_PONG :: u8 where "FLG_PONG = 5"
definition FLG_UPD :: u8 where "FLG_UPD = 6"
definition FLG_ACK :: u8 where "FLG_ACK = 7"
definition FLG_GOAWAY :: u8 where "FLG_GOAWAY = 8"
definition FLG_RST :: u8 where "FLG_RST = 9"

lemmas flag_defs = FLG_DATA_def FLG_NOOP_def FLG_FIN_def FLG_PING_def FLG_PONG_def FLG_UPD_def
  FLG_ACK_def FLG_GOAWAY_def FLG_RST_def

text \<open>A frame queued for the writer.  The pointers to the unacknowledged-frame object and to the
  channels behind a pending ACK or window update are addresses; a session has one
  \<^verbatim>\<open>SessionFlow\<close>, so that pointer is a flag.\<close>

record write_frame =
  wf_pBuf :: "pbuf option"
  wf_length :: u32
  wf_chID :: u32
  wf_flag :: u8
  wf_offset :: u64
  wf_ack :: "uref option"
  wf_ackCh :: "cref option"
  wf_streamFlow :: "cref option"
  wf_sessionFlow :: bool

definition zero_frame :: write_frame where
  "zero_frame = \<lparr>wf_pBuf = None, wf_length = 0, wf_chID = 0, wf_flag = 0, wf_offset = 0,
     wf_ack = None, wf_ackCh = None, wf_streamFlow = None, wf_sessionFlow = False\<rparr>"

record header =
  hd_length :: u32
  hd_flag :: u8
  hd_chID :: u32
  hd_offset :: u64

definition header_of :: "write_frame \<Rightarrow> header" where
  "header_of f = \<lparr>hd_length = wf_length f, hd_flag = wf_flag f, hd_chID = wf_chID f,
     hd_offset = wf_offset f\<rparr>"

definition put_header :: "header \<Rightarrow> bytes" where
  "put_header h = be_put32 (hd_length h) @ [hd_flag h] @ be_put32 (hd_chID h) @ be_put64 (hd_offset h)"

definition putHeader :: "write_frame \<Rightarrow> bytes" where
  "putHeader f = put_header (header_of f)"

definition read_header :: "bytes \<Rightarrow> header" where
  "read_header b = \<lparr>hd_length = be_get32 (slice 0 4 b), hd_flag = b ! 4,
     hd_chID = be_get32 (slice 5 9 b), hd_offset = be_get64 (slice 9 17 b)\<rparr>"

text \<open>\<^verbatim>\<open>( *f.pBuf)[:f.length]\<close> when \<^verbatim>\<open>f.length > 0 && f.pBuf != nil\<close>.  The slice is in range, because a frame
  that has a buffer is queued with a length of at most that of the buffer; beyond it the code would
  panic, and \<open>take\<close> stops.\<close>

definition payload :: "write_frame \<Rightarrow> bytes" where
  "payload f =
     (case wf_pBuf f of
        None \<Rightarrow> []
      | Some p \<Rightarrow> if wf_length f > 0 then take (unat (wf_length f)) (snd p) else [])"

definition frame_bytes :: "write_frame \<Rightarrow> bytes" where
  "frame_bytes f = putHeader f @ payload f"

lemma length_put_header [simp]: "length (put_header h) = 17"
  by (simp add: put_header_def)

lemma read_put_header: "read_header (put_header h) = h"
proof -
  have "slice 0 4 (put_header h) = be_put32 (hd_length h)"
    "slice 5 9 (put_header h) = be_put32 (hd_chID h)"
    "slice 9 17 (put_header h) = be_put64 (hd_offset h)"
    "put_header h ! 4 = hd_flag h"
    by (simp_all add: put_header_def slice_def nth_append)
  then show ?thesis by (simp add: read_header_def)
qed

interpretation hdr: field_codec put_header read_header 17
  by unfold_locales (simp_all add: read_put_header)

section \<open>Reading frames from a stream\<close>

text \<open>What \<^verbatim>\<open>streamReadLoop\<close> makes of the bytes at the front of the stream: too few for
  \<^verbatim>\<open>io.ReadFull\<close>, a framing violation (both drop the connection), or a frame with its payload.\<close>

datatype stream_ev = NeedMore | Violation header | GotFrame header bytes

definition known_flag :: "u8 \<Rightarrow> bool" where
  "known_flag g \<longleftrightarrow> g = FLG_DATA \<or> g = FLG_NOOP \<or> g = FLG_FIN \<or> g = FLG_PING \<or> g = FLG_PONG \<or>
     g = FLG_UPD \<or> g = FLG_ACK \<or> g = FLG_GOAWAY \<or> g = FLG_RST"

definition next_frame :: "u32 \<Rightarrow> bytes \<Rightarrow> stream_ev \<times> bytes" where
  "next_frame maxData b =
     (if length b < 17 then (NeedMore, b)
      else
        let h = read_header (take 17 b); rest = drop 17 b; n = hd_length h in
        if hd_flag h = FLG_DATA then
          if n = 0 then (GotFrame h [], rest)
          else if n > maxData \<or> unat n > MaxAllocSize then (Violation h, rest)
          else if length rest < unat n then (NeedMore, rest)
          else (GotFrame h (take (unat n) rest), drop (unat n) rest)
        else if hd_flag h = FLG_RST \<and> n \<noteq> 0 then (Violation h, rest)
        else if known_flag (hd_flag h) then (GotFrame h [], rest)
        else (Violation h, rest))"

lemma next_frame_shrinks: "next_frame m b = (GotFrame h p, rest) \<Longrightarrow> length rest < length b"
  by (auto simp: next_frame_def Let_def split: if_splits)

text \<open>The frames at the front of a stream, what stopped the loop, and the unread bytes.  This is the framing
  alone, which does not look at what a frame means; the loop that acts on the frames, and leaves at a
  GOAWAY, is \<open>stream_run\<close> of Reader.\<close>

function stream_frames :: "u32 \<Rightarrow> bytes \<Rightarrow> (header \<times> bytes) list \<times> stream_ev \<times> bytes" where
  "stream_frames m b =
     (case next_frame m b of
        (GotFrame h p, rest) \<Rightarrow>
          (case stream_frames m rest of (fs, e, left) \<Rightarrow> ((h, p) # fs, e, left))
      | (e, rest) \<Rightarrow> ([], e, rest))"
  by pat_completeness auto
termination
  by (relation "measure (length \<circ> snd)") (auto dest: next_frame_shrinks [OF sym])

declare stream_frames.simps [simp del]

text \<open>Frames the writer puts on a stream: DATA carries exactly \<open>length\<close> bytes within the limits,
  every other flag carries none.\<close>

definition wf_frame :: "u32 \<Rightarrow> write_frame \<Rightarrow> bool" where
  "wf_frame m f \<longleftrightarrow>
     (if wf_flag f = FLG_DATA
      then 0 < wf_length f \<and> wf_length f \<le> m \<and> unat (wf_length f) \<le> MaxAllocSize \<and>
           length (payload f) = unat (wf_length f)
      else known_flag (wf_flag f) \<and> payload f = [] \<and> (wf_flag f = FLG_RST \<longrightarrow> wf_length f = 0))"

lemma next_frame_frame_bytes:
  assumes "wf_frame m f"
  shows "next_frame m (frame_bytes f @ rest) = (GotFrame (header_of f) (payload f), rest)"
proof -
  have h: "read_header (take 17 (frame_bytes f @ rest)) = header_of f"
    by (simp add: frame_bytes_def putHeader_def read_put_header)
  have d: "drop 17 (frame_bytes f @ rest) = payload f @ rest"
    by (simp add: frame_bytes_def putHeader_def)
  have l: "\<not> length (frame_bytes f @ rest) < 17"
    by (simp add: frame_bytes_def putHeader_def)
  from assms show ?thesis
    unfolding next_frame_def h d Let_def using l
    by (auto simp: wf_frame_def header_of_def not_less split: if_splits)
qed

lemma stream_frames_append:
  assumes "list_all (wf_frame m) fs"
  shows "stream_frames m (concat (map frame_bytes fs) @ rest) =
     (let (gs, e, left) = stream_frames m rest
      in (map (\<lambda>f. (header_of f, payload f)) fs @ gs, e, left))"
  using assms
proof (induction fs)
  case (Cons f fs)
  have "stream_frames m (concat (map frame_bytes (f # fs)) @ rest) =
    (case stream_frames m (concat (map frame_bytes fs) @ rest) of
       (gs, e, left) \<Rightarrow> ((header_of f, payload f) # gs, e, left))"
    using Cons.prems next_frame_frame_bytes [of m f "concat (map frame_bytes fs) @ rest"]
    by (subst stream_frames.simps) simp
  with Cons show ?case by (simp add: Let_def split: prod.splits)
qed (simp add: Let_def split: prod.splits)

text \<open>a receiver that reads the bytes of a batch off a stream transport gets exactly the frames
  the writer put there, in order, and is left at the next byte after them.\<close>

lemma stream_roundtrip:
  assumes "list_all (wf_frame m) fs"
  shows "stream_frames m (concat (map frame_bytes fs) @ rest) =
     (let (gs, e, left) = stream_frames m rest
      in (map (\<lambda>f. (header_of f, payload f)) fs @ gs, e, left))"
  using assms by (rule stream_frames_append)

lemma stream_roundtrip_example:
  "stream_frames 32768
     (concat (map frame_bytes
        [zero_frame\<lparr>wf_pBuf := Some (0, [1, 2, 3]), wf_length := 3, wf_chID := 5, wf_flag := FLG_DATA\<rparr>,
         zero_frame\<lparr>wf_chID := 5, wf_flag := FLG_FIN, wf_offset := 3\<rparr>]) @ []) =
   ([(\<lparr>hd_length = 3, hd_flag = FLG_DATA, hd_chID = 5, hd_offset = 0\<rparr>, [1, 2, 3]),
     (\<lparr>hd_length = 0, hd_flag = FLG_FIN, hd_chID = 5, hd_offset = 3\<rparr>, [])], NeedMore, [])"
  by (subst stream_roundtrip)
    (simp_all add: wf_frame_def zero_frame_def payload_def flag_defs known_flag_def MaxAllocSize_def
      header_of_def stream_frames.simps [of _ "[]"] next_frame_def)

section \<open>Packing frames into datagrams\<close>

text \<open>The transport's \<^verbatim>\<open>Write\<close> is a parameter: from its state and a datagram, an error or none and
  the next state.\<close>

type_synonym 'w writer = "'w \<Rightarrow> bytes \<Rightarrow> go_error option \<times> 'w"

definition dgram_flush :: "'w writer \<Rightarrow> bytes \<Rightarrow> 'w \<Rightarrow> go_error option \<times> 'w" where
  "dgram_flush wr buf w = (if length buf = 0 then (None, w) else wr w buf)"

fun flush_frames :: "'w writer \<Rightarrow> nat \<Rightarrow> write_frame list \<Rightarrow> bytes \<Rightarrow> 'w \<Rightarrow> go_error option \<times> 'w" where
  "flush_frames wr mx [] buf w = dgram_flush wr buf w"
| "flush_frames wr mx (f # fs) buf w =
     (let need = 17 + length (payload f);
          full = length buf + need > mx;
          (e1, w1) = (if full then dgram_flush wr buf w else (None, w));
          buf1 = (if full then [] else buf)
      in case e1 of
           Some e \<Rightarrow> (Some e, w1)
         | None \<Rightarrow>
             if need > mx then
               (case wr w1 (putHeader f @ payload f) of
                  (Some e, w2) \<Rightarrow> (Some e, w2)
                | (None, w2) \<Rightarrow> flush_frames wr mx fs buf1 w2)
             else flush_frames wr mx fs (buf1 @ putHeader f @ payload f) w1)"

definition flushDatagrams :: "'w writer \<Rightarrow> write_frame list \<Rightarrow> int \<Rightarrow> 'w \<Rightarrow> go_error option \<times> 'w" where
  "flushDatagrams wr frames mx w = flush_frames wr (nat (if mx < 17 then 17 else mx)) frames [] w"

text \<open>The frames that \<^verbatim>\<open>datagramReadLoop\<close> finds in one datagram, again the framing alone; the loop that acts
  on them, and leaves at a GOAWAY, is \<open>dgram_loop\<close> of Dispatch.\<close>

function datagram_frames :: "bytes \<Rightarrow> (header \<times> bytes) list" where
  "datagram_frames b =
     (if 17 \<le> length b then
        let h = read_header (take 17 b); frameEnd = 17 + unat (hd_length h) in
        if frameEnd > length b then []
        else (h, slice 17 frameEnd b) # datagram_frames (drop frameEnd b)
      else [])"
  by pat_completeness auto
termination
  by (relation "measure length") auto

declare datagram_frames.simps [simp del]

subsection \<open>Where the datagrams are cut\<close>

text \<open>A transport that records what it is given.\<close>

definition log_writer :: "bytes list writer" where
  "log_writer w b = (None, w @ [b])"

definition frames_bytes :: "write_frame list \<Rightarrow> bytes" where
  "frames_bytes fs = concat (map frame_bytes fs)"

lemma frames_bytes_simps [simp]:
  "frames_bytes [] = []" "frames_bytes (f # fs) = frame_bytes f @ frames_bytes fs"
  "frames_bytes (fs @ gs) = frames_bytes fs @ frames_bytes gs"
  by (simp_all add: frames_bytes_def)

lemma length_frame_bytes [simp]: "length (frame_bytes f) = 17 + length (payload f)"
  by (simp add: frame_bytes_def putHeader_def)

lemma frames_bytes_Nil [simp]: "frames_bytes fs = [] \<longleftrightarrow> fs = []"
proof (cases fs)
  case (Cons f gs)
  have "frame_bytes f \<noteq> []" using length_frame_bytes [of f] by force
  with Cons show ?thesis by simp
qed simp

text \<open>A cut of the frame list that respects the datagram size.\<close>

definition good_cut :: "nat \<Rightarrow> write_frame list \<Rightarrow> write_frame list list \<Rightarrow> bool" where
  "good_cut mx fs parts \<longleftrightarrow> concat parts = fs \<and>
     list_all (\<lambda>p. p \<noteq> [] \<and> (length (frames_bytes p) \<le> mx \<or> length p = 1)) parts"

lemma good_cut_Cons:
  "good_cut mx fs parts \<Longrightarrow> p \<noteq> [] \<Longrightarrow> length (frames_bytes p) \<le> mx \<or> length p = 1 \<Longrightarrow>
   good_cut mx (p @ fs) (p # parts)"
  by (simp add: good_cut_def)

lemma flush_frames_cut:
  assumes "length (frames_bytes bs) \<le> mx"
  shows "\<exists>parts. flush_frames log_writer mx fs (frames_bytes bs) w =
           (None, w @ map frames_bytes parts) \<and> good_cut mx (bs @ fs) parts"
  using assms
proof (induction fs arbitrary: bs w)
  case Nil
  show ?case
  proof (cases "bs = []")
    case True
    then show ?thesis by (intro exI [of _ "[]"]) (simp add: dgram_flush_def good_cut_def)
  next
    case False
    with Nil show ?thesis
      by (intro exI [of _ "[bs]"]) (simp add: dgram_flush_def log_writer_def good_cut_def)
  qed
next
  case (Cons f fs)
  let ?need = "17 + length (payload f)"
  have fb: "putHeader f @ payload f = frame_bytes f" by (simp add: frame_bytes_def)
  show ?case
  proof (cases "length (frames_bytes bs) + ?need > mx")
    case False
    then obtain parts where "flush_frames log_writer mx fs (frames_bytes (bs @ [f])) w =
        (None, w @ map frames_bytes parts)" "good_cut mx ((bs @ [f]) @ fs) parts"
      using Cons.IH [of "bs @ [f]" w] by auto
    with False show ?thesis by (auto simp: Let_def fb)
  next
    case full: True
    define bs' where "bs' = (if bs = [] then [] else [bs])"
    define w1 where "w1 = w @ map frames_bytes bs'"
    have fl: "dgram_flush log_writer (frames_bytes bs) w = (None, w1)"
      by (simp add: dgram_flush_def log_writer_def w1_def bs'_def)
    have cut: "good_cut mx (bs @ gs) (bs' @ parts)" if "good_cut mx gs parts" for gs parts
      using that Cons.prems by (simp add: bs'_def good_cut_def)
    show ?thesis
    proof (cases "?need > mx")
      case True
      obtain parts where p: "flush_frames log_writer mx fs (frames_bytes []) (w1 @ [frame_bytes f]) =
          (None, (w1 @ [frame_bytes f]) @ map frames_bytes parts)" "good_cut mx ([] @ fs) parts"
        using Cons.IH [of "[]" "w1 @ [frame_bytes f]"] by auto
      have "good_cut mx (bs @ [f] @ fs) (bs' @ [f] # parts)"
        using p(2) by (intro cut good_cut_Cons) simp_all
      moreover have "log_writer w1 (frame_bytes f) = (None, w1 @ [frame_bytes f])"
        by (simp add: log_writer_def)
      ultimately show ?thesis
        using p(1) full True fl
        by (intro exI [of _ "bs' @ [f] # parts"]) (simp add: Let_def fb w1_def)
    next
      case False
      obtain parts where p: "flush_frames log_writer mx fs (frames_bytes [f]) w1 =
          (None, w1 @ map frames_bytes parts)" "good_cut mx ([f] @ fs) parts"
        using Cons.IH [of "[f]" w1] False by auto
      with full False fl cut [OF p(2)] show ?thesis
        by (intro exI [of _ "bs' @ parts"]) (simp add: Let_def fb w1_def)
    qed
  qed
qed

lemma flushDatagrams_parts:
  "\<exists>parts. flushDatagrams log_writer fs mx [] = (None, map frames_bytes parts) \<and>
     good_cut (nat (max 17 mx)) fs parts"
proof -
  have "(if mx < 17 then 17 else mx) = max 17 mx" by (simp add: max_def)
  then show ?thesis
    using flush_frames_cut [of "[]" "nat (max 17 mx)" fs "[]"] by (simp add: flushDatagrams_def)
qed

text \<open>C30: \<^verbatim>\<open>flushDatagrams\<close> sends every frame once, in order and never split across datagrams; a
  datagram stays within the transport's limit unless it carries a single frame that alone exceeds it.\<close>

theorem flushDatagrams_cut:
  "\<exists>parts. flushDatagrams log_writer fs mx [] = (None, map frames_bytes parts) \<and>
     good_cut (nat (max 17 mx)) fs parts"
  by (rule flushDatagrams_parts)

subsection \<open>Reading datagrams back\<close>

text \<open>A frame whose header announces exactly the payload it carries.\<close>

definition sized_frame :: "write_frame \<Rightarrow> bool" where
  "sized_frame f \<longleftrightarrow> unat (wf_length f) = length (payload f)"

lemma datagram_frames_step:
  assumes "unat (wf_length f) = length (payload f)"
  shows "datagram_frames (frame_bytes f @ rest) = (header_of f, payload f) # datagram_frames rest"
proof -
  have "read_header (take 17 (frame_bytes f @ rest)) = header_of f"
    by (simp add: frame_bytes_def putHeader_def read_put_header)
  moreover have "slice 17 (17 + length (payload f)) (frame_bytes f @ rest) = payload f"
    by (simp add: slice_def frame_bytes_def putHeader_def)
  ultimately show ?thesis
    using assms by (subst datagram_frames.simps) (simp add: Let_def header_of_def)
qed

lemma datagram_frames_sized:
  "list_all sized_frame fs \<Longrightarrow>
   datagram_frames (frames_bytes fs @ rest) = map (\<lambda>f. (header_of f, payload f)) fs @ datagram_frames rest"
  by (induction fs) (simp_all add: datagram_frames_step sized_frame_def)

lemma datagram_frames_Nil [simp]: "datagram_frames [] = []"
  by (simp add: datagram_frames.simps)

text \<open>C29: reading the datagrams of a batch back gives the batch, provided every frame's length field
  counts its payload (all flags but window updates).\<close>

theorem datagram_roundtrip:
  assumes "list_all sized_frame fs" "flushDatagrams log_writer fs mx [] = (None, ds)"
  shows "concat (map datagram_frames ds) = map (\<lambda>f. (header_of f, payload f)) fs"
proof -
  from assms(2) flushDatagrams_parts [of fs mx] obtain parts
    where ds: "ds = map frames_bytes parts" and fs: "fs = concat parts"
    by (auto simp: good_cut_def)
  have "list_all sized_frame (concat parts)" using assms(1) fs by simp
  then have "concat (map datagram_frames (map frames_bytes parts)) =
      map (\<lambda>f. (header_of f, payload f)) (concat parts)"
  proof (induction parts)
    case (Cons p parts)
    then show ?case using datagram_frames_sized [of p "[]"] by simp
  qed simp
  then show ?thesis by (simp add: ds fs)
qed

theorem datagram_roundtrip_witness:
  "concat (map datagram_frames
     (snd (flushDatagrams log_writer
        [zero_frame\<lparr>wf_pBuf := Some (0, [1, 2, 3]), wf_length := 3, wf_flag := FLG_DATA\<rparr>,
         zero_frame\<lparr>wf_flag := FLG_ACK, wf_offset := 3\<rparr>] 1400 []))) =
   [(\<lparr>hd_length = 3, hd_flag = FLG_DATA, hd_chID = 0, hd_offset = 0\<rparr>, [1, 2, 3]),
    (\<lparr>hd_length = 0, hd_flag = FLG_ACK, hd_chID = 0, hd_offset = 3\<rparr>, [])]"
proof -
  let ?fs = "[zero_frame\<lparr>wf_pBuf := Some (0, [1, 2, 3]), wf_length := 3, wf_flag := FLG_DATA\<rparr>,
         zero_frame\<lparr>wf_flag := FLG_ACK, wf_offset := 3\<rparr>]"
  obtain ds where ds: "flushDatagrams log_writer ?fs 1400 [] = (None, ds)"
    using flushDatagrams_parts [of ?fs 1400] by blast
  have "list_all sized_frame ?fs" by (simp add: sized_frame_def payload_def zero_frame_def)
  from datagram_roundtrip [OF this ds] ds show ?thesis
    by (simp add: header_of_def payload_def zero_frame_def)
qed

text \<open>C36: a window update announces its credit in the length field and carries no payload, so on the
  datagram path it is taken for a truncated frame: it and everything behind it in the datagram is
  dropped whenever its credit exceeds the bytes that follow it.\<close>

theorem datagram_drops_window_update:
  assumes "list_all sized_frame pre" "wf_flag f = FLG_UPD" "wf_pBuf f = None"
    and "length rest < unat (wf_length f)"
  shows "datagram_frames (frames_bytes pre @ frame_bytes f @ rest) =
           map (\<lambda>g. (header_of g, payload g)) pre"
proof -
  have "read_header (take 17 (frame_bytes f @ rest)) = header_of f"
    by (simp add: frame_bytes_def putHeader_def read_put_header)
  then have "datagram_frames (frame_bytes f @ rest) = []"
    using assms(3,4) by (subst datagram_frames.simps) (simp add: Let_def header_of_def payload_def)
  then show ?thesis using datagram_frames_sized [OF assms(1)] by simp
qed

theorem datagram_drops_window_update_witness:
  "datagram_frames (frames_bytes [] @
     frame_bytes (zero_frame\<lparr>wf_flag := FLG_UPD, wf_chID := 5, wf_length := 262144\<rparr>) @
     frame_bytes (zero_frame\<lparr>wf_flag := FLG_ACK, wf_chID := 5, wf_offset := 7\<rparr>)) = []"
  using datagram_drops_window_update [of "[]"
      "zero_frame\<lparr>wf_flag := FLG_UPD, wf_chID := 5, wf_length := 262144\<rparr>"
      "frame_bytes (zero_frame\<lparr>wf_flag := FLG_ACK, wf_chID := 5, wf_offset := 7\<rparr>)"]
  by (simp add: payload_def zero_frame_def)

end
