(* ===== verification/Mux_State.thy ===== *)
theory Mux_State
  imports RingBuffer Frames
begin

text \<open>
  The state of one end of a session: the structs \<^verbatim>\<open>Config\<close>, \<^verbatim>\<open>Session\<close>, \<^verbatim>\<open>pendingQueue\<close> and
  \<^verbatim>\<open>pendingFrame\<close> (\<^verbatim>\<open>src/session.go\<close>), \<^verbatim>\<open>Channel\<close> (\<^verbatim>\<open>src/channel.go\<close>), \<^verbatim>\<open>StreamFlow\<close> and
  \<^verbatim>\<open>SessionFlow\<close> (\<^verbatim>\<open>src/flow.go\<close>), \<^verbatim>\<open>unackedFrame\<close>, \<^verbatim>\<open>reorderFrame\<close> and \<^verbatim>\<open>writeScheduler\<close>
  (\<^verbatim>\<open>src/write_scheduler.go\<close>).

  Channel objects and unacknowledged frames are shared by pointer, so they live in stores
  indexed by address; the maps and lists of the source hold addresses.  Reading conventions:
  an atomic variable is a plain field; a \<^verbatim>\<open>chan struct{}\<close> of capacity one is a flag that holds
  its token; a channel that is only ever closed is the flag "closed"; a \<^verbatim>\<open>sync.Once\<close> is the flag
  "done"; a mutex that some operation only tries to lock is the flag "held"; a timer is the
  time at which it fires; \<^verbatim>\<open>time.Now()\<close> is the field \<open>s_now\<close>.  A goroutine started by an
  operation is an entry of the field that says what it has still to do.  Buffers given back
  with \<^verbatim>\<open>defaultAllocator.Put\<close> are recorded in \<open>s_freed\<close>; \<open>s_nextB\<close> is the next fresh buffer
  address.  A run-time panic of an operation is recorded in \<open>s_panic\<close>.
\<close>

section \<open>Config\<close>

record config =
  MaxFrameDataSize :: u32
  MaxWriteBufferSize :: u32
  InitialStreamWindow :: u32
  InitialSessionWindow :: u32
  SystemPacketReadBuffer :: int
  SystemPacketWriteBuffer :: int
  KeepAlive :: bool
  KeepAliveInterval :: time
  KeepAliveTimeout :: time
  MaxUnknownChannelErrors :: u32
  Reliability :: bool
  RetransmitTimeout :: time
  MaxRetransmit :: int
  AckInterval :: time
  StreamingAckRatio :: u32
  ImmediateACKForLargePackets :: bool
  AllowConnectionResumption :: bool
  ConnectionResumeTimeout :: time
  MaxPendingChannels :: u64
  MaxPendingEarlyFramesPerSession :: u64
  MaxPendingEarlyBytesPerSession :: u64
  PendingEarlyFramesTTL :: time
  ClosedChannelFrameLingerTTL :: time
  LingerOnCloseSession :: bool
  LingerCloseTimeout :: time
  ChannelCloseTimeout :: time

section \<open>Flow control\<close>

record stream_flow =
  sf_chID :: u32
  sf_sendCredits :: i32
  sf_consumed :: i32
  sf_threshold :: i32
  sf_winNotify :: bool
  sf_updPending :: bool
  sf_unflushed :: i32

record session_flow =
  sn_sendCredits :: i32
  sn_consumed :: i32
  sn_threshold :: i32
  sn_enabled :: bool
  sn_updPending :: bool
  sn_unflushed :: i32

section \<open>Reliability\<close>

record unacked_frame =
  uf_pBuf :: "pbuf option"
  uf_offset :: u64
  uf_length :: u32
  uf_sentAt :: time
  uf_retransmits :: int
  uf_refs :: int
  uf_fin :: bool

record reorder_frame =
  rf_payload :: bytes
  rf_head :: "bref option"
  rf_offset :: u64
  rf_length :: u32

section \<open>Channels\<close>

text \<open>\<open>ch_reorderMap = None\<close> is the nil map that \<^verbatim>\<open>cleanupReliability\<close> leaves; \<open>ch_finDeferred\<close> is the
  goroutine of \<^verbatim>\<open>closeWrite\<close> that waits for \<^verbatim>\<open>writeMu\<close>, \<open>ch_finalWait\<close> a \<^verbatim>\<open>finalize\<close> that waits for
  \<^verbatim>\<open>readMu\<close>.\<close>

record channel =
  ch_id :: u32
  ch_ring :: ring
  ch_notify :: bool
  ch_waiting :: bool
  ch_readMu :: bool
  ch_writeMu :: bool
  ch_flow :: stream_flow
  ch_closeOnce :: bool
  ch_closeChan :: bool
  ch_drainOnce :: bool
  ch_closed :: bool
  ch_readDone :: bool
  ch_drainable :: bool
  ch_writeClosed :: bool
  ch_finQueued :: bool
  ch_resetByPeer :: bool
  ch_lastRst :: time
  ch_closeTimer :: "time option"
  ch_writeOnce :: bool
  ch_finalizeOnce :: bool
  ch_done :: bool
  ch_writeOffset :: u64
  ch_readOffset :: u64
  ch_unacked :: "uref list"
  ch_reorderMap :: "(u64, reorder_frame) gomap option"
  ch_finOffset :: u64
  ch_hasFin :: bool
  ch_inARQ :: bool
  ch_ackOffset :: u64
  ch_ackPending :: bool
  ch_ackTimer :: "time option"
  ch_inOrderPackets :: u32
  ch_finDeferred :: bool
  ch_finalWait :: bool
  ch_feedMu :: bool

section \<open>Sessions\<close>

record pending_frame =
  pf_flag :: u8
  pf_offset :: u64
  pf_pBuf :: "pbuf option"
  pf_length :: u32

record pending_queue =
  pq_frames :: "pending_frame list"
  pq_bytes :: int
  pq_expires :: time

text \<open>The write scheduler's part: the two queues with their capacities, and the frames of the
  goroutines that wait for room in them.\<close>

record scheduler =
  ws_conn :: "nat option"
  ws_connReady :: bool
  ws_writes :: "write_frame list"
  ws_writesCap :: nat
  ws_ctrlQueue :: "write_frame list"
  ws_ctrlCap :: nat
  ws_asyncCtrl :: "write_frame list"
  ws_asyncData :: "write_frame list"
  ws_closed :: bool

text \<open>\<open>s_goClose\<close> counts the goroutines started by \<^verbatim>\<open>go s.Close()\<close>, \<open>s_goLocalClose\<close> those started by
  \<^verbatim>\<open>go c.localClose()\<close>, \<open>s_graceTimers\<close> the grace-period goroutines with the epoch they
  captured, \<open>s_goResume\<close> those started by \<^verbatim>\<open>go d.autoResume()\<close> (\<open>s_redial\<close> says whether the
  session has a dialer that can redial); \<open>s_connClosed\<close> records the transports that were closed, \<open>s_hooksRun\<close> the close hooks run.  \<open>s_goRead\<close> are the transports that a
  \<^verbatim>\<open>readLoop\<close> goroutine was started for, \<open>s_goRetrans\<close> the goroutines of \<^verbatim>\<open>resumeWithConnection\<close> with the
  channels they have still to go through (and the frames left of one they have begun),
  \<open>s_goLinger\<close> the transports that \<^verbatim>\<open>lingerClose\<close> is still draining, with their deadlines.\<close>

record session =
  s_id :: bytes
  s_config :: config
  s_now :: time
  s_conn :: "nat option"
  s_connEpoch :: u64
  s_channels :: "(u32, cref) gomap"
  s_objs :: "cref \<Rightarrow> channel"
  s_nextObj :: cref
  s_uobjs :: "uref \<Rightarrow> unacked_frame"
  s_nextU :: uref
  s_writer :: scheduler
  s_flow :: session_flow
  s_die :: bool
  s_closeOnce :: bool
  s_closed :: bool
  s_suspended :: bool
  s_rxActivity :: bool
  s_unknownChannelErrors :: u32
  s_goAwayRecv :: bool
  s_closeHooks :: "nat list"
  s_arqSet :: "cref list"
  s_pending :: "(u32, pending_queue) gomap"
  s_pendingBytes :: int
  s_closedIDs :: "(u32, time) gomap"
  s_nextB :: bref
  s_freed :: "bref list"
  s_panic :: bool
  s_goClose :: nat
  s_goLocalClose :: "cref list"
  s_graceTimers :: "(time \<times> u64) list"
  s_redial :: bool
  s_goResume :: nat
  s_connClosed :: "nat list"
  s_hooksRun :: "nat list"
  s_goRead :: "nat list"
  s_goRetrans :: "(cref \<times> uref list option) list list"
  s_goLinger :: "(nat \<times> time) list"

text \<open>Access to the channel object behind an address.\<close>

definition upd_ch :: "cref \<Rightarrow> (channel \<Rightarrow> channel) \<Rightarrow> session \<Rightarrow> session" where
  "upd_ch c f s = s\<lparr>s_objs := (s_objs s)(c := f (s_objs s c))\<rparr>"

definition upd_flow :: "cref \<Rightarrow> (stream_flow \<Rightarrow> stream_flow) \<Rightarrow> session \<Rightarrow> session" where
  "upd_flow c f s = upd_ch c (\<lambda>ch. ch\<lparr>ch_flow := f (ch_flow ch)\<rparr>) s"

definition upd_u :: "uref \<Rightarrow> (unacked_frame \<Rightarrow> unacked_frame) \<Rightarrow> session \<Rightarrow> session" where
  "upd_u u f s = s\<lparr>s_uobjs := (s_uobjs s)(u := f (s_uobjs s u))\<rparr>"

definition upd_ws :: "(scheduler \<Rightarrow> scheduler) \<Rightarrow> session \<Rightarrow> session" where
  "upd_ws f s = s\<lparr>s_writer := f (s_writer s)\<rparr>"

definition upd_sn :: "(session_flow \<Rightarrow> session_flow) \<Rightarrow> session \<Rightarrow> session" where
  "upd_sn f s = s\<lparr>s_flow := f (s_flow s)\<rparr>"

definition put_buf :: "bref option \<Rightarrow> session \<Rightarrow> session" where
  "put_buf h s = (case h of None \<Rightarrow> s | Some a \<Rightarrow> s\<lparr>s_freed := s_freed s @ [a]\<rparr>)"

text \<open>\<^verbatim>\<open>defaultAllocator.Get(n)\<close>: nil out of range, otherwise a buffer nobody else holds.\<close>

definition get_buf :: "nat \<Rightarrow> session \<Rightarrow> bref option \<times> session" where
  "get_buf n s =
     (if n = 0 \<or> n > MaxAllocSize then (None, s) else (Some (s_nextB s), s\<lparr>s_nextB := Suc (s_nextB s)\<rparr>))"

lemmas upd_defs = upd_ch_def upd_flow_def upd_u_def upd_ws_def upd_sn_def

lemma put_buf_simps [simp]: "put_buf None s = s" "s_freed (put_buf (Some a) s) = s_freed s @ [a]"
  by (simp_all add: put_buf_def)

end
