(* ===== verification/Config.thy ===== *)
theory Config
  imports Mux_State
begin

text \<open>
  The configuration (\<^verbatim>\<open>src/session.go\<close>): \<^verbatim>\<open>DefaultConfig\<close>, the defaulting and clamping that
  \<^verbatim>\<open>NewSessionWithID\<close> applies to its private copy, and the initial state it builds with
  \<^verbatim>\<open>NewSessionFlow\<close> (\<^verbatim>\<open>src/flow.go\<close>) and \<^verbatim>\<open>newWriteScheduler\<close> (\<^verbatim>\<open>src/write_scheduler.go\<close>).
\<close>

section \<open>Defaults\<close>

definition second :: time where "second = 1000000000"
definition millisecond :: time where "millisecond = 1000000"

definition DEFAULT_MAX_FRAME_DATA_LEN :: u32 where "DEFAULT_MAX_FRAME_DATA_LEN = 32 * 1024"
definition DefaultInitialStreamWindow :: u32 where "DefaultInitialStreamWindow = 1 * 1024 * 1024"
definition DefaultInitialSessionWindow :: u32 where "DefaultInitialSessionWindow = 4 * 1024 * 1024"
definition DefaultWindowUpdateRatio :: u32 where "DefaultWindowUpdateRatio = 4"
definition DefaultChannelCloseTimeout :: time where "DefaultChannelCloseTimeout = 4 * second"
definition DefaultSystemPacketReadBuffer :: int where "DefaultSystemPacketReadBuffer = 4 * 1024 * 1024"
definition DefaultSystemPacketWriteBuffer :: int where "DefaultSystemPacketWriteBuffer = 4 * 1024 * 1024"

definition DefaultConfig :: config where
  "DefaultConfig = \<lparr>
     MaxFrameDataSize = DEFAULT_MAX_FRAME_DATA_LEN,
     MaxWriteBufferSize = 32,
     InitialStreamWindow = DefaultInitialStreamWindow,
     InitialSessionWindow = DefaultInitialSessionWindow,
     SystemPacketReadBuffer = DefaultSystemPacketReadBuffer,
     SystemPacketWriteBuffer = DefaultSystemPacketWriteBuffer,
     KeepAlive = True,
     KeepAliveInterval = 5 * second,
     KeepAliveTimeout = 30 * second,
     MaxUnknownChannelErrors = 128,
     Reliability = False,
     RetransmitTimeout = 150 * millisecond,
     MaxRetransmit = 16,
     AckInterval = 10 * millisecond,
     StreamingAckRatio = 2,
     ImmediateACKForLargePackets = False,
     AllowConnectionResumption = False,
     ConnectionResumeTimeout = 5 * second,
     MaxPendingChannels = 4,
     MaxPendingEarlyFramesPerSession = 8,
     MaxPendingEarlyBytesPerSession = 0,
     PendingEarlyFramesTTL = 3 * second,
     ClosedChannelFrameLingerTTL = 5 * second,
     LingerOnCloseSession = False,
     LingerCloseTimeout = 3 * second,
     ChannelCloseTimeout = DefaultChannelCloseTimeout\<rparr>"

section \<open>The session's private copy\<close>

text \<open>The statements of \<^verbatim>\<open>NewSessionWithID\<close> in order; a nil \<^verbatim>\<open>*Config\<close> is \<open>None\<close>.\<close>

definition fill_frame :: "config \<Rightarrow> config" where
  "fill_frame c0 =
     (let c1 = (if MaxFrameDataSize c0 = 0
                then c0\<lparr>MaxFrameDataSize := DEFAULT_MAX_FRAME_DATA_LEN\<rparr> else c0);
          c2 = (if unat (MaxFrameDataSize c1) > MaxAllocSize
                then c1\<lparr>MaxFrameDataSize := of_nat MaxAllocSize\<rparr> else c1);
          c3 = (if InitialStreamWindow c2 = 0
                then c2\<lparr>InitialStreamWindow := DefaultInitialStreamWindow\<rparr> else c2)
      in if InitialSessionWindow c3 = 0
         then c3\<lparr>InitialSessionWindow := DefaultInitialSessionWindow\<rparr> else c3)"

definition fill_buffers :: "config \<Rightarrow> config" where
  "fill_buffers c0 =
     (let c1 = (if SystemPacketReadBuffer c0 = 0
                then c0\<lparr>SystemPacketReadBuffer := DefaultSystemPacketReadBuffer\<rparr> else c0);
          c2 = (if SystemPacketWriteBuffer c1 = 0
                then c1\<lparr>SystemPacketWriteBuffer := DefaultSystemPacketWriteBuffer\<rparr> else c1);
          c3 = (if RetransmitTimeout c2 = 0 then c2\<lparr>RetransmitTimeout := 150 * millisecond\<rparr> else c2);
          c4 = (if MaxRetransmit c3 = 0 then c3\<lparr>MaxRetransmit := 16\<rparr> else c3);
          c5 = (if StreamingAckRatio c4 = 0 then c4\<lparr>StreamingAckRatio := 2\<rparr> else c4)
      in if MaxUnknownChannelErrors c5 = 0 then c5\<lparr>MaxUnknownChannelErrors := 128\<rparr> else c5)"

definition early_budget :: "config \<Rightarrow> u64" where
  "early_budget c = MaxPendingEarlyFramesPerSession c * ucast (MaxFrameDataSize c)"

definition fill_pending :: "config \<Rightarrow> config" where
  "fill_pending c0 =
     (let c1 = (if MaxPendingChannels c0 = 0 then c0\<lparr>MaxPendingChannels := 4\<rparr> else c0);
          c2 = (if MaxPendingEarlyFramesPerSession c1 = 0
                then c1\<lparr>MaxPendingEarlyFramesPerSession := 8\<rparr> else c1);
          c3 = (if MaxPendingEarlyBytesPerSession c2 = 0
                then c2\<lparr>MaxPendingEarlyBytesPerSession := early_budget c2\<rparr> else c2)
      in if MaxPendingEarlyBytesPerSession c3 > early_budget c3
         then c3\<lparr>MaxPendingEarlyBytesPerSession := early_budget c3\<rparr> else c3)"

definition fill_times :: "config \<Rightarrow> config" where
  "fill_times c0 =
     (let c1 = (if PendingEarlyFramesTTL c0 = 0 then c0\<lparr>PendingEarlyFramesTTL := 3 * second\<rparr> else c0);
          c2 = (if ClosedChannelFrameLingerTTL c1 = 0
                then c1\<lparr>ClosedChannelFrameLingerTTL := 5 * second\<rparr> else c1);
          c3 = (if LingerCloseTimeout c2 = 0 then c2\<lparr>LingerCloseTimeout := 5 * second\<rparr> else c2)
      in if ChannelCloseTimeout c3 = 0
         then c3\<lparr>ChannelCloseTimeout := DefaultChannelCloseTimeout\<rparr> else c3)"

definition session_config :: "config option \<Rightarrow> config" where
  "session_config oc =
     (let cfg = (case oc of None \<Rightarrow> DefaultConfig | Some c \<Rightarrow> c)
      in fill_times (fill_pending (fill_buffers (fill_frame cfg))))"

section \<open>A new session\<close>

definition NewStreamFlow :: "u32 \<Rightarrow> i32 \<Rightarrow> stream_flow" where
  "NewStreamFlow chID initialWindow =
     (let w = (if sint initialWindow \<le> 0 then DefaultInitialStreamWindow else initialWindow);
          t = (word_of_int (sint w div sint DefaultWindowUpdateRatio) :: i32)
      in \<lparr>sf_chID = chID, sf_sendCredits = w, sf_consumed = 0,
          sf_threshold = (if sint t \<le> 0 then 1 else t),
          sf_winNotify = False, sf_updPending = False, sf_unflushed = 0\<rparr>)"

definition NewSessionFlow :: "i32 \<Rightarrow> session_flow" where
  "NewSessionFlow initialWindow =
     (if sint initialWindow \<le> 0
      then \<lparr>sn_sendCredits = 0, sn_consumed = 0, sn_threshold = 0, sn_enabled = False,
            sn_updPending = False, sn_unflushed = 0\<rparr>
      else
        let t = (word_of_int (sint initialWindow div sint DefaultWindowUpdateRatio) :: i32)
        in \<lparr>sn_sendCredits = initialWindow, sn_consumed = 0,
            sn_threshold = (if sint t \<le> 0 then 1 else t), sn_enabled = True,
            sn_updPending = False, sn_unflushed = 0\<rparr>)"

definition newWriteScheduler :: "nat option \<Rightarrow> nat \<Rightarrow> scheduler" where
  "newWriteScheduler conn queueDepth0 =
     (let queueDepth = (if queueDepth0 = 0 then 128 else queueDepth0);
          ctrlDepth = (if queueDepth < 128 then 128 else queueDepth)
      in \<lparr>ws_conn = conn, ws_connReady = False, ws_writes = [], ws_writesCap = queueDepth,
          ws_ctrlQueue = [], ws_ctrlCap = ctrlDepth, ws_asyncCtrl = [], ws_asyncData = [],
          ws_closed = False\<rparr>)"

text \<open>The zero value of the channel store's unused entries plays no role: \<open>objs\<close> and \<open>uobjs\<close> are
  the memory the session is created in.\<close>

definition NewSessionWithID ::
  "(cref \<Rightarrow> channel) \<Rightarrow> (uref \<Rightarrow> unacked_frame) \<Rightarrow> time \<Rightarrow> nat option \<Rightarrow> config option \<Rightarrow> bytes \<Rightarrow> session" where
  "NewSessionWithID objs uobjs now conn oc sid =
     (let cfg = session_config oc in
      \<lparr>s_id = sid, s_config = cfg, s_now = now, s_conn = conn, s_connEpoch = 0, s_channels = [],
       s_objs = objs, s_nextObj = 0, s_uobjs = uobjs, s_nextU = 0,
       s_writer = newWriteScheduler conn (unat (MaxWriteBufferSize cfg)),
       s_flow = NewSessionFlow (InitialSessionWindow cfg),
       s_die = False, s_closeOnce = False, s_closed = False, s_suspended = False,
       s_rxActivity = False, s_unknownChannelErrors = 0, s_goAwayRecv = False, s_closeHooks = [],
       s_arqSet = [], s_pending = [], s_pendingBytes = 0, s_closedIDs = [], s_nextB = 0,
       s_freed = [], s_panic = False,
       s_goClose = 0, s_goLocalClose = [], s_graceTimers = [], s_redial = False,
       s_goResume = 0, s_connClosed = [], s_hooksRun = [],
       s_goRead = (case conn of None \<Rightarrow> [] | Some k \<Rightarrow> [k]), s_goRetrans = [], s_goLinger = []\<rparr>)"

section \<open>What the copy guarantees\<close>

definition config_ok :: "config \<Rightarrow> bool" where
  "config_ok c \<longleftrightarrow>
     0 < MaxFrameDataSize c \<and> unat (MaxFrameDataSize c) \<le> MaxAllocSize \<and>
     InitialStreamWindow c \<noteq> 0 \<and> InitialSessionWindow c \<noteq> 0 \<and>
     RetransmitTimeout c \<noteq> 0 \<and> MaxRetransmit c \<noteq> 0 \<and> StreamingAckRatio c \<noteq> 0 \<and>
     MaxUnknownChannelErrors c \<noteq> 0 \<and> MaxPendingChannels c \<noteq> 0 \<and>
     MaxPendingEarlyFramesPerSession c \<noteq> 0 \<and>
     MaxPendingEarlyBytesPerSession c \<le> early_budget c \<and>
     PendingEarlyFramesTTL c \<noteq> 0 \<and> ClosedChannelFrameLingerTTL c \<noteq> 0 \<and>
     LingerCloseTimeout c \<noteq> 0 \<and> ChannelCloseTimeout c \<noteq> 0"

lemmas fill_defs = fill_frame_def fill_buffers_def fill_pending_def fill_times_def Let_def

lemmas default_defs = DEFAULT_MAX_FRAME_DATA_LEN_def DefaultInitialStreamWindow_def
  DefaultInitialSessionWindow_def DefaultSystemPacketReadBuffer_def DefaultSystemPacketWriteBuffer_def DefaultChannelCloseTimeout_def
  second_def millisecond_def MaxAllocSize_def

lemma fill_frame_ok:
  "0 < MaxFrameDataSize (fill_frame c)" "unat (MaxFrameDataSize (fill_frame c)) \<le> MaxAllocSize"
  "InitialStreamWindow (fill_frame c) \<noteq> 0" "InitialSessionWindow (fill_frame c) \<noteq> 0"
  by (auto simp: fill_frame_def Let_def default_defs word_gt_0)

lemma fill_frame_same [simp]:
  "MaxFrameDataSize (fill_buffers c) = MaxFrameDataSize c"
  "MaxFrameDataSize (fill_pending c) = MaxFrameDataSize c"
  "MaxFrameDataSize (fill_times c) = MaxFrameDataSize c"
  "InitialStreamWindow (fill_buffers c) = InitialStreamWindow c"
  "InitialStreamWindow (fill_pending c) = InitialStreamWindow c"
  "InitialStreamWindow (fill_times c) = InitialStreamWindow c"
  "InitialSessionWindow (fill_buffers c) = InitialSessionWindow c"
  "InitialSessionWindow (fill_pending c) = InitialSessionWindow c"
  "InitialSessionWindow (fill_times c) = InitialSessionWindow c"
  by (simp_all add: fill_defs)

lemma fill_buffers_ok:
  "RetransmitTimeout (fill_buffers c) \<noteq> 0" "MaxRetransmit (fill_buffers c) \<noteq> 0"
  "StreamingAckRatio (fill_buffers c) \<noteq> 0" "MaxUnknownChannelErrors (fill_buffers c) \<noteq> 0"
  by (simp_all add: fill_buffers_def Let_def default_defs)

lemma fill_buffers_same [simp]:
  "RetransmitTimeout (fill_pending c) = RetransmitTimeout c"
  "RetransmitTimeout (fill_times c) = RetransmitTimeout c"
  "MaxRetransmit (fill_pending c) = MaxRetransmit c"
  "MaxRetransmit (fill_times c) = MaxRetransmit c"
  "StreamingAckRatio (fill_pending c) = StreamingAckRatio c"
  "StreamingAckRatio (fill_times c) = StreamingAckRatio c"
  "MaxUnknownChannelErrors (fill_pending c) = MaxUnknownChannelErrors c"
  "MaxUnknownChannelErrors (fill_times c) = MaxUnknownChannelErrors c"
  by (simp_all add: fill_defs)

lemma fill_pending_ok:
  "MaxPendingChannels (fill_pending c) \<noteq> 0" "MaxPendingEarlyFramesPerSession (fill_pending c) \<noteq> 0"
  "MaxPendingEarlyBytesPerSession (fill_pending c) \<le> early_budget (fill_pending c)"
  by (simp_all add: fill_pending_def early_budget_def Let_def not_less)

lemma fill_pending_same [simp]:
  "MaxPendingChannels (fill_times c) = MaxPendingChannels c"
  "MaxPendingEarlyFramesPerSession (fill_times c) = MaxPendingEarlyFramesPerSession c"
  "MaxPendingEarlyBytesPerSession (fill_times c) = MaxPendingEarlyBytesPerSession c"
  by (simp_all add: fill_times_def Let_def)

lemma early_budget_times [simp]: "early_budget (fill_times c) = early_budget c"
  by (simp add: early_budget_def)

lemma fill_times_ok:
  "PendingEarlyFramesTTL (fill_times c) \<noteq> 0" "ClosedChannelFrameLingerTTL (fill_times c) \<noteq> 0"
  "LingerCloseTimeout (fill_times c) \<noteq> 0" "ChannelCloseTimeout (fill_times c) \<noteq> 0"
  by (simp_all add: fill_times_def Let_def default_defs)

lemma session_config_ok: "config_ok (session_config oc)"
  unfolding config_ok_def session_config_def Let_def
  using fill_frame_ok fill_buffers_ok fill_pending_ok fill_times_ok by simp

text \<open>A configuration that needs no repair is left alone by each group of statements.\<close>

lemma fill_frame_id:
  "0 < MaxFrameDataSize c \<Longrightarrow> unat (MaxFrameDataSize c) \<le> MaxAllocSize \<Longrightarrow>
   InitialStreamWindow c \<noteq> 0 \<Longrightarrow> InitialSessionWindow c \<noteq> 0 \<Longrightarrow> fill_frame c = c"
  by (simp add: fill_frame_def Let_def word_gt_0)

lemma fill_buffers_id:
  "SystemPacketReadBuffer c \<noteq> 0 \<Longrightarrow> SystemPacketWriteBuffer c \<noteq> 0 \<Longrightarrow> RetransmitTimeout c \<noteq> 0 \<Longrightarrow>
   MaxRetransmit c \<noteq> 0 \<Longrightarrow> StreamingAckRatio c \<noteq> 0 \<Longrightarrow> MaxUnknownChannelErrors c \<noteq> 0 \<Longrightarrow>
   fill_buffers c = c"
  by (simp add: fill_buffers_def Let_def)

lemma fill_pending_id:
  "MaxPendingChannels c \<noteq> 0 \<Longrightarrow> MaxPendingEarlyFramesPerSession c \<noteq> 0 \<Longrightarrow>
   MaxPendingEarlyBytesPerSession c \<le> early_budget c \<Longrightarrow>
   MaxPendingEarlyBytesPerSession c = 0 \<longrightarrow> early_budget c = 0 \<Longrightarrow> fill_pending c = c"
  by (simp add: fill_pending_def Let_def not_less)

lemma fill_pending_zero:
  "MaxPendingEarlyBytesPerSession (fill_pending c) = 0 \<longrightarrow> early_budget (fill_pending c) = 0"
  by (simp add: fill_pending_def early_budget_def Let_def)

lemma fill_times_id:
  "PendingEarlyFramesTTL c \<noteq> 0 \<Longrightarrow> ClosedChannelFrameLingerTTL c \<noteq> 0 \<Longrightarrow>
   LingerCloseTimeout c \<noteq> 0 \<Longrightarrow> ChannelCloseTimeout c \<noteq> 0 \<Longrightarrow> fill_times c = c"
  by (simp add: fill_times_def Let_def)

lemma fill_system_same [simp]:
  "SystemPacketReadBuffer (fill_times c) = SystemPacketReadBuffer c"
  "SystemPacketWriteBuffer (fill_times c) = SystemPacketWriteBuffer c"
  "SystemPacketReadBuffer (fill_pending c) = SystemPacketReadBuffer c"
  "SystemPacketWriteBuffer (fill_pending c) = SystemPacketWriteBuffer c"
  by (simp_all add: fill_times_def fill_pending_def Let_def)

lemma fill_system_buffers:
  "SystemPacketReadBuffer (fill_buffers c) \<noteq> 0"
  "SystemPacketWriteBuffer (fill_buffers c) \<noteq> 0"
  by (simp_all add: fill_buffers_def Let_def default_defs)

lemma session_config_idem: "session_config (Some (session_config oc)) = session_config oc"
proof -
  define d where "d = session_config oc"
  obtain c where c: "d = fill_times (fill_pending (fill_buffers (fill_frame c)))"
    by (simp add: d_def session_config_def Let_def)
  have ok: "config_ok d" by (simp add: d_def session_config_ok)
  have "fill_frame d = d" using ok by (intro fill_frame_id) (simp_all add: config_ok_def)
  moreover have "fill_buffers d = d"
    using ok fill_system_buffers [of "fill_frame c"]
    by (intro fill_buffers_id) (simp_all add: config_ok_def c)
  moreover have "fill_pending d = d"
    using ok fill_pending_zero [of "fill_buffers (fill_frame c)"]
    by (intro fill_pending_id) (simp_all add: config_ok_def c)
  moreover have "fill_times d = d" using ok by (intro fill_times_id) (simp_all add: config_ok_def)
  ultimately have "session_config (Some d) = d" by (simp add: session_config_def)
  then show ?thesis by (simp only: d_def)
qed

text \<open>C32: Whatever configuration a session is created with, nil and all-zero ones included, its private
  copy has a positive frame size that the allocator serves, non-zero windows, timeouts,
  retransmission and stash limits, and a byte budget for early frames within frames times frame
  size; building a session from such a copy again changes nothing.\<close>

theorem session_config_sane:
  "config_ok (session_config oc) \<and> session_config (Some (session_config oc)) = session_config oc"
  using session_config_ok session_config_idem by blast

lemma quarter_i32:
  "0 < sint v \<Longrightarrow> sint (word_of_int (sint v div 4) :: i32) = sint v div 4" for v :: i32
  using sint_range [of v] by (intro sint_of_int) simp_all

lemma sint_ratio: "sint DefaultWindowUpdateRatio = 4"
  by (simp add: DefaultWindowUpdateRatio_def)

definition flow_threshold :: "i32 \<Rightarrow> i32" where
  "flow_threshold w = (let t = (word_of_int (sint w div 4) :: i32) in if sint t \<le> 0 then 1 else t)"

lemma flow_threshold:
  assumes "0 < sint w"
  shows "0 < sint (flow_threshold w)" "4 * sint (flow_threshold w) \<le> sint w \<or> flow_threshold w = 1"
proof -
  have "4 * (sint w div 4) \<le> sint w" by presburger
  then show "0 < sint (flow_threshold w)" "4 * sint (flow_threshold w) \<le> sint w \<or> flow_threshold w = 1"
    using assms by (simp_all add: flow_threshold_def Let_def quarter_i32)
qed

lemma NewStreamFlow_fields:
  "sf_sendCredits (NewStreamFlow chID w) = (if sint w \<le> 0 then DefaultInitialStreamWindow else w)"
  "sf_threshold (NewStreamFlow chID w) = flow_threshold (sf_sendCredits (NewStreamFlow chID w))"
  by (simp_all add: NewStreamFlow_def flow_threshold_def Let_def sint_ratio)

lemma NewStreamFlow_positive: "0 < sint (sf_sendCredits (NewStreamFlow chID w))"
  by (simp add: NewStreamFlow_fields DefaultInitialStreamWindow_def)

lemma NewSessionFlow_fields:
  "sn_enabled (NewSessionFlow w) \<longleftrightarrow> 0 < sint w"
  "0 < sint w \<Longrightarrow> sn_sendCredits (NewSessionFlow w) = w"
  "0 < sint w \<Longrightarrow> sn_threshold (NewSessionFlow w) = flow_threshold w"
  by (simp_all add: NewSessionFlow_def flow_threshold_def Let_def sint_ratio)

text \<open>The window \<^verbatim>\<open>int32(cfg.InitialStreamWindow)\<close> a channel starts with is always positive, its
  update threshold is positive and at most a quarter of it or one, and the session pool is
  enabled exactly when the configured window is positive as a signed number, with a positive
  threshold.\<close>

lemma new_flow_windows:
  "0 < sint (sf_sendCredits (NewStreamFlow chID w)) \<and>
   0 < sint (sf_threshold (NewStreamFlow chID w)) \<and>
   (4 * sint (sf_threshold (NewStreamFlow chID w)) \<le> sint (sf_sendCredits (NewStreamFlow chID w)) \<or>
    sf_threshold (NewStreamFlow chID w) = 1) \<and>
   (sn_enabled (NewSessionFlow w) = (0 < sint w)) \<and>
   (sint w \<le> 0 \<or> sn_sendCredits (NewSessionFlow w) = w \<and> 0 < sint (sn_threshold (NewSessionFlow w)))"
proof (intro conjI)
  let ?f = "NewStreamFlow chID w"
  show pos: "0 < sint (sf_sendCredits ?f)" by (rule NewStreamFlow_positive)
  show "0 < sint (sf_threshold ?f)"
    unfolding NewStreamFlow_fields(2) by (rule flow_threshold(1) [OF pos])
  show "4 * sint (sf_threshold ?f) \<le> sint (sf_sendCredits ?f) \<or> sf_threshold ?f = 1"
    unfolding NewStreamFlow_fields(2) by (rule flow_threshold(2) [OF pos])
  show "sn_enabled (NewSessionFlow w) = (0 < sint w)" by (rule NewSessionFlow_fields(1))
  show "sint w \<le> 0 \<or> sn_sendCredits (NewSessionFlow w) = w \<and> 0 < sint (sn_threshold (NewSessionFlow w))"
    using NewSessionFlow_fields(2,3) [of w] flow_threshold(1) [of w] by (cases "0 < sint w") simp_all
qed

end
