(* ===== verification/Queues.thy ===== *)
theory Queues
  imports Config
begin

text \<open>
  Frames on their way to the writer: the reference-counted unacknowledged frames and
  \<^verbatim>\<open>releaseFrame\<close> (\<^verbatim>\<open>src/write_scheduler.go\<close>), and the operations of \<^verbatim>\<open>src/session.go\<close> that put
  frames into the two bounded queues: \<^verbatim>\<open>writeDataFrame\<close>, \<^verbatim>\<open>writeDataFrameNonBlocking\<close>,
  \<^verbatim>\<open>writeControlFrameNonBlocking\<close> and \<^verbatim>\<open>sendReset\<close>.  A send that would block is the result
  \<open>SendBlock\<close> and leaves the state alone.
\<close>

section \<open>Unacknowledged frames\<close>

definition zero_u :: unacked_frame where
  "zero_u = \<lparr>uf_pBuf = None, uf_offset = 0, uf_length = 0, uf_sentAt = 0, uf_retransmits = 0,
     uf_refs = 0, uf_fin = False\<rparr>"

definition u_end :: "unacked_frame \<Rightarrow> u64" where
  "u_end f = (if uf_fin f then uf_offset f + 1 else uf_offset f + ucast (uf_length f))"

definition retain :: "uref \<Rightarrow> session \<Rightarrow> session" where
  "retain u s = upd_u u (\<lambda>f. f\<lparr>uf_refs := uf_refs f + 1\<rparr>) s"

text \<open>\<^verbatim>\<open>newUnackedFrame\<close> gives the new object's address.\<close>

definition newUnackedFrame ::
  "pbuf option \<Rightarrow> u64 \<Rightarrow> u32 \<Rightarrow> bool \<Rightarrow> int \<Rightarrow> session \<Rightarrow> uref \<times> session" where
  "newUnackedFrame pBuf offset len fin refs s =
     (let u = s_nextU s;
          f = \<lparr>uf_pBuf = pBuf, uf_offset = offset, uf_length = len, uf_sentAt = s_now s,
               uf_retransmits = 0, uf_refs = refs, uf_fin = fin\<rparr>
      in (u, s\<lparr>s_uobjs := (s_uobjs s)(u := f), s_nextU := Suc u\<rparr>))"

definition release :: "uref \<Rightarrow> session \<Rightarrow> session" where
  "release u s =
     (let f = s_uobjs s u;
          s1 = upd_u u (\<lambda>f. f\<lparr>uf_refs := uf_refs f - 1\<rparr>) s
      in if uf_refs f - 1 \<noteq> 0 then s1
         else upd_u u (\<lambda>_. zero_u) (put_buf (map_option fst (uf_pBuf f)) s1))"

definition releaseFrame :: "write_frame \<Rightarrow> session \<Rightarrow> session" where
  "releaseFrame f s =
     (case wf_ack f of
        Some u \<Rightarrow> release u s
      | None \<Rightarrow> put_buf (map_option fst (wf_pBuf f)) s)"

section \<open>The two queues\<close>

datatype send_result = SendOK | SendErr go_error | SendBlock

definition writes_room :: "session \<Rightarrow> bool" where
  "writes_room s \<longleftrightarrow> length (ws_writes (s_writer s)) < ws_writesCap (s_writer s)"

definition ctrl_room :: "session \<Rightarrow> bool" where
  "ctrl_room s \<longleftrightarrow> length (ws_ctrlQueue (s_writer s)) < ws_ctrlCap (s_writer s)"

definition push_writes :: "write_frame \<Rightarrow> session \<Rightarrow> session" where
  "push_writes f = upd_ws (\<lambda>w. w\<lparr>ws_writes := ws_writes w @ [f]\<rparr>)"

definition push_ctrl :: "write_frame \<Rightarrow> session \<Rightarrow> session" where
  "push_ctrl f = upd_ws (\<lambda>w. w\<lparr>ws_ctrlQueue := ws_ctrlQueue w @ [f]\<rparr>)"

definition writeDataFrame :: "write_frame \<Rightarrow> session \<Rightarrow> send_result \<times> session" where
  "writeDataFrame f s =
     (if s_closed s then (SendErr ErrSessionClosed, s)
      else if s_die s then (SendErr ErrSessionClosed, s)
      else if writes_room s then (SendOK, push_writes f s)
      else (SendBlock, s))"

text \<open>When the control queue is full a goroutine keeps the frame until there is room or the
  session dies (\<open>ws_asyncCtrl\<close>).\<close>

definition writeControlFrameNonBlocking :: "write_frame \<Rightarrow> session \<Rightarrow> bool \<times> session" where
  "writeControlFrameNonBlocking f s =
     (if s_closed s then (False, releaseFrame f s)
      else if s_die s then (False, releaseFrame f s)
      else if ctrl_room s then (True, push_ctrl f s)
      else (True, upd_ws (\<lambda>w. w\<lparr>ws_asyncCtrl := ws_asyncCtrl w @ [f]\<rparr>) s))"

definition writeDataFrameNonBlocking :: "write_frame \<Rightarrow> session \<Rightarrow> bool \<times> session" where
  "writeDataFrameNonBlocking f s =
     (if s_closed s then (False, s)
      else if s_die s then (False, s)
      else if writes_room s then (True, push_writes f s)
      else (False, s))"

text \<open>\<^verbatim>\<open>select { case ctrlQueue <- f: default: }\<close>\<close>

definition offer_ctrl :: "write_frame \<Rightarrow> session \<Rightarrow> session" where
  "offer_ctrl f s = (if ctrl_room s then push_ctrl f s else s)"

definition sendReset :: "u32 \<Rightarrow> u64 \<Rightarrow> session \<Rightarrow> session" where
  "sendReset chID offset s =
     (if s_closed s then s
      else offer_ctrl (zero_frame\<lparr>wf_flag := FLG_RST, wf_chID := chID, wf_offset := offset\<rparr>) s)"

section \<open>Waiting goroutines\<close>

text \<open>One step of the goroutine that holds the \<open>i\<close>-th waiting control frame: it releases the frame
  when the session has died, sends it when there is room, and otherwise keeps waiting.\<close>

definition async_ctrl_step :: "nat \<Rightarrow> session \<Rightarrow> session" where
  "async_ctrl_step i s =
     (let q = ws_asyncCtrl (s_writer s) in
      if i < length q then
        let f = q ! i;
            s1 = upd_ws (\<lambda>w. w\<lparr>ws_asyncCtrl := take i q @ drop (Suc i) q\<rparr>) s
        in if s_die s then releaseFrame f s1
           else if ctrl_room s then push_ctrl f s1 else s
      else s)"

text \<open>The same for a FIN frame that found the data queue full (\<^verbatim>\<open>sendFinLocked\<close>).\<close>

definition async_data_step :: "nat \<Rightarrow> session \<Rightarrow> session" where
  "async_data_step i s =
     (let q = ws_asyncData (s_writer s) in
      if i < length q then
        let f = q ! i;
            s1 = upd_ws (\<lambda>w. w\<lparr>ws_asyncData := take i q @ drop (Suc i) q\<rparr>) s
        in case writeDataFrame f s1 of
             (SendOK, s2) \<Rightarrow> s2
           | (SendErr e, s2) \<Rightarrow> (case wf_ack f of None \<Rightarrow> s2 | Some u \<Rightarrow> release u s2)
           | (SendBlock, s2) \<Rightarrow> s
      else s)"

section \<open>Bounds\<close>

definition queues_ok :: "session \<Rightarrow> bool" where
  "queues_ok s \<longleftrightarrow>
     length (ws_writes (s_writer s)) \<le> ws_writesCap (s_writer s) \<and>
     length (ws_ctrlQueue (s_writer s)) \<le> ws_ctrlCap (s_writer s)"

lemmas queue_defs = writeDataFrame_def writeControlFrameNonBlocking_def writeDataFrameNonBlocking_def
  offer_ctrl_def sendReset_def push_writes_def push_ctrl_def writes_room_def ctrl_room_def

lemma put_buf_fields [simp]:
  "s_writer (put_buf h s) = s_writer s" "s_uobjs (put_buf h s) = s_uobjs s"
  "s_objs (put_buf h s) = s_objs s" "s_channels (put_buf h s) = s_channels s"
  "s_flow (put_buf h s) = s_flow s" "s_config (put_buf h s) = s_config s"
  "s_closed (put_buf h s) = s_closed s" "s_die (put_buf h s) = s_die s"
  "s_now (put_buf h s) = s_now s" "s_panic (put_buf h s) = s_panic s"
  "s_nextU (put_buf h s) = s_nextU s" "s_nextB (put_buf h s) = s_nextB s"
  by (simp_all add: put_buf_def split: option.splits)

lemma release_fields [simp]:
  "s_writer (release u s) = s_writer s" "s_objs (release u s) = s_objs s"
  "s_channels (release u s) = s_channels s" "s_flow (release u s) = s_flow s"
  "s_config (release u s) = s_config s" "s_closed (release u s) = s_closed s"
  "s_die (release u s) = s_die s" "s_now (release u s) = s_now s" "s_panic (release u s) = s_panic s"
  "s_nextU (release u s) = s_nextU s" "s_nextB (release u s) = s_nextB s"
  by (simp_all add: release_def upd_u_def Let_def)

lemma releaseFrame_fields [simp]:
  "s_writer (releaseFrame f s) = s_writer s" "s_objs (releaseFrame f s) = s_objs s"
  "s_channels (releaseFrame f s) = s_channels s" "s_flow (releaseFrame f s) = s_flow s"
  "s_config (releaseFrame f s) = s_config s" "s_closed (releaseFrame f s) = s_closed s"
  "s_die (releaseFrame f s) = s_die s" "s_now (releaseFrame f s) = s_now s"
  "s_panic (releaseFrame f s) = s_panic s"
  by (simp_all add: releaseFrame_def split: option.splits)

lemma queues_ok_ops:
  assumes "queues_ok s"
  shows "queues_ok (snd (writeDataFrame f s))" "queues_ok (snd (writeControlFrameNonBlocking f s))"
    "queues_ok (snd (writeDataFrameNonBlocking f s))" "queues_ok (sendReset i off s)"
    "queues_ok (offer_ctrl f s)"
  using assms by (simp_all add: queues_ok_def queue_defs upd_ws_def)

lemma queues_ok_async:
  assumes "queues_ok s"
  shows "queues_ok (async_ctrl_step i s)" "queues_ok (async_data_step i s)"
  using assms
  by (auto simp: queues_ok_def async_ctrl_step_def async_data_step_def queue_defs upd_ws_def Let_def
      split: option.splits)

text \<open>The reference count decides when a buffer goes back: the last holder's release frees it,
  once, and clears the object; an earlier one only counts.\<close>

lemma release_last:
  "uf_refs (s_uobjs s u) = 1 \<Longrightarrow> uf_pBuf (s_uobjs s u) = Some p \<Longrightarrow>
   s_freed (release u s) = s_freed s @ [fst p] \<and> s_uobjs (release u s) u = zero_u"
  by (simp add: release_def upd_u_def Let_def)

lemma release_shared:
  "uf_refs (s_uobjs s u) \<noteq> 1 \<Longrightarrow>
   s_freed (release u s) = s_freed s \<and>
   s_uobjs (release u s) u = (s_uobjs s u)\<lparr>uf_refs := uf_refs (s_uobjs s u) - 1\<rparr>"
  by (simp add: release_def upd_u_def Let_def)

end
