(* ===== verification/Flow.thy ===== *)
theory Flow
  imports Queues
begin

text \<open>
  Flow control (\<^verbatim>\<open>src/flow.go\<close>, with \<^verbatim>\<open>wakeWaitingChannels\<close> and \<^verbatim>\<open>creditDiscarded\<close> of
  \<^verbatim>\<open>src/session.go\<close>): every channel and the session have a pool of send credits, spent by
  \<^verbatim>\<open>AcquireCredits\<close> and refilled by window updates, and a count of consumed bytes that is announced
  to the peer when it reaches a quarter of the window.  The operations run to completion here;
  Flow_Steps takes them apart into their atomic steps.  Operations on the channel's flow are named
  \<open>sf_\<dots>\<close>, those on the session's \<open>sn_\<dots>\<close>; a channel's flow is found through its channel's address.
\<close>

section \<open>Send credits\<close>

abbreviation flow_of :: "session \<Rightarrow> cref \<Rightarrow> stream_flow" where
  "flow_of s c \<equiv> ch_flow (s_objs s c)"

definition WakeWriter :: "cref \<Rightarrow> session \<Rightarrow> session" where
  "WakeWriter c = upd_flow c (\<lambda>f. f\<lparr>sf_winNotify := True\<rparr>)"

definition wakeWaitingChannels :: "session \<Rightarrow> session" where
  "wakeWaitingChannels s = fold (\<lambda>kc. WakeWriter (snd kc)) (s_channels s) s"

definition sf_TryDeduct :: "cref \<Rightarrow> i32 \<Rightarrow> session \<Rightarrow> bool \<times> session" where
  "sf_TryDeduct c n s =
     (let curr = sf_sendCredits (flow_of s c) in
      if sint curr < sint n then (False, s)
      else (True, upd_flow c (\<lambda>f. f\<lparr>sf_sendCredits := curr - n\<rparr>) s))"

definition sn_TryDeduct :: "i32 \<Rightarrow> session \<Rightarrow> bool \<times> session" where
  "sn_TryDeduct n s =
     (let curr = sn_sendCredits (s_flow s) in
      if sint curr < sint n then (False, s)
      else (True, upd_sn (\<lambda>f. f\<lparr>sn_sendCredits := curr - n\<rparr>) s))"

definition sn_Refund :: "i32 \<Rightarrow> session \<Rightarrow> session" where
  "sn_Refund n s =
     (if sint n \<le> 0 then s
      else wakeWaitingChannels (upd_sn (\<lambda>f. f\<lparr>sn_sendCredits := sn_sendCredits f + n\<rparr>) s))"

definition sn_AddCredits :: "i32 \<Rightarrow> session \<Rightarrow> session" where
  "sn_AddCredits delta s =
     (if sint delta \<le> 0 then s
      else wakeWaitingChannels (upd_sn (\<lambda>f. f\<lparr>sn_sendCredits := sn_sendCredits f + delta\<rparr>) s))"

definition sf_Refund :: "cref \<Rightarrow> i32 \<Rightarrow> session \<Rightarrow> session" where
  "sf_Refund c n s =
     (if sint n \<le> 0 then s
      else
        let s1 = WakeWriter c (upd_flow c (\<lambda>f. f\<lparr>sf_sendCredits := sf_sendCredits f + n\<rparr>) s)
        in if sn_enabled (s_flow s1) then sn_Refund n s1 else s1)"

definition sf_AddCredits :: "cref \<Rightarrow> i32 \<Rightarrow> session \<Rightarrow> session" where
  "sf_AddCredits c delta s =
     (if sint delta \<le> 0 then s
      else WakeWriter c (upd_flow c (\<lambda>f. f\<lparr>sf_sendCredits := sf_sendCredits f + delta\<rparr>) s))"

text \<open>One round of the loop of \<^verbatim>\<open>AcquireCredits\<close>: \<open>AcqRetry\<close> is \<^verbatim>\<open>continue\<close>, \<open>AcqBlock\<close> the wait in the
  \<^verbatim>\<open>select\<close> with none of its cases ready.  With several ready the first one in the text is taken; a
  choice of \<^verbatim>\<open>winNotify\<close> instead leads to the test at the head of the next round, which may report the
  other of the two errors.\<close>

datatype acq = AcqOK i32 | AcqErr go_error | AcqBlock | AcqRetry

definition avail_credits :: "cref \<Rightarrow> session \<Rightarrow> i32" where
  "avail_credits c s =
     (let cAvail = sf_sendCredits (flow_of s c);
          sAvail = (if sn_enabled (s_flow s) then sn_sendCredits (s_flow s) else 2 ^ 30)
      in if sint sAvail < sint cAvail then sAvail else cAvail)"

definition acquire_round :: "cref \<Rightarrow> i32 \<Rightarrow> session \<Rightarrow> acq \<times> session" where
  "acquire_round c desired s =
     (if ch_closed (s_objs s c) \<or> ch_writeClosed (s_objs s c) \<or> s_closed s
      then (AcqErr ErrClosedPipe, s)
      else
        let avail = avail_credits c s in
        if sint avail \<le> 0 then
          if ch_closed (s_objs s c) \<or> s_closed s then (AcqErr ErrClosedPipe, s)
          else if s_die s then (AcqErr ErrSessionClosed, s)
          else if ch_closeChan (s_objs s c) then (AcqErr ErrClosedPipe, s)
          else if sf_winNotify (flow_of s c)
          then (AcqRetry, upd_flow c (\<lambda>f. f\<lparr>sf_winNotify := False\<rparr>) s)
          else (AcqBlock, s)
        else
          let tk = (if sint desired > sint avail then avail else desired);
              (ok, s1) = (if sn_enabled (s_flow s) then sn_TryDeduct tk s else (True, s))
          in if \<not> ok then (AcqRetry, s1)
             else
               case sf_TryDeduct c tk s1 of
                 (False, s2) \<Rightarrow> (AcqRetry, if sn_enabled (s_flow s2) then sn_Refund tk s2 else s2)
               | (True, s2) \<Rightarrow> (AcqOK tk, s2))"

fun acquire_loop :: "nat \<Rightarrow> cref \<Rightarrow> i32 \<Rightarrow> session \<Rightarrow> acq \<times> session" where
  "acquire_loop 0 c desired s = (AcqRetry, s)"
| "acquire_loop (Suc k) c desired s =
     (case acquire_round c desired s of
        (AcqRetry, s') \<Rightarrow> acquire_loop k c desired s'
      | r \<Rightarrow> r)"

text \<open>Two rounds are enough when nothing interferes (\<open>AcquireCredits_rounds\<close>): the first may use up
  a stale wake-up.\<close>

definition AcquireCredits :: "cref \<Rightarrow> i32 \<Rightarrow> session \<Rightarrow> acq \<times> session" where
  "AcquireCredits c desired s = acquire_loop 2 c desired s"

section \<open>Consumed bytes\<close>

definition sf_flushUpdate :: "cref \<Rightarrow> session \<Rightarrow> session" where
  "sf_flushUpdate c s =
     (let curr = sf_consumed (flow_of s c);
          s1 = upd_flow c (\<lambda>f. f\<lparr>sf_consumed := 0\<rparr>) s
      in if sint curr \<le> 0 then s1
         else
           let s2 = upd_flow c (\<lambda>f. f\<lparr>sf_unflushed := sf_unflushed f + curr\<rparr>) s1 in
           if sf_updPending (flow_of s2 c) then s2
           else
             let s3 = upd_flow c (\<lambda>f. f\<lparr>sf_updPending := True\<rparr>) s2;
                 frame = zero_frame\<lparr>wf_flag := FLG_UPD, wf_chID := sf_chID (flow_of s3 c),
                           wf_streamFlow := Some c\<rparr>;
                 (ok, s4) = writeControlFrameNonBlocking frame s3
             in if \<not> ok then upd_flow c (\<lambda>f. f\<lparr>sf_updPending := False\<rparr>) s4 else s4)"

definition sn_flushUpdate :: "session \<Rightarrow> session" where
  "sn_flushUpdate s =
     (let curr = sn_consumed (s_flow s);
          s1 = upd_sn (\<lambda>f. f\<lparr>sn_consumed := 0\<rparr>) s
      in if sint curr \<le> 0 then s1
         else
           let s2 = upd_sn (\<lambda>f. f\<lparr>sn_unflushed := sn_unflushed f + curr\<rparr>) s1 in
           if sn_updPending (s_flow s2) then s2
           else
             let s3 = upd_sn (\<lambda>f. f\<lparr>sn_updPending := True\<rparr>) s2;
                 frame = zero_frame\<lparr>wf_flag := FLG_UPD, wf_chID := 0, wf_sessionFlow := True\<rparr>;
                 (ok, s4) = writeControlFrameNonBlocking frame s3
             in if \<not> ok then upd_sn (\<lambda>f. f\<lparr>sn_updPending := False\<rparr>) s4 else s4)"

definition sn_OnRead :: "i32 \<Rightarrow> session \<Rightarrow> session" where
  "sn_OnRead n s =
     (let s1 = upd_sn (\<lambda>f. f\<lparr>sn_consumed := sn_consumed f + n\<rparr>) s
      in if sint (sn_consumed (s_flow s1)) \<ge> sint (sn_threshold (s_flow s1))
         then sn_flushUpdate s1 else s1)"

definition sf_OnRead :: "cref \<Rightarrow> int \<Rightarrow> session \<Rightarrow> session" where
  "sf_OnRead c n s =
     (if n \<le> 0 then s
      else
        let n32 = (word_of_int n :: i32);
            s1 = upd_flow c (\<lambda>f. f\<lparr>sf_consumed := sf_consumed f + n32\<rparr>) s;
            s2 = (if sint (sf_consumed (flow_of s1 c)) \<ge> sint (sf_threshold (flow_of s1 c))
                  then sf_flushUpdate c s1 else s1)
        in if sn_enabled (s_flow s2) then sn_OnRead n32 s2 else s2)"

definition creditDiscarded :: "u32 \<Rightarrow> session \<Rightarrow> session" where
  "creditDiscarded n s =
     (if Reliability (s_config s) \<or> \<not> sn_enabled (s_flow s) \<or> n = 0 then s else sn_OnRead n s)"

section \<open>Spending credits\<close>

lemma WakeWriter_fields [simp]:
  "s_flow (WakeWriter c s) = s_flow s" "s_channels (WakeWriter c s) = s_channels s"
  "s_closed (WakeWriter c s) = s_closed s" "s_die (WakeWriter c s) = s_die s"
  "s_config (WakeWriter c s) = s_config s" "s_writer (WakeWriter c s) = s_writer s"
  "s_uobjs (WakeWriter c s) = s_uobjs s" "s_freed (WakeWriter c s) = s_freed s"
  "s_panic (WakeWriter c s) = s_panic s" "s_now (WakeWriter c s) = s_now s"
  by (simp_all add: WakeWriter_def upd_flow_def upd_ch_def)

lemma WakeWriter_objs:
  "s_objs (WakeWriter c s) d =
     (if d = c then (s_objs s d)\<lparr>ch_flow := (flow_of s d)\<lparr>sf_winNotify := True\<rparr>\<rparr> else s_objs s d)"
  by (simp add: WakeWriter_def upd_flow_def upd_ch_def)

text \<open>Waking every channel sets tokens and does nothing else.\<close>

lemma fold_wake:
  "s_objs (fold (\<lambda>kc. WakeWriter (snd kc)) m s) d =
     (if d \<in> snd ` set m then (s_objs s d)\<lparr>ch_flow := (flow_of s d)\<lparr>sf_winNotify := True\<rparr>\<rparr> else s_objs s d)"
  by (induction m arbitrary: s) (auto simp: WakeWriter_objs)

lemma fold_wake_fields:
  "s_flow (fold (\<lambda>kc. WakeWriter (snd kc)) m s) = s_flow s"
  "s_channels (fold (\<lambda>kc. WakeWriter (snd kc)) m s) = s_channels s"
  "s_closed (fold (\<lambda>kc. WakeWriter (snd kc)) m s) = s_closed s"
  "s_die (fold (\<lambda>kc. WakeWriter (snd kc)) m s) = s_die s"
  "s_config (fold (\<lambda>kc. WakeWriter (snd kc)) m s) = s_config s"
  "s_writer (fold (\<lambda>kc. WakeWriter (snd kc)) m s) = s_writer s"
  "s_panic (fold (\<lambda>kc. WakeWriter (snd kc)) m s) = s_panic s"
  "s_now (fold (\<lambda>kc. WakeWriter (snd kc)) m s) = s_now s"
  "s_uobjs (fold (\<lambda>kc. WakeWriter (snd kc)) m s) = s_uobjs s"
  by (induction m arbitrary: s) simp_all

lemma wakeWaitingChannels_objs:
  "s_objs (wakeWaitingChannels s) d =
     (if d \<in> snd ` set (s_channels s)
      then (s_objs s d)\<lparr>ch_flow := (flow_of s d)\<lparr>sf_winNotify := True\<rparr>\<rparr> else s_objs s d)"
  by (simp add: wakeWaitingChannels_def fold_wake)

lemma wakeWaitingChannels_fields [simp]:
  "s_flow (wakeWaitingChannels s) = s_flow s" "s_channels (wakeWaitingChannels s) = s_channels s"
  "s_closed (wakeWaitingChannels s) = s_closed s" "s_die (wakeWaitingChannels s) = s_die s"
  "s_config (wakeWaitingChannels s) = s_config s" "s_writer (wakeWaitingChannels s) = s_writer s"
  "s_panic (wakeWaitingChannels s) = s_panic s" "s_now (wakeWaitingChannels s) = s_now s"
  "s_uobjs (wakeWaitingChannels s) = s_uobjs s"
  by (simp_all add: wakeWaitingChannels_def fold_wake_fields)

definition writable :: "cref \<Rightarrow> session \<Rightarrow> bool" where
  "writable c s \<longleftrightarrow> \<not> ch_closed (s_objs s c) \<and> \<not> ch_writeClosed (s_objs s c) \<and> \<not> s_closed s"

text \<open>The state after \<open>t\<close> credits have been taken from both pools.\<close>

definition spent :: "cref \<Rightarrow> i32 \<Rightarrow> session \<Rightarrow> session" where
  "spent c t s =
     upd_flow c (\<lambda>f. f\<lparr>sf_sendCredits := sf_sendCredits f - t\<rparr>)
       (if sn_enabled (s_flow s) then upd_sn (\<lambda>f. f\<lparr>sn_sendCredits := sn_sendCredits f - t\<rparr>) s else s)"

definition granted :: "cref \<Rightarrow> i32 \<Rightarrow> session \<Rightarrow> i32" where
  "granted c desired s =
     (if sint desired > sint (avail_credits c s) then avail_credits c s else desired)"

lemma avail_le:
  "sint (avail_credits c s) \<le> sint (sf_sendCredits (flow_of s c))"
  "sn_enabled (s_flow s) \<Longrightarrow> sint (avail_credits c s) \<le> sint (sn_sendCredits (s_flow s))"
  by (simp_all add: avail_credits_def Let_def)

lemma granted_bounds:
  "sint (granted c d s) \<le> sint d" "sint (granted c d s) \<le> sint (avail_credits c s)"
  "0 < sint d \<Longrightarrow> 0 < sint (avail_credits c s) \<Longrightarrow> 0 < sint (granted c d s)"
  by (simp_all add: granted_def)

lemma acquire_round_grant:
  assumes "writable c s" "0 < sint (avail_credits c s)"
  shows "acquire_round c d s = (AcqOK (granted c d s), spent c (granted c d s) s)"
proof -
  let ?t = "granted c d s"
  have "sint ?t \<le> sint (sf_sendCredits (flow_of s c))"
    "sn_enabled (s_flow s) \<Longrightarrow> sint ?t \<le> sint (sn_sendCredits (s_flow s))"
    using granted_bounds(2) [of c d s] avail_le(1) [of c s] avail_le(2) [of s c] by linarith+
  with assms show ?thesis
    by (cases "sn_enabled (s_flow s)")
      (simp_all add: acquire_round_def writable_def Let_def granted_def [symmetric] sn_TryDeduct_def
        sf_TryDeduct_def spent_def upd_sn_def upd_flow_def upd_ch_def not_less)
qed

lemma acquire_round_closed:
  "\<not> writable c s \<Longrightarrow> acquire_round c d s = (AcqErr ErrClosedPipe, s)"
  by (auto simp: acquire_round_def writable_def)

lemma acquire_round_wait:
  assumes "writable c s" "sint (avail_credits c s) \<le> 0"
  shows "acquire_round c d s =
    (if s_die s then (AcqErr ErrSessionClosed, s)
     else if ch_closeChan (s_objs s c) then (AcqErr ErrClosedPipe, s)
     else if sf_winNotify (flow_of s c) then (AcqRetry, upd_flow c (\<lambda>f. f\<lparr>sf_winNotify := False\<rparr>) s)
     else (AcqBlock, s))"
  using assms by (simp add: acquire_round_def writable_def Let_def)

definition no_token :: "cref \<Rightarrow> session \<Rightarrow> session" where
  "no_token c = upd_flow c (\<lambda>f. f\<lparr>sf_winNotify := False\<rparr>)"

lemma no_token_keeps [simp]:
  "writable c (no_token c s) = writable c s" "avail_credits c (no_token c s) = avail_credits c s"
  "s_die (no_token c s) = s_die s" "ch_closeChan (s_objs (no_token c s) c) = ch_closeChan (s_objs s c)"
  "sf_winNotify (flow_of (no_token c s) c) = False" "s_flow (no_token c s) = s_flow s"
  "sf_sendCredits (flow_of (no_token c s) c) = sf_sendCredits (flow_of s c)"
  by (simp_all add: no_token_def upd_flow_def upd_ch_def writable_def avail_credits_def Let_def)

text \<open>The whole of \<^verbatim>\<open>AcquireCredits\<close>, branch by branch.\<close>

lemma AcquireCredits_rounds:
  "AcquireCredits c d s =
     (if \<not> writable c s then (AcqErr ErrClosedPipe, s)
      else if 0 < sint (avail_credits c s) then (AcqOK (granted c d s), spent c (granted c d s) s)
      else if s_die s then (AcqErr ErrSessionClosed, s)
      else if ch_closeChan (s_objs s c) then (AcqErr ErrClosedPipe, s)
      else if sf_winNotify (flow_of s c) then (AcqBlock, no_token c s)
      else (AcqBlock, s))"
  by (simp add: AcquireCredits_def numeral_2_eq_2 acquire_round_closed acquire_round_grant
      acquire_round_wait not_less flip: no_token_def)

lemma spent_credits:
  assumes "0 \<le> sint t" "sint t \<le> sint (sf_sendCredits (flow_of s c))"
    "sn_enabled (s_flow s) \<Longrightarrow> sint t \<le> sint (sn_sendCredits (s_flow s))"
  shows "sint (sf_sendCredits (flow_of (spent c t s) c)) = sint (sf_sendCredits (flow_of s c)) - sint t"
    "sint (sn_sendCredits (s_flow (spent c t s))) =
       sint (sn_sendCredits (s_flow s)) - (if sn_enabled (s_flow s) then sint t else 0)"
  using assms sint_range [of "sf_sendCredits (flow_of s c)"] sint_range [of "sn_sendCredits (s_flow s)"]
  by (auto simp: spent_def upd_flow_def upd_ch_def upd_sn_def sint_diff)

text \<open>C19: \<^verbatim>\<open>AcquireCredits\<close> always comes to an end (a grant, an error or the wait).  A grant is positive,
  at most what was asked for, and exactly the amount by which both pools go down, so that no pool
  ever becomes negative; every other end leaves both pools as they were, and the writer only waits
  when a pool is empty.\<close>

theorem AcquireCredits_correct:
  assumes "0 < sint desired"
  shows "case AcquireCredits c desired s of
      (AcqOK t, s') \<Rightarrow>
        0 < sint t \<and> sint t \<le> sint desired \<and>
        sint (sf_sendCredits (flow_of s' c)) = sint (sf_sendCredits (flow_of s c)) - sint t \<and>
        0 \<le> sint (sf_sendCredits (flow_of s' c)) \<and>
        (if sn_enabled (s_flow s)
         then sint (sn_sendCredits (s_flow s')) = sint (sn_sendCredits (s_flow s)) - sint t \<and>
              0 \<le> sint (sn_sendCredits (s_flow s'))
         else sn_sendCredits (s_flow s') = sn_sendCredits (s_flow s))
    | (AcqErr e, s') \<Rightarrow> s' = s \<and> (writable c s \<longrightarrow> s_die s \<or> ch_closeChan (s_objs s c))
    | (AcqBlock, s') \<Rightarrow>
        s_flow s' = s_flow s \<and> sf_sendCredits (flow_of s' c) = sf_sendCredits (flow_of s c) \<and>
        \<not> sf_winNotify (flow_of s' c) \<and>
        (sint (sf_sendCredits (flow_of s c)) \<le> 0 \<or>
         sn_enabled (s_flow s) \<and> sint (sn_sendCredits (s_flow s)) \<le> 0)
    | (AcqRetry, s') \<Rightarrow> False"
proof -
  let ?t = "granted c desired s"
  have wait: "sint (sf_sendCredits (flow_of s c)) \<le> 0 \<or>
      sn_enabled (s_flow s) \<and> sint (sn_sendCredits (s_flow s)) \<le> 0"
    if "\<not> 0 < sint (avail_credits c s)"
    using that by (auto simp: avail_credits_def Let_def split: if_splits)
  have le: "sint ?t \<le> sint (sf_sendCredits (flow_of s c))"
    "sn_enabled (s_flow s) \<Longrightarrow> sint ?t \<le> sint (sn_sendCredits (s_flow s))"
    using granted_bounds(2) [of c desired s] avail_le(1) [of c s] avail_le(2) [of s c] by linarith+
  show ?thesis
  proof (cases "writable c s \<and> 0 < sint (avail_credits c s)")
    case True
    then have t: "0 < sint ?t" using granted_bounds(3) assms by blast
    note sp = spent_credits [OF less_imp_le [OF t] le]
    have "sn_sendCredits (s_flow (spent c ?t s)) = sn_sendCredits (s_flow s)" if "\<not> sn_enabled (s_flow s)"
      using that by (simp add: spent_def upd_flow_def upd_ch_def)
    with True t sp le granted_bounds(1) [of c desired s] show ?thesis
      by (simp add: AcquireCredits_rounds)
  next
    case False
    with wait show ?thesis by (simp add: AcquireCredits_rounds)
  qed
qed

definition blank_channel :: channel where
  "blank_channel = \<lparr>ch_id = 1, ch_ring = NewBufferRing 8, ch_notify = False, ch_waiting = False,
     ch_readMu = False, ch_writeMu = False, ch_flow = NewStreamFlow 1 1000, ch_closeOnce = False,
     ch_closeChan = False, ch_drainOnce = False, ch_closed = False, ch_readDone = False,
     ch_drainable = False, ch_writeClosed = False, ch_finQueued = False, ch_resetByPeer = False,
     ch_lastRst = 0, ch_closeTimer = None, ch_writeOnce = False, ch_finalizeOnce = False,
     ch_done = False, ch_writeOffset = 0, ch_readOffset = 0, ch_unacked = [],
     ch_reorderMap = Some [], ch_finOffset = 0, ch_hasFin = False, ch_inARQ = False,
     ch_ackOffset = 0, ch_ackPending = False, ch_ackTimer = None, ch_inOrderPackets = 0,
     ch_finDeferred = False, ch_finalWait = False, ch_feedMu = False\<rparr>"

text \<open>A session with one open channel of window 1000 and the default session window.\<close>

definition sample_session :: session where
  "sample_session =
     (NewSessionWithID (\<lambda>_. blank_channel) (\<lambda>_. zero_u) 0 (Some 0) None [])\<lparr>s_channels := [(1, 0)], s_nextObj := 1\<rparr>"

lemma sample_config: "s_config sample_session = session_config None"
  by (simp add: sample_session_def NewSessionWithID_def Let_def)

lemma session_config_None:
  "session_config None = DefaultConfig\<lparr>MaxPendingEarlyBytesPerSession := 262144\<rparr>"
proof -
  have 1: "fill_frame DefaultConfig = DefaultConfig"
    by (rule fill_frame_id) (simp_all add: DefaultConfig_def default_defs)
  have 2: "fill_buffers DefaultConfig = DefaultConfig"
    by (rule fill_buffers_id) (simp_all add: DefaultConfig_def default_defs)
  have 3: "fill_pending DefaultConfig = DefaultConfig\<lparr>MaxPendingEarlyBytesPerSession := 262144\<rparr>"
    by (simp add: fill_pending_def early_budget_def DefaultConfig_def default_defs Let_def)
  have 4: "fill_times (DefaultConfig\<lparr>MaxPendingEarlyBytesPerSession := 262144\<rparr>) =
      DefaultConfig\<lparr>MaxPendingEarlyBytesPerSession := 262144\<rparr>"
    by (rule fill_times_id) (simp_all add: DefaultConfig_def default_defs)
  show ?thesis by (simp add: session_config_def 1 2 3 4)
qed

lemma session_config_None_values:
  "MaxFrameDataSize (session_config None) = 32768" "InitialSessionWindow (session_config None) = 4194304"
  "Reliability (session_config None) = False" "MaxWriteBufferSize (session_config None) = 32"
  by (simp_all add: session_config_None DefaultConfig_def default_defs)

lemma sample_credits:
  "sf_sendCredits (flow_of sample_session 0) = 1000" "sf_threshold (flow_of sample_session 0) = 250"
  "sf_consumed (flow_of sample_session 0) = 0" "sf_unflushed (flow_of sample_session 0) = 0"
  "sf_updPending (flow_of sample_session 0) = False"
  "sn_enabled (s_flow sample_session)" "sn_sendCredits (s_flow sample_session) = 4194304"
  "s_objs sample_session = (\<lambda>_. blank_channel)" "\<not> s_closed sample_session"
  by (simp_all add: sample_session_def NewSessionWithID_def Let_def blank_channel_def NewStreamFlow_def
      NewSessionFlow_def session_config_None_values DefaultWindowUpdateRatio_def)

theorem AcquireCredits_correct_witness:
  "\<exists>t s'. AcquireCredits 0 3000 sample_session = (AcqOK t, s') \<and> 0 < sint t \<and> sint t \<le> 3000 \<and>
     sint (sf_sendCredits (flow_of s' 0)) = 1000 - sint t \<and>
     sint (sn_sendCredits (s_flow s')) = 4194304 - sint t"
proof -
  have "writable 0 sample_session"
    by (simp add: writable_def sample_credits blank_channel_def)
  moreover have "0 < sint (avail_credits 0 sample_session)"
    using sample_credits(1,6,7) by (simp add: avail_credits_def Let_def)
  ultimately obtain t s' where "AcquireCredits 0 3000 sample_session = (AcqOK t, s')"
    by (simp add: AcquireCredits_rounds)
  then show ?thesis
    using AcquireCredits_correct [of 3000 0 sample_session] sample_credits(1,6,7) by simp
qed

section \<open>Announcing consumed bytes\<close>

text \<open>What the receiving side keeps about a channel's credit: less than a threshold is kept back, and
  credit that is waiting to be announced has its window update queued.\<close>

definition upd_queued :: "cref \<Rightarrow> session \<Rightarrow> bool" where
  "upd_queued c s \<longleftrightarrow>
     list_ex (\<lambda>f. wf_streamFlow f = Some c)
       (ws_ctrlQueue (s_writer s) @ ws_asyncCtrl (s_writer s))"

definition flow_inv :: "cref \<Rightarrow> session \<Rightarrow> bool" where
  "flow_inv c s \<longleftrightarrow>
     (let f = flow_of s c in
      0 \<le> sint (sf_consumed f) \<and> sint (sf_consumed f) < sint (sf_threshold f) \<and>
      (\<not> s_closed s \<and> \<not> s_die s \<longrightarrow>
         (sf_unflushed f \<noteq> 0 \<longrightarrow> sf_updPending f) \<and> (sf_updPending f \<longrightarrow> upd_queued c s)))"

lemma writeControl_fields [simp]:
  "s_objs (snd (writeControlFrameNonBlocking f s)) = s_objs s"
  "s_flow (snd (writeControlFrameNonBlocking f s)) = s_flow s"
  "s_channels (snd (writeControlFrameNonBlocking f s)) = s_channels s"
  "s_closed (snd (writeControlFrameNonBlocking f s)) = s_closed s"
  "s_die (snd (writeControlFrameNonBlocking f s)) = s_die s"
  "s_config (snd (writeControlFrameNonBlocking f s)) = s_config s"
  "s_now (snd (writeControlFrameNonBlocking f s)) = s_now s"
  "s_panic (snd (writeControlFrameNonBlocking f s)) = s_panic s"
  by (simp_all add: writeControlFrameNonBlocking_def push_ctrl_def upd_ws_def)

lemma writeControl_cases:
  "fst (writeControlFrameNonBlocking f s) \<longleftrightarrow> \<not> s_closed s \<and> \<not> s_die s"
  "upd_queued c s \<Longrightarrow> upd_queued c (snd (writeControlFrameNonBlocking f s))"
  "\<not> s_closed s \<Longrightarrow> \<not> s_die s \<Longrightarrow> wf_streamFlow f = Some c \<Longrightarrow>
   upd_queued c (snd (writeControlFrameNonBlocking f s))"
  by (auto simp: writeControlFrameNonBlocking_def push_ctrl_def upd_ws_def upd_queued_def)

lemma upd_flow_fields [simp]:
  "s_flow (upd_flow c g s) = s_flow s" "s_closed (upd_flow c g s) = s_closed s"
  "s_die (upd_flow c g s) = s_die s" "s_writer (upd_flow c g s) = s_writer s"
  "s_channels (upd_flow c g s) = s_channels s" "s_config (upd_flow c g s) = s_config s"
  "flow_of (upd_flow c g s) c = g (flow_of s c)" "upd_queued d (upd_flow c g s) = upd_queued d s"
  by (simp_all add: upd_flow_def upd_ch_def upd_queued_def)

lemma upd_flow_other [simp]: "d \<noteq> c \<Longrightarrow> s_objs (upd_flow c g s) d = s_objs s d"
  by (simp add: upd_flow_def upd_ch_def)

lemma upd_sn_fields [simp]:
  "s_objs (upd_sn g s) = s_objs s" "s_closed (upd_sn g s) = s_closed s" "s_die (upd_sn g s) = s_die s"
  "s_writer (upd_sn g s) = s_writer s" "s_channels (upd_sn g s) = s_channels s"
  "s_config (upd_sn g s) = s_config s" "s_flow (upd_sn g s) = g (s_flow s)"
  "upd_queued d (upd_sn g s) = upd_queued d s"
  by (simp_all add: upd_sn_def upd_queued_def)

lemma sn_flushUpdate_fields [simp]:
  "s_objs (sn_flushUpdate s) = s_objs s" "s_closed (sn_flushUpdate s) = s_closed s"
  "s_die (sn_flushUpdate s) = s_die s" "s_channels (sn_flushUpdate s) = s_channels s"
  "s_config (sn_flushUpdate s) = s_config s"
  "upd_queued d s \<Longrightarrow> upd_queued d (sn_flushUpdate s)"
  by (simp_all add: sn_flushUpdate_def Let_def case_prod_beta writeControl_cases)

lemma sn_OnRead_fields [simp]:
  "s_objs (sn_OnRead n s) = s_objs s" "s_closed (sn_OnRead n s) = s_closed s"
  "s_die (sn_OnRead n s) = s_die s" "s_channels (sn_OnRead n s) = s_channels s"
  "s_config (sn_OnRead n s) = s_config s" "upd_queued d s \<Longrightarrow> upd_queued d (sn_OnRead n s)"
  by (simp_all add: sn_OnRead_def Let_def)

lemma sf_flushUpdate_flow:
  assumes "0 < sint (sf_consumed (flow_of s c))"
  shows "flow_of (sf_flushUpdate c s) c =
      (flow_of s c)\<lparr>sf_consumed := 0, sf_unflushed := sf_unflushed (flow_of s c) + sf_consumed (flow_of s c),
         sf_updPending := sf_updPending (flow_of s c) \<or> \<not> s_closed s \<and> \<not> s_die s\<rparr>"
  using assms by (simp add: sf_flushUpdate_def Let_def case_prod_beta writeControl_cases)

lemma sf_flushUpdate_fields [simp]:
  "s_flow (sf_flushUpdate c s) = s_flow s" "s_closed (sf_flushUpdate c s) = s_closed s"
  "s_die (sf_flushUpdate c s) = s_die s" "s_channels (sf_flushUpdate c s) = s_channels s"
  "s_config (sf_flushUpdate c s) = s_config s"
  "d \<noteq> c \<Longrightarrow> s_objs (sf_flushUpdate c s) d = s_objs s d"
  "upd_queued d s \<Longrightarrow> upd_queued d (sf_flushUpdate c s)"
  by (simp_all add: sf_flushUpdate_def Let_def case_prod_beta writeControl_cases)

lemma sf_flushUpdate_queued:
  assumes "0 < sint (sf_consumed (flow_of s c))" "\<not> s_closed s" "\<not> s_die s"
    "sf_updPending (flow_of s c) \<longrightarrow> upd_queued c s"
  shows "upd_queued c (sf_flushUpdate c s)"
  using assms by (simp add: sf_flushUpdate_def Let_def case_prod_beta writeControl_cases)

text \<open>Reading \<open>n\<close> bytes from a channel keeps the receiving side's books: the credit kept back plus
  the credit waiting to be announced grows by exactly \<open>n\<close>, less than a threshold is kept back, and
  on a live session credit waiting to be announced always has a window update in the control queue.\<close>

lemma OnRead_keeps_credit:
  assumes "flow_inv c s" "0 < n" "sint (sf_consumed (flow_of s c)) + n \<le> i32_max"
  shows "flow_inv c (sf_OnRead c n s) \<and>
    sf_consumed (flow_of (sf_OnRead c n s) c) + sf_unflushed (flow_of (sf_OnRead c n s) c) =
      sf_consumed (flow_of s c) + sf_unflushed (flow_of s c) + word_of_int n"
proof -
  let ?f = "flow_of s c"
  define s1 where "s1 = upd_flow c (\<lambda>f. f\<lparr>sf_consumed := sf_consumed f + word_of_int n\<rparr>) s"
  define s2 where "s2 = (if sint (sf_threshold (flow_of s1 c)) \<le> sint (sf_consumed (flow_of s1 c))
    then sf_flushUpdate c s1 else s1)"
  have n: "sint (word_of_int n :: i32) = n"
    using assms by (intro sint_of_int) (simp_all add: i32_max_def flow_inv_def Let_def)
  have c1: "sint (sf_consumed (flow_of s1 c)) = sint (sf_consumed ?f) + n"
    using assms n by (simp add: s1_def sint_add i32_max_def flow_inv_def Let_def)
  have pos: "0 < sint (sf_consumed (flow_of s1 c))"
    using assms c1 by (simp add: flow_inv_def Let_def)
  have q: "sf_updPending (flow_of s1 c) \<longrightarrow> upd_queued c s1" if "\<not> s_closed s" "\<not> s_die s"
    using assms that by (simp add: s1_def flow_inv_def Let_def)
  have 2: "flow_inv c s2" "sf_consumed (flow_of s2 c) + sf_unflushed (flow_of s2 c) =
      sf_consumed ?f + sf_unflushed ?f + word_of_int n"
    using assms(1) c1 pos q sf_flushUpdate_queued [of s1 c]
    by (auto simp: s2_def flow_inv_def Let_def sf_flushUpdate_flow) (auto simp: s1_def)
  have "sf_OnRead c n s = (if sn_enabled (s_flow s2) then sn_OnRead (word_of_int n) s2 else s2)"
    using assms by (simp add: sf_OnRead_def s1_def s2_def Let_def)
  with 2 show ?thesis by (simp add: flow_inv_def Let_def)
qed

lemma sample_flow_inv: "flow_inv 0 sample_session"
  using sample_credits(2,3,4,5) by (simp add: flow_inv_def Let_def)

lemma OnRead_keeps_credit_example:
  "flow_inv 0 (sf_OnRead 0 300 sample_session) \<and>
   sf_consumed (flow_of (sf_OnRead 0 300 sample_session) 0) +
     sf_unflushed (flow_of (sf_OnRead 0 300 sample_session) 0) = 300"
  using OnRead_keeps_credit [OF sample_flow_inv, of 300] sample_credits(3,4) by (simp add: i32_max_def)

section \<open>The two pools\<close>

datatype pool_op = Pool_Deduct (pool_amount: i32) | Pool_Add (pool_amount: i32)

fun pool_added :: "pool_op list \<Rightarrow> int" where
  "pool_added [] = 0"
| "pool_added (Pool_Add n # ops) = sint n + pool_added ops"
| "pool_added (Pool_Deduct n # ops) = pool_added ops"

text \<open>What all deductions together took, and the state after.\<close>

fun pool_run :: "(i32 \<Rightarrow> 's \<Rightarrow> bool \<times> 's) \<Rightarrow> (i32 \<Rightarrow> 's \<Rightarrow> 's) \<Rightarrow> pool_op list \<Rightarrow> 's \<Rightarrow> int \<times> 's" where
  "pool_run deduct add [] s = (0, s)"
| "pool_run deduct add (Pool_Add n # ops) s = pool_run deduct add ops (add n s)"
| "pool_run deduct add (Pool_Deduct n # ops) s =
     (case deduct n s of
        (took, s1) \<Rightarrow> (case pool_run deduct add ops s1 of (t, s2) \<Rightarrow> ((if took then sint n else 0) + t, s2)))"

lemma pool_added_nonneg: "list_all (\<lambda>op. 0 < sint (pool_amount op)) ops \<Longrightarrow> 0 \<le> pool_added ops"
  by (induction ops rule: pool_added.induct) auto

lemma sint_deduct: "0 \<le> sint n \<Longrightarrow> sint n \<le> sint x \<Longrightarrow> sint (x - n) = sint x - sint n" for n x :: i32
  using sint_range [of x] by (simp add: sint_diff)

lemma sn_Refund_eq: "sn_Refund = sn_AddCredits"
  by (simp add: fun_eq_iff sn_Refund_def sn_AddCredits_def)

lemma AddCredits_other:
  "s_flow (sf_AddCredits c delta s) = s_flow s"
  "sf_sendCredits (flow_of (sn_AddCredits delta s) d) = sf_sendCredits (flow_of s d)"
  by (simp_all add: sf_AddCredits_def sn_AddCredits_def wakeWaitingChannels_objs)

text \<open>The contract that the channel's pool and the session's pool share: a deduction takes the amount
  when it is there and changes nothing otherwise, an update adds it, and the balance is read as a
  signed number.\<close>

locale credit_pool =
  fixes deduct :: "i32 \<Rightarrow> 's \<Rightarrow> bool \<times> 's" and add :: "i32 \<Rightarrow> 's \<Rightarrow> 's" and bal :: "'s \<Rightarrow> int"
  assumes deduct_some: "0 \<le> sint n \<Longrightarrow> sint n \<le> bal s \<Longrightarrow> \<exists>s'. deduct n s = (True, s') \<and> bal s' = bal s - sint n"
    and deduct_none: "bal s < sint n \<Longrightarrow> deduct n s = (False, s)"
    and add_some: "0 < sint n \<Longrightarrow> 0 \<le> bal s \<Longrightarrow> bal s + sint n \<le> i32_max \<Longrightarrow> bal (add n s) = bal s + sint n"
begin

text \<open>Whatever is deducted and added, in any order, the balance is what it was, plus all that was added,
  minus all that was taken, and no deduction makes it negative.\<close>

lemma run_conserves:
  assumes "list_all (\<lambda>op. 0 < sint (pool_amount op)) ops" "0 \<le> bal s" "bal s + pool_added ops \<le> i32_max"
    "pool_run deduct add ops s = (tk, s')"
  shows "bal s' = bal s + pool_added ops - tk \<and> 0 \<le> bal s' \<and> 0 \<le> tk"
  using assms
proof (induction ops arbitrary: s tk)
  case (Cons op ops)
  have nn: "0 \<le> pool_added ops" using Cons.prems(1) by (intro pool_added_nonneg) simp
  show ?case
  proof (cases op)
    case (Pool_Add n)
    have "bal (add n s) = bal s + sint n" using Cons.prems nn Pool_Add by (intro add_some) simp_all
    with Cons.IH [of "add n s" tk] Cons.prems Pool_Add show ?thesis by simp
  next
    case (Pool_Deduct n)
    show ?thesis
    proof (cases "sint n \<le> bal s")
      case True
      obtain s1 where s1: "deduct n s = (True, s1)" "bal s1 = bal s - sint n"
        using deduct_some [OF _ True] Cons.prems(1) Pool_Deduct by auto
      obtain t where "pool_run deduct add ops s1 = (t, s')" "tk = sint n + t"
        using Cons.prems(4) Pool_Deduct s1(1) by (auto split: prod.splits)
      with Cons.IH [of s1 t] Cons.prems True s1(2) Pool_Deduct show ?thesis by auto
    next
      case False
      then show ?thesis using Cons.IH [of s tk] Cons.prems Pool_Deduct deduct_none [of s n] by simp
    qed
  qed
qed simp

end

interpretation chan: credit_pool "sf_TryDeduct c" "sf_AddCredits c" "\<lambda>s. sint (sf_sendCredits (flow_of s c))" for c
  by unfold_locales
    (auto simp: sf_TryDeduct_def sf_AddCredits_def WakeWriter_def Let_def sint_deduct sint_add i32_max_def)

interpretation sess: credit_pool sn_TryDeduct sn_AddCredits "\<lambda>s. sint (sn_sendCredits (s_flow s))"
  by unfold_locales (auto simp: sn_TryDeduct_def sn_AddCredits_def Let_def sint_deduct sint_add i32_max_def)

text \<open>A refund to the session's pool is the same addition.\<close>

interpretation refund: credit_pool sn_TryDeduct sn_Refund "\<lambda>s. sint (sn_sendCredits (s_flow s))"
  using sess.credit_pool_axioms by (simp add: sn_Refund_eq)

section \<open>Waking a blocked writer\<close>

lemma blocked_writable:
  "AcquireCredits c d s = (AcqBlock, s1) \<Longrightarrow>
   writable c s \<and> writable c s1 \<and> s_flow s1 = s_flow s \<and> s_channels s1 = s_channels s \<and>
   sf_sendCredits (flow_of s1 c) = sf_sendCredits (flow_of s c) \<and>
   \<not> s_die s1 \<and> \<not> ch_closeChan (s_objs s1 c)"
  by (auto simp: AcquireCredits_rounds split: if_splits)
    (simp add: no_token_def)

lemma granted_when_open:
  assumes "writable c s" "0 < sint (sf_sendCredits (flow_of s c))"
    "sn_enabled (s_flow s) \<longrightarrow> 0 < sint (sn_sendCredits (s_flow s))"
  shows "AcquireCredits c d s = (AcqOK (granted c d s), spent c (granted c d s) s)"
proof -
  have "0 < sint (avail_credits c s)" using assms by (simp add: avail_credits_def Let_def)
  with assms show ?thesis by (simp add: AcquireCredits_rounds)
qed

text \<open>C24: A writer that waits for credit is woken by the window update it waits for.  When a stream update
  reaches a channel with an empty pool while the session's pool has credit, or a session update
  reaches a session with an empty pool while the channel has credit, and the sum is still an
  \<^verbatim>\<open>int32\<close>, then the writer's wake-up token is set and its next round is granted credit.\<close>

theorem update_unblocks_writer:
  assumes "AcquireCredits c d s = (AcqBlock, s1)" "0 < sint delta"
    and "s2 = sf_AddCredits c delta s1 \<and> 0 \<le> sint (sf_sendCredits (flow_of s c)) \<and>
        sint (sf_sendCredits (flow_of s c)) + sint delta \<le> i32_max \<and>
        (sn_enabled (s_flow s) \<longrightarrow> 0 < sint (sn_sendCredits (s_flow s))) \<or>
      s2 = sn_AddCredits delta s1 \<and> c \<in> snd ` set (s_channels s) \<and> 0 < sint (sf_sendCredits (flow_of s c)) \<and>
        0 \<le> sint (sn_sendCredits (s_flow s)) \<and> sint (sn_sendCredits (s_flow s)) + sint delta \<le> i32_max"
  shows "sf_winNotify (flow_of s2 c) \<and> (\<exists>s3. AcquireCredits c d s2 = (AcqOK (granted c d s2), s3))"
proof -
  note b = blocked_writable [OF assms(1)]
  have keep: "writable c s2" "sn_enabled (s_flow s2) = sn_enabled (s_flow s)" "sf_winNotify (flow_of s2 c)"
    using assms(2) b
    by (rule_tac [!] disjE [OF assms(3)])
      (simp_all add: sf_AddCredits_def sn_AddCredits_def writable_def WakeWriter_objs
        wakeWaitingChannels_objs upd_flow_def upd_ch_def)
  have "0 < sint (sf_sendCredits (flow_of s2 c))" "sn_enabled (s_flow s) \<longrightarrow> 0 < sint (sn_sendCredits (s_flow s2))"
    using assms(2,3) b chan.add_some [of delta s1 c] sess.add_some [of delta s1]
    by (auto simp: AddCredits_other)
  then show ?thesis using granted_when_open [OF keep(1)] keep(2,3) by simp
qed

theorem update_unblocks_writer_witness:
  "\<exists>s1 s3. AcquireCredits 0 10 (upd_flow 0 (\<lambda>f. f\<lparr>sf_sendCredits := 0\<rparr>) sample_session) = (AcqBlock, s1) \<and>
     sf_winNotify (flow_of (sf_AddCredits 0 250 s1) 0) \<and>
     AcquireCredits 0 10 (sf_AddCredits 0 250 s1) = (AcqOK (granted 0 10 (sf_AddCredits 0 250 s1)), s3)"
proof -
  let ?s = "upd_flow 0 (\<lambda>f. f\<lparr>sf_sendCredits := 0\<rparr>) sample_session"
  have w: "writable 0 ?s" "\<not> s_die ?s" "\<not> ch_closeChan (s_objs ?s 0)" "\<not> sf_winNotify (flow_of ?s 0)"
    "avail_credits 0 ?s = 0" "s_flow ?s = s_flow sample_session"
    using sample_credits(6-9)
    by (simp_all add: writable_def upd_flow_def upd_ch_def blank_channel_def NewStreamFlow_def Let_def
        avail_credits_def) (simp add: sample_session_def NewSessionWithID_def Let_def)
  then have b: "AcquireCredits 0 10 ?s = (AcqBlock, ?s)" by (simp add: AcquireCredits_rounds)
  moreover have "sf_sendCredits (flow_of (sf_AddCredits 0 250 ?s) 0) = 250"
    "s_flow (sf_AddCredits 0 250 ?s) = s_flow sample_session"
    by (simp_all add: sf_AddCredits_def WakeWriter_objs)
  moreover have "sf_sendCredits (flow_of ?s 0) = 0" by simp
  ultimately show ?thesis
    using update_unblocks_writer [OF b, of 250 "sf_AddCredits 0 250 ?s"] sample_credits(7) w(6)
    by (auto simp: i32_max_def)
qed

end
