(* ===== verification/Flow_Steps.thy ===== *)
theory Flow_Steps
  imports Flow
begin

text \<open>
  Flow control under interference (\<^verbatim>\<open>src/flow.go\<close>): the atomic loads, compare-and-swaps and
  additions of \<^verbatim>\<open>AcquireCredits\<close>, \<^verbatim>\<open>TryDeduct\<close>, \<^verbatim>\<open>Refund\<close>, \<^verbatim>\<open>AddCredits\<close>, \<^verbatim>\<open>OnRead\<close> and \<^verbatim>\<open>flushUpdate\<close>,
  and the part of \<^verbatim>\<open>compactAndResolveControlFrames\<close> (\<^verbatim>\<open>src/write_scheduler.go\<close>) that resolves a
  window update, as steps of any number of goroutines.  The pools and counters are the \<^verbatim>\<open>int32\<close>s of
  the code, with its wrap-around; the totals of credit granted, sent, read, announced and
  lost are not variables of the code and are integers.
\<close>

lemma i32_take: "0 \<le> sint k \<Longrightarrow> sint k \<le> sint x \<Longrightarrow> sint (x - k) = sint x - sint k" for x k :: i32
  using sint_range [of x] by (simp add: sint_diff)

lemma i32_put:
  "0 \<le> sint x \<Longrightarrow> 0 \<le> sint k \<Longrightarrow> sint x + sint k \<le> i32_max \<Longrightarrow> sint (x + k) = sint x + sint k" for x k :: i32
  by (simp add: sint_add i32_max_def)

section \<open>Spending credits\<close>

text \<open>Where a writer stands in \<^verbatim>\<open>AcquireCredits\<close>: about to load the channel's pool; holding that value;
  in the session's \<^verbatim>\<open>TryDeduct\<close> before and after its load; in the channel's \<^verbatim>\<open>TryDeduct\<close>; about to
  give the session its share back; holding a grant; and half-way through \<^verbatim>\<open>Refund\<close>.\<close>

datatype wpc =
    W_Idle
  | W_Loop i32
  | W_HaveC i32 i32
  | W_STry i32 i32
  | W_SCas i32 i32 i32
  | W_CTry i32 i32
  | W_CCas i32 i32 i32
  | W_Back i32 i32
  | W_Held i32
  | W_RefS i32

text \<open>The two kinds of pool, the writers, and the totals: \<open>cs_sentS\<close> and \<open>cs_sentC\<close> the bytes handed to the
  write queue, \<open>cs_grantS\<close> and \<open>cs_grantC\<close> the initial windows and all updates.\<close>

record credit_state =
  cs_sess :: i32
  cs_chan :: "nat \<Rightarrow> i32"
  cs_pc :: "nat \<Rightarrow> wpc"
  cs_sentS :: int
  cs_sentC :: "nat \<Rightarrow> int"
  cs_grantS :: int
  cs_grantC :: "nat \<Rightarrow> int"

definition goto :: "nat \<Rightarrow> wpc \<Rightarrow> credit_state \<Rightarrow> credit_state" where
  "goto t p st = st\<lparr>cs_pc := (cs_pc st)(t := p)\<rparr>"

definition add_sess :: "i32 \<Rightarrow> credit_state \<Rightarrow> credit_state" where
  "add_sess k st = st\<lparr>cs_sess := cs_sess st + k\<rparr>"

definition add_chan :: "nat \<Rightarrow> i32 \<Rightarrow> credit_state \<Rightarrow> credit_state" where
  "add_chan c k st = st\<lparr>cs_chan := (cs_chan st)(c := cs_chan st c + k)\<rparr>"

definition credit_init :: "i32 \<Rightarrow> (nat \<Rightarrow> i32) \<Rightarrow> credit_state" where
  "credit_init w v = \<lparr>cs_sess = w, cs_chan = v, cs_pc = (\<lambda>_. W_Idle), cs_sentS = 0,
     cs_sentC = (\<lambda>_. 0), cs_grantS = sint w, cs_grantC = sint \<circ> v\<rparr>"

text \<open>The smaller of the channel's value \<open>a\<close>, loaded before, and the session's, which is \<open>1 << 30\<close>
  without session flow control; and the amount asked for, cut to what is available.\<close>

definition avail_of :: "bool \<Rightarrow> i32 \<Rightarrow> credit_state \<Rightarrow> i32" where
  "avail_of en a st = (let s = (if en then cs_sess st else 1073741824) in if sint s < sint a then s else a)"

definition take_of :: "i32 \<Rightarrow> i32 \<Rightarrow> i32" where
  "take_of d avail = (if sint d > sint avail then avail else d)"

text \<open>\<open>n\<close> writers; writer \<open>t\<close> writes to channel \<open>ch t\<close>; \<open>en\<close>: session flow control is enabled.  The peer
  may grant credit at any time, in positive amounts, as long as it has at most \<open>i32_max\<close> bytes
  granted and not yet used; a peer that announces only what it has read never has more than the initial
  window outstanding.\<close>

inductive credit_step :: "bool \<Rightarrow> nat \<Rightarrow> (nat \<Rightarrow> nat) \<Rightarrow> credit_state \<Rightarrow> credit_state \<Rightarrow> bool" for en n ch where
  start: "t < n \<Longrightarrow> cs_pc st t = W_Idle \<Longrightarrow> 0 < sint d \<Longrightarrow> credit_step en n ch st (goto t (W_Loop d) st)"
| closed: "t < n \<Longrightarrow> cs_pc st t = W_Loop d \<Longrightarrow> credit_step en n ch st (goto t W_Idle st)"
| load_c: "t < n \<Longrightarrow> cs_pc st t = W_Loop d \<Longrightarrow>
    credit_step en n ch st (goto t (W_HaveC d (cs_chan st (ch t))) st)"
| wait: "t < n \<Longrightarrow> cs_pc st t = W_HaveC d a \<Longrightarrow> sint (avail_of en a st) \<le> 0 \<Longrightarrow>
    credit_step en n ch st (goto t (W_Loop d) st)"
| wait_closed: "t < n \<Longrightarrow> cs_pc st t = W_HaveC d a \<Longrightarrow> sint (avail_of en a st) \<le> 0 \<Longrightarrow>
    credit_step en n ch st (goto t W_Idle st)"
| pick: "t < n \<Longrightarrow> cs_pc st t = W_HaveC d a \<Longrightarrow> 0 < sint (avail_of en a st) \<Longrightarrow> k = take_of d (avail_of en a st) \<Longrightarrow>
    credit_step en n ch st (goto t (if en then W_STry d k else W_CTry d k) st)"
| s_short: "t < n \<Longrightarrow> cs_pc st t = W_STry d k \<Longrightarrow> sint (cs_sess st) < sint k \<Longrightarrow>
    credit_step en n ch st (goto t (W_Loop d) st)"
| s_load: "t < n \<Longrightarrow> cs_pc st t = W_STry d k \<Longrightarrow> sint k \<le> sint (cs_sess st) \<Longrightarrow>
    credit_step en n ch st (goto t (W_SCas d k (cs_sess st)) st)"
| s_cas: "t < n \<Longrightarrow> cs_pc st t = W_SCas d k x \<Longrightarrow> cs_sess st = x \<Longrightarrow>
    credit_step en n ch st (goto t (W_CTry d k) (add_sess (- k) st))"
| s_lost: "t < n \<Longrightarrow> cs_pc st t = W_SCas d k x \<Longrightarrow> cs_sess st \<noteq> x \<Longrightarrow>
    credit_step en n ch st (goto t (W_STry d k) st)"
| c_short: "t < n \<Longrightarrow> cs_pc st t = W_CTry d k \<Longrightarrow> sint (cs_chan st (ch t)) < sint k \<Longrightarrow>
    credit_step en n ch st (goto t (if en then W_Back d k else W_Loop d) st)"
| c_load: "t < n \<Longrightarrow> cs_pc st t = W_CTry d k \<Longrightarrow> sint k \<le> sint (cs_chan st (ch t)) \<Longrightarrow>
    credit_step en n ch st (goto t (W_CCas d k (cs_chan st (ch t))) st)"
| c_cas: "t < n \<Longrightarrow> cs_pc st t = W_CCas d k x \<Longrightarrow> cs_chan st (ch t) = x \<Longrightarrow>
    credit_step en n ch st (goto t (W_Held k) (add_chan (ch t) (- k) st))"
| c_lost: "t < n \<Longrightarrow> cs_pc st t = W_CCas d k x \<Longrightarrow> cs_chan st (ch t) \<noteq> x \<Longrightarrow>
    credit_step en n ch st (goto t (W_CTry d k) st)"
| giveback: "t < n \<Longrightarrow> cs_pc st t = W_Back d k \<Longrightarrow>
    credit_step en n ch st (goto t (W_Loop d) (add_sess k st))"
| sent: "t < n \<Longrightarrow> cs_pc st t = W_Held k \<Longrightarrow>
    credit_step en n ch st (goto t W_Idle (st\<lparr>cs_sentS := cs_sentS st + sint k,
      cs_sentC := (cs_sentC st)(ch t := cs_sentC st (ch t) + sint k)\<rparr>))"
| refund_c: "t < n \<Longrightarrow> cs_pc st t = W_Held k \<Longrightarrow>
    credit_step en n ch st (goto t (if en then W_RefS k else W_Idle) (add_chan (ch t) k st))"
| refund_s: "t < n \<Longrightarrow> cs_pc st t = W_RefS k \<Longrightarrow>
    credit_step en n ch st (goto t W_Idle (add_sess k st))"
| grant_c: "0 < sint x \<Longrightarrow> cs_grantC st c + sint x - cs_sentC st c \<le> i32_max \<Longrightarrow>
    credit_step en n ch st ((add_chan c x st)\<lparr>cs_grantC := (cs_grantC st)(c := cs_grantC st c + sint x)\<rparr>)"
| grant_s: "0 < sint x \<Longrightarrow> cs_grantS st + sint x - cs_sentS st \<le> i32_max \<Longrightarrow>
    credit_step en n ch st ((add_sess x st)\<lparr>cs_grantS := cs_grantS st + sint x\<rparr>)"

abbreviation credit_reach :: "bool \<Rightarrow> nat \<Rightarrow> (nat \<Rightarrow> nat) \<Rightarrow> i32 \<Rightarrow> (nat \<Rightarrow> i32) \<Rightarrow> credit_state \<Rightarrow> bool" where
  "credit_reach en n ch w v \<equiv> (credit_step en n ch)\<^sup>*\<^sup>* (credit_init w v)"

text \<open>What a writer holds of the session's and of its channel's pool.\<close>

fun held_s :: "wpc \<Rightarrow> int" where
  "held_s (W_CTry d k) = sint k"
| "held_s (W_CCas d k x) = sint k"
| "held_s (W_Back d k) = sint k"
| "held_s (W_Held k) = sint k"
| "held_s (W_RefS k) = sint k"
| "held_s p = 0"

fun held_c :: "wpc \<Rightarrow> int" where
  "held_c (W_Held k) = sint k"
| "held_c p = 0"

fun pc_ok :: "wpc \<Rightarrow> bool" where
  "pc_ok W_Idle = True"
| "pc_ok (W_Loop d) = (0 < sint d)"
| "pc_ok (W_HaveC d a) = (0 < sint d)"
| "pc_ok (W_STry d k) = (0 < sint d \<and> 0 < sint k)"
| "pc_ok (W_SCas d k x) = (0 < sint d \<and> 0 < sint k \<and> sint k \<le> sint x)"
| "pc_ok (W_CTry d k) = (0 < sint d \<and> 0 < sint k)"
| "pc_ok (W_CCas d k x) = (0 < sint d \<and> 0 < sint k \<and> sint k \<le> sint x)"
| "pc_ok (W_Back d k) = (0 < sint d \<and> 0 < sint k)"
| "pc_ok (W_Held k) = (0 < sint k)"
| "pc_ok (W_RefS k) = (0 < sint k)"

definition total_s :: "nat \<Rightarrow> (nat \<Rightarrow> wpc) \<Rightarrow> int" where
  "total_s n f = (\<Sum>t<n. held_s (f t))"

definition total_c :: "nat \<Rightarrow> (nat \<Rightarrow> nat) \<Rightarrow> nat \<Rightarrow> (nat \<Rightarrow> wpc) \<Rightarrow> int" where
  "total_c n ch c f = (\<Sum>t<n. if ch t = c then held_c (f t) else 0)"

definition credit_inv :: "bool \<Rightarrow> nat \<Rightarrow> (nat \<Rightarrow> nat) \<Rightarrow> credit_state \<Rightarrow> bool" where
  "credit_inv en n ch st \<longleftrightarrow>
     (\<forall>t. pc_ok (cs_pc st t)) \<and>
     (en \<longrightarrow> 0 \<le> sint (cs_sess st) \<and>
        sint (cs_sess st) + total_s n (cs_pc st) + cs_sentS st = cs_grantS st \<and>
        cs_grantS st - cs_sentS st \<le> i32_max) \<and>
     (\<forall>c. 0 \<le> sint (cs_chan st c) \<and>
        sint (cs_chan st c) + total_c n ch c (cs_pc st) + cs_sentC st c = cs_grantC st c \<and>
        cs_grantC st c - cs_sentC st c \<le> i32_max)"

lemma sum_upd:
  fixes g :: "'a \<Rightarrow> int"
  assumes "t < (n :: nat)"
  shows "(\<Sum>i<n. g ((f(t := p)) i)) = (\<Sum>i<n. g (f i)) - g (f t) + g p"
proof -
  have "(\<Sum>i<n. g ((f(t := p)) i)) = g p + (\<Sum>i\<in>{..<n} - {t}. g ((f(t := p)) i))"
    using assms by (subst sum.remove [of _ t]) simp_all
  also have "(\<Sum>i\<in>{..<n} - {t}. g ((f(t := p)) i)) = (\<Sum>i\<in>{..<n} - {t}. g (f i))"
    by (rule sum.cong) simp_all
  also have "\<dots> = (\<Sum>i<n. g (f i)) - g (f t)"
    using assms by (subst sum.remove [of "{..<n}" t]) simp_all
  finally show ?thesis by simp
qed

lemma total_s_upd:
  "t < n \<Longrightarrow> total_s n (f(t := p)) = total_s n f - held_s (f t) + held_s p"
  unfolding total_s_def by (rule sum_upd)

lemma total_c_upd:
  assumes "t < n"
  shows "total_c n ch c (f(t := p)) = total_c n ch c f + (if ch t = c then held_c p - held_c (f t) else 0)"
proof -
  have "total_c n ch c (f(t := p)) =
      (\<Sum>i<n. (\<lambda>(b, x). if b then held_c x else 0) (((\<lambda>i. (ch i = c, f i))(t := (ch t = c, p))) i))"
    unfolding total_c_def by (rule sum.cong) simp_all
  also have "\<dots> = total_c n ch c f - (if ch t = c then held_c (f t) else 0) + (if ch t = c then held_c p else 0)"
    by (subst sum_upd [OF assms]) (simp add: total_c_def)
  finally show ?thesis by simp
qed

lemma held_nonneg: "pc_ok p \<Longrightarrow> 0 \<le> held_s p" "pc_ok p \<Longrightarrow> 0 \<le> held_c p"
  by (cases p; simp)+

lemma total_nonneg:
  "\<forall>t. pc_ok (f t) \<Longrightarrow> 0 \<le> total_s n f" "\<forall>t. pc_ok (f t) \<Longrightarrow> 0 \<le> total_c n ch c f"
  by (auto simp: total_s_def total_c_def held_nonneg intro!: sum_nonneg)

lemma held_le_total:
  assumes "\<forall>t. pc_ok (f t)" "t < n"
  shows "held_s (f t) \<le> total_s n f" "held_c (f t) \<le> total_c n ch (ch t) f"
proof -
  have "\<forall>i. pc_ok ((f(t := W_Idle)) i)" using assms(1) by simp
  then have "0 \<le> total_s n (f(t := W_Idle))" "0 \<le> total_c n ch (ch t) (f(t := W_Idle))"
    by (rule total_nonneg)+
  then show "held_s (f t) \<le> total_s n f" "held_c (f t) \<le> total_c n ch (ch t) f"
    using assms(2) by (simp_all add: total_s_upd total_c_upd)
qed

text \<open>A writer's step that leaves \<open>s'\<close> in the session's pool and \<open>c'\<close> in its channel's.\<close>

lemma credit_inv_move:
  assumes inv: "credit_inv en n ch st" and t: "t < n" and p: "pc_ok p" and z: "0 \<le> zs" "0 \<le> zc"
    and s: "en \<Longrightarrow> sint s' + held_s p + zs = sint (cs_sess st) + held_s (cs_pc st t)" "en \<Longrightarrow> 0 \<le> sint s'"
    and c: "sint c' + held_c p + zc = sint (cs_chan st (ch t)) + held_c (cs_pc st t)" "0 \<le> sint c'"
  shows "credit_inv en n ch
    \<lparr>cs_sess = s', cs_chan = (cs_chan st)(ch t := c'),
     cs_pc = (cs_pc st)(t := p), cs_sentS = cs_sentS st + zs,
     cs_sentC = (cs_sentC st)(ch t := cs_sentC st (ch t) + zc),
     cs_grantS = cs_grantS st, cs_grantC = cs_grantC st\<rparr>"
proof -
  have "sint (cs_chan st (ch t)) + total_c n ch (ch t) (cs_pc st) + cs_sentC st (ch t) = cs_grantC st (ch t)"
    "cs_grantC st (ch t) - cs_sentC st (ch t) \<le> i32_max"
    using inv by (simp_all add: credit_inv_def)
  then have "sint c' + (total_c n ch (ch t) (cs_pc st) + (held_c p - held_c (cs_pc st t))) +
      (cs_sentC st (ch t) + zc) = cs_grantC st (ch t)" "cs_grantC st (ch t) - (cs_sentC st (ch t) + zc) \<le> i32_max"
    using c(1) z by linarith+
  then show ?thesis
    using assms unfolding credit_inv_def by (auto simp: total_s_upd total_c_upd)
qed

lemmas move_defs = goto_def add_sess_def add_chan_def

text \<open>Giving credit back never overflows a pool.\<close>

lemma credit_room:
  assumes "credit_inv en n ch st" "t < n"
  shows "en \<Longrightarrow> sint (cs_sess st) + held_s (cs_pc st t) \<le> i32_max"
    "sint (cs_chan st (ch t)) + held_c (cs_pc st t) \<le> i32_max"
proof -
  have ok: "\<forall>t. pc_ok (cs_pc st t)" using assms(1) by (simp add: credit_inv_def)
  note held_le_total [OF ok assms(2)]
  moreover have "sint (cs_chan st (ch t)) + total_c n ch (ch t) (cs_pc st) + cs_sentC st (ch t) = cs_grantC st (ch t)"
    "cs_grantC st (ch t) - cs_sentC st (ch t) \<le> i32_max"
    using assms(1) by (simp_all add: credit_inv_def)
  ultimately show "sint (cs_chan st (ch t)) + held_c (cs_pc st t) \<le> i32_max" by (smt (verit))
  show "sint (cs_sess st) + held_s (cs_pc st t) \<le> i32_max" if en
    using held_le_total(1) [OF ok assms(2)] assms(1) that by (simp add: credit_inv_def)
qed

lemma take_positive: "0 < sint d \<Longrightarrow> 0 < sint a \<Longrightarrow> 0 < sint (take_of d a)"
  by (simp add: take_of_def)

lemma credit_inv_step:
  assumes "credit_step en n ch st st'" "credit_inv en n ch st"
  shows "credit_inv en n ch st'"
proof -
  have ok: "pc_ok (cs_pc st t)" for t using assms(2) by (simp add: credit_inv_def)
  have nonneg: "en \<longrightarrow> 0 \<le> sint (cs_sess st)" "0 \<le> sint (cs_chan st c)" for c
    using assms(2) by (simp_all add: credit_inv_def)
  have move: "credit_inv en n ch st'"
    if "t < n" "pc_ok p" "0 \<le> zs" "0 \<le> zc"
      "en \<Longrightarrow> sint s' + held_s p + zs = sint (cs_sess st) + held_s (cs_pc st t)" "en \<Longrightarrow> 0 \<le> sint s'"
      "sint c' + held_c p + zc = sint (cs_chan st (ch t)) + held_c (cs_pc st t)" "0 \<le> sint c'"
      "st' = \<lparr>cs_sess = s', cs_chan = (cs_chan st)(ch t := c'),
        cs_pc = (cs_pc st)(t := p), cs_sentS = cs_sentS st + zs,
        cs_sentC = (cs_sentC st)(ch t := cs_sentC st (ch t) + zc),
        cs_grantS = cs_grantS st, cs_grantC = cs_grantC st\<rparr>" for t p zs s' zc c'
    using credit_inv_move [OF assms(2) that(1-8)] that(9) by simp
  have stay: "credit_inv en n ch (goto t p st)"
    if "t < n" "pc_ok p" "en \<Longrightarrow> held_s p = held_s (cs_pc st t)" "held_c p = held_c (cs_pc st t)" for t p
    using credit_inv_move [OF assms(2) that(1,2), of 0 0 "cs_sess st" "cs_chan st (ch t)"] that nonneg
    by (cases st) (simp add: move_defs)
  from assms(1) show ?thesis
  proof cases
    case (start t d) then show ?thesis by (auto intro!: stay)
  next
    case (closed t d) then show ?thesis by (auto intro!: stay)
  next
    case (load_c t d) then show ?thesis using ok [of t] by (auto intro!: stay)
  next
    case (wait t d a) then show ?thesis using ok [of t] by (auto intro!: stay)
  next
    case (wait_closed t d a) then show ?thesis by (auto intro!: stay)
  next
    case (pick t d a k)
    with ok [of t] take_positive have "0 < sint d" "0 < sint k" by simp_all
    with pick(2,3) show ?thesis unfolding pick(1) by (intro stay) simp_all
  next
    case (s_short t d k) then show ?thesis using ok [of t] by (auto intro!: stay)
  next
    case (s_load t d k) then show ?thesis using ok [of t] by (auto intro!: stay)
  next
    case (s_cas t d k x) then show ?thesis using nonneg ok [of t]
      by (intro move [of t "W_CTry d k" 0 0 "cs_sess st - k" "cs_chan st (ch t)"]) (simp_all add: move_defs i32_take)
  next
    case (s_lost t d k x) then show ?thesis using ok [of t] by (auto intro!: stay)
  next
    case (c_short t d k)
    with ok [of t] show ?thesis unfolding c_short(1) by (intro stay) simp_all
  next
    case (c_load t d k) then show ?thesis using ok [of t] by (auto intro!: stay)
  next
    case (c_cas t d k x) then show ?thesis using nonneg ok [of t]
      by (intro move [of t "W_Held k" 0 0 "cs_sess st" "cs_chan st (ch t) - k"]) (simp_all add: move_defs i32_take)
  next
    case (c_lost t d k x) then show ?thesis using ok [of t] by (auto intro!: stay)
  next
    case (giveback t d k) then show ?thesis using nonneg ok [of t] credit_room [OF assms(2) giveback(2)]
      by (intro move [of t "W_Loop d" 0 0 "cs_sess st + k" "cs_chan st (ch t)"]) (simp_all add: move_defs i32_put)
  next
    case (sent t k) then show ?thesis using nonneg ok [of t]
      by (intro move [of t W_Idle "sint k" "sint k" "cs_sess st" "cs_chan st (ch t)"]) (simp_all add: move_defs)
  next
    case (refund_c t k) then show ?thesis using nonneg ok [of t] credit_room [OF assms(2) refund_c(2)]
      by (intro move [of t "if en then W_RefS k else W_Idle" 0 0 "cs_sess st" "cs_chan st (ch t) + k"])
        (simp_all add: move_defs i32_put)
  next
    case (refund_s t k) then show ?thesis using nonneg ok [of t] credit_room [OF assms(2) refund_s(2)]
      by (intro move [of t W_Idle 0 0 "cs_sess st + k" "cs_chan st (ch t)"]) (simp_all add: move_defs i32_put)
  next
    case (grant_c x c)
    have *: "sint (cs_chan st c) + total_c n ch c (cs_pc st) + cs_sentC st c = cs_grantC st c"
      "0 \<le> total_c n ch c (cs_pc st)"
      using assms(2) ok total_nonneg(2) by (simp_all add: credit_inv_def)
    then have "sint (cs_chan st c + x) = sint (cs_chan st c) + sint x"
      using grant_c(2,3) nonneg(2) [of c] by (intro i32_put) linarith+
    moreover have "sint (cs_chan st c) + (total_c n ch c (cs_pc st) + cs_sentC st c) = cs_grantC st c"
      using * by linarith
    ultimately show ?thesis using assms(2) grant_c by (auto simp: credit_inv_def move_defs)
  next
    case (grant_s x)
    have "sint (cs_sess st + x) = sint (cs_sess st) + sint x" if en
      using grant_s(2,3) nonneg(1) that assms(2) ok total_nonneg(1) [of "cs_pc st" n]
      by (intro i32_put) (auto simp: credit_inv_def)
    then show ?thesis using assms(2) grant_s by (auto simp: credit_inv_def move_defs)
  qed
qed

lemma total_idle: "total_s n (\<lambda>_. W_Idle) = 0" "total_c n ch c (\<lambda>_. W_Idle) = 0"
  by (simp_all add: total_s_def total_c_def cong: if_cong)

interpretation credit: step_invariant "credit_step en n ch" "credit_inv en n ch" for en n ch
  by unfold_locales (rule credit_inv_step)

lemma credit_inv_reach:
  assumes "credit_reach en n ch w v st" "0 \<le> sint w" "\<And>c. 0 \<le> sint (v c)"
  shows "credit_inv en n ch st"
  using assms sint_range
  by (intro credit.inv_run [OF assms(1)]) (auto simp: credit_inv_def credit_init_def total_idle i32_max_def)

text \<open>C10: Whatever the interleaving of writers, refunds and window updates, and as long as the peer keeps at
  most 2^31 - 1 bytes of credit outstanding: no \<^verbatim>\<open>int32\<close> pool wraps, becomes negative or exceeds the
  credit granted and not yet used, so the bytes sent on a channel, and with session flow
  control those on all channels together, never exceed the grants; when no writer is in the
  middle of an operation, pool and bytes sent add up to the grants exactly: no credit is lost or
  invented.\<close>

theorem credits_conserved:
  assumes "credit_reach en n ch w v st" "0 \<le> sint w" "\<And>c. 0 \<le> sint (v c)"
  shows "(en \<longrightarrow> 0 \<le> sint (cs_sess st) \<and> sint (cs_sess st) \<le> cs_grantS st - cs_sentS st) \<and>
    0 \<le> sint (cs_chan st c) \<and> sint (cs_chan st c) \<le> cs_grantC st c - cs_sentC st c \<and>
    ((\<forall>t. cs_pc st t = W_Idle) \<longrightarrow>
       (en \<longrightarrow> sint (cs_sess st) = cs_grantS st - cs_sentS st) \<and>
       sint (cs_chan st c) = cs_grantC st c - cs_sentC st c)"
proof -
  have inv: "credit_inv en n ch st" using credit_inv_reach [OF assms] .
  then have ok: "\<forall>t. pc_ok (cs_pc st t)" by (simp add: credit_inv_def)
  have s: "en \<longrightarrow> 0 \<le> sint (cs_sess st) \<and> sint (cs_sess st) + total_s n (cs_pc st) + cs_sentS st = cs_grantS st"
    and c: "sint (cs_chan st c) + total_c n ch c (cs_pc st) + cs_sentC st c = cs_grantC st c"
      "0 \<le> sint (cs_chan st c)"
    using inv by (simp_all add: credit_inv_def)
  have "total_s n (cs_pc st) = 0 \<and> total_c n ch c (cs_pc st) = 0" if "\<forall>t. cs_pc st t = W_Idle"
    using that by (simp add: total_s_def total_c_def cong: if_cong)
  with s c total_nonneg(1) [OF ok, of n] total_nonneg(2) [OF ok, of n ch c] show ?thesis by auto
qed

lemma credit_run:
  "\<exists>st. credit_reach True 1 (\<lambda>_. 0) 100 (\<lambda>_. 40) st \<and> cs_sentS st = 40 \<and> (\<forall>t. cs_pc st t = W_Idle)"
proof -
  let ?R = "credit_reach True 1 (\<lambda>_. 0) 100 (\<lambda>_. 40)"
  define S where "S = (\<lambda>s c p z. \<lparr>cs_sess = s, cs_chan = (\<lambda>_. 40)(0 := c), cs_pc = (\<lambda>_. W_Idle)(0 := p), cs_sentS = z,
     cs_sentC = (\<lambda>_. 0)(0 := z), cs_grantS = 100, cs_grantC = (\<lambda>_. 40)\<rparr>)"
  note sd = S_def move_defs avail_of_def take_of_def
  have go: "?R b" if "?R a" "credit_step True 1 (\<lambda>_. 0) a c" "c = b" for a b c
    using that by (blast intro: rtranclp.rtrancl_into_rtrancl)
  have "?R (S 100 40 W_Idle 0)"
    by (simp add: S_def credit_init_def fun_upd_idem comp_def)
  then have "?R (S 100 40 (W_Loop 50) 0)"
    by (rule go [OF _ credit_step.start [of 0 _ _ 50]]) (simp_all add: sd)
  then have "?R (S 100 40 (W_HaveC 50 40) 0)"
    by (rule go [OF _ credit_step.load_c [of 0 _ _ 50]]) (simp_all add: sd)
  then have "?R (S 100 40 (W_STry 50 40) 0)"
    by (rule go [OF _ credit_step.pick [of 0 _ _ 50 40 _ 40]]) (simp_all add: sd)
  then have "?R (S 100 40 (W_SCas 50 40 100) 0)"
    by (rule go [OF _ credit_step.s_load [of 0 _ _ 50 40]]) (simp_all add: sd)
  then have "?R (S 60 40 (W_CTry 50 40) 0)"
    by (rule go [OF _ credit_step.s_cas [of 0 _ _ 50 40 100]]) (simp_all add: sd)
  then have "?R (S 60 40 (W_CCas 50 40 40) 0)"
    by (rule go [OF _ credit_step.c_load [of 0 _ _ 50 40]]) (simp_all add: sd)
  then have "?R (S 60 0 (W_Held 40) 0)"
    by (rule go [OF _ credit_step.c_cas [of 0 _ _ 50 40 40]]) (simp_all add: sd)
  then have "?R (S 60 0 W_Idle 40)"
    by (rule go [OF _ credit_step.sent [of 0 _ _ 40]]) (simp_all add: sd)
  then show ?thesis by (rule exI [of _ "S 60 0 W_Idle 40", OF conjI]) (simp add: S_def)
qed

theorem credits_conserved_witness:
  "\<exists>st. credit_reach True 1 (\<lambda>_. 0) 100 (\<lambda>_. 40) st \<and> cs_sentS st = 40 \<and>
     sint (cs_sess st) = cs_grantS st - cs_sentS st"
proof -
  obtain st where st: "credit_reach True 1 (\<lambda>_. 0) 100 (\<lambda>_. 40) st" "cs_sentS st = 40" "\<forall>t. cs_pc st t = W_Idle"
    using credit_run by blast
  with credits_conserved [OF st(1), of 0] show ?thesis by auto
qed

text \<open>The bound on outstanding credit is not enforced: \<^verbatim>\<open>AddCredits\<close> adds whatever positive amount an update
  carries, and one update of 2^31 - 1 turns any positive pool negative, after which no writer
  gets credit.\<close>

lemma oversized_update_wraps:
  assumes "0 < sint (sf_sendCredits (flow_of s c))"
  shows "sint (sf_sendCredits (flow_of (sf_AddCredits c 2147483647 s) c)) < 0"
proof -
  have "sint (x + 2147483647) < 0" if "0 < sint x" for x :: i32
  proof -
    have "x + 2147483647 = word_of_int (sint x - 2147483649)" by simp
    then have "sint (x + 2147483647) = sint x - 2147483649"
      using that sint_range [of x] by (simp only: sint_of_int)
    then show ?thesis using sint_range [of x] by linarith
  qed
  then show ?thesis using assms by (simp add: sf_AddCredits_def WakeWriter_def)
qed

section \<open>Announcing credit\<close>

text \<open>One flow's \<^verbatim>\<open>consumed\<close>, \<^verbatim>\<open>unflushed\<close> and \<^verbatim>\<open>updPending\<close>, with any number of readers in \<^verbatim>\<open>OnRead\<close> and
  \<^verbatim>\<open>flushUpdate\<close> and the writer that resolves the queued update.  A reader has added its bytes and seen
  the threshold reached (\<open>R_Flush\<close>), has swapped the count out (\<open>R_Swapped\<close>), has added it to
  \<^verbatim>\<open>unflushed\<close> (\<open>R_Added\<close>), or has won the flag and is about to queue the frame (\<open>R_Queue\<close>).  The
  writer has taken a frame into its batch (\<open>U_Got\<close>), has swapped \<^verbatim>\<open>unflushed\<close> out (\<open>U_Swapped\<close>), or has
  cleared the flag and is about to write the batch (\<open>U_Write\<close>).  \<open>an_queue\<close> counts the flow's frames in
  \<^verbatim>\<open>ctrlQueue\<close> or with a goroutine of \<^verbatim>\<open>writeControlFrameNonBlocking\<close>; \<open>an_closed\<close> is the closing of
  \<^verbatim>\<open>die\<close>.  Totals: \<open>an_total\<close> the bytes read, \<open>an_sent\<close> the credit put on the wire, \<open>an_lost\<close> the credit in
  updates whose write failed, \<open>an_dropped\<close> the updates released unresolved because the session died.\<close>

datatype rpc = R_Idle | R_Flush | R_Swapped i32 | R_Added | R_Queue
datatype upc = U_Idle | U_Got | U_Swapped i32 | U_Write i32

record announce_state =
  an_consumed :: i32
  an_unflushed :: i32
  an_pending :: bool
  an_queue :: nat
  an_rpc :: "nat \<Rightarrow> rpc"
  an_upc :: upc
  an_closed :: bool
  an_dropped :: nat
  an_total :: int
  an_sent :: int
  an_lost :: int

definition announce_init :: announce_state where
  "announce_init = \<lparr>an_consumed = 0, an_unflushed = 0, an_pending = False, an_queue = 0,
     an_rpc = (\<lambda>_. R_Idle), an_upc = U_Idle, an_closed = False, an_dropped = 0,
     an_total = 0, an_sent = 0, an_lost = 0\<rparr>"

definition rgoto :: "nat \<Rightarrow> rpc \<Rightarrow> announce_state \<Rightarrow> announce_state" where
  "rgoto t p st = st\<lparr>an_rpc := (an_rpc st)(t := p)\<rparr>"

definition consume :: "i32 \<Rightarrow> announce_state \<Rightarrow> announce_state" where
  "consume k st = st\<lparr>an_consumed := an_consumed st + k, an_total := an_total st + sint k\<rparr>"

text \<open>\<open>n\<close> readers, the threshold \<open>th\<close> and the initial window \<open>w\<close>: what is read was sent by a peer that
  keeps to the window, so it is at most \<open>w\<close> ahead of the announcements.  The failure steps are those of
  the code: \<^verbatim>\<open>writeControlFrameNonBlocking\<close> refuses a frame when the session is closed; frames left in the
  queue, waiting with a goroutine, or in a batch that has no transport are released when the
  session dies; and a batch whose write fails is released after its credit was swapped out.\<close>

inductive announce_step :: "nat \<Rightarrow> i32 \<Rightarrow> int \<Rightarrow> announce_state \<Rightarrow> announce_state \<Rightarrow> bool" for n th w where
  read_less: "t < n \<Longrightarrow> an_rpc st t = R_Idle \<Longrightarrow> 0 < sint k \<Longrightarrow> an_total st + sint k \<le> w + an_sent st \<Longrightarrow>
    sint (an_consumed st + k) < sint th \<Longrightarrow> announce_step n th w st (consume k st)"
| read_more: "t < n \<Longrightarrow> an_rpc st t = R_Idle \<Longrightarrow> 0 < sint k \<Longrightarrow> an_total st + sint k \<le> w + an_sent st \<Longrightarrow>
    sint th \<le> sint (an_consumed st + k) \<Longrightarrow> announce_step n th w st (rgoto t R_Flush (consume k st))"
| swap_none: "t < n \<Longrightarrow> an_rpc st t = R_Flush \<Longrightarrow> sint (an_consumed st) \<le> 0 \<Longrightarrow>
    announce_step n th w st (rgoto t R_Idle (st\<lparr>an_consumed := 0\<rparr>))"
| swap: "t < n \<Longrightarrow> an_rpc st t = R_Flush \<Longrightarrow> 0 < sint (an_consumed st) \<Longrightarrow>
    announce_step n th w st (rgoto t (R_Swapped (an_consumed st)) (st\<lparr>an_consumed := 0\<rparr>))"
| add: "t < n \<Longrightarrow> an_rpc st t = R_Swapped k \<Longrightarrow>
    announce_step n th w st (rgoto t R_Added (st\<lparr>an_unflushed := an_unflushed st + k\<rparr>))"
| cas_lost: "t < n \<Longrightarrow> an_rpc st t = R_Added \<Longrightarrow> an_pending st \<Longrightarrow>
    announce_step n th w st (rgoto t R_Idle st)"
| cas_won: "t < n \<Longrightarrow> an_rpc st t = R_Added \<Longrightarrow> \<not> an_pending st \<Longrightarrow>
    announce_step n th w st (rgoto t R_Queue (st\<lparr>an_pending := True\<rparr>))"
| queue: "t < n \<Longrightarrow> an_rpc st t = R_Queue \<Longrightarrow>
    announce_step n th w st (rgoto t R_Idle (st\<lparr>an_queue := Suc (an_queue st)\<rparr>))"
| refused: "t < n \<Longrightarrow> an_rpc st t = R_Queue \<Longrightarrow> an_closed st \<Longrightarrow>
    announce_step n th w st (rgoto t R_Idle (st\<lparr>an_pending := False\<rparr>))"
| take_frame: "an_upc st = U_Idle \<Longrightarrow> an_queue st = Suc q \<Longrightarrow>
    announce_step n th w st (st\<lparr>an_upc := U_Got, an_queue := q\<rparr>)"
| swap_unflushed: "an_upc st = U_Got \<Longrightarrow>
    announce_step n th w st (st\<lparr>an_upc := U_Swapped (an_unflushed st), an_unflushed := 0\<rparr>)"
| resolve: "an_upc st = U_Swapped k \<Longrightarrow>
    announce_step n th w st (st\<lparr>an_upc := if sint k \<le> 0 then U_Idle else U_Write k, an_pending := False\<rparr>)"
| written: "an_upc st = U_Write k \<Longrightarrow>
    announce_step n th w st (st\<lparr>an_upc := U_Idle, an_sent := an_sent st + sint k\<rparr>)"
| write_failed: "an_upc st = U_Write k \<Longrightarrow>
    announce_step n th w st (st\<lparr>an_upc := U_Idle, an_lost := an_lost st + sint k\<rparr>)"
| close: "announce_step n th w st (st\<lparr>an_closed := True\<rparr>)"
| drop_queued: "an_closed st \<Longrightarrow> an_queue st = Suc q \<Longrightarrow>
    announce_step n th w st (st\<lparr>an_queue := q, an_dropped := Suc (an_dropped st)\<rparr>)"
| drop_batch: "an_closed st \<Longrightarrow> an_upc st = U_Got \<Longrightarrow>
    announce_step n th w st (st\<lparr>an_upc := U_Idle, an_dropped := Suc (an_dropped st)\<rparr>)"

abbreviation announce_reach :: "nat \<Rightarrow> i32 \<Rightarrow> int \<Rightarrow> announce_state \<Rightarrow> bool" where
  "announce_reach n th w \<equiv> (announce_step n th w)\<^sup>*\<^sup>* announce_init"

fun r_held :: "rpc \<Rightarrow> int" where
  "r_held (R_Swapped k) = sint k"
| "r_held p = 0"

fun r_queueing :: "rpc \<Rightarrow> int" where
  "r_queueing R_Queue = 1"
| "r_queueing p = 0"

fun u_held :: "upc \<Rightarrow> int" where
  "u_held (U_Swapped k) = sint k"
| "u_held (U_Write k) = sint k"
| "u_held p = 0"

fun u_busy :: "upc \<Rightarrow> int" where
  "u_busy U_Got = 1"
| "u_busy (U_Swapped k) = 1"
| "u_busy p = 0"

definition r_sum :: "nat \<Rightarrow> (rpc \<Rightarrow> int) \<Rightarrow> (nat \<Rightarrow> rpc) \<Rightarrow> int" where
  "r_sum n g f = (\<Sum>t<n. g (f t))"

text \<open>The credit read and not yet announced or lost.\<close>

definition outstanding :: "nat \<Rightarrow> announce_state \<Rightarrow> int" where
  "outstanding n st = sint (an_consumed st) + r_sum n r_held (an_rpc st) + sint (an_unflushed st) + u_held (an_upc st)"

definition announce_inv :: "nat \<Rightarrow> int \<Rightarrow> announce_state \<Rightarrow> bool" where
  "announce_inv n w st \<longleftrightarrow>
     an_total st = outstanding n st + an_sent st + an_lost st \<and>
     0 \<le> sint (an_consumed st) \<and> 0 \<le> sint (an_unflushed st) \<and> 0 \<le> u_held (an_upc st) \<and> 0 \<le> an_lost st \<and>
     (\<forall>t. 0 \<le> r_held (an_rpc st t)) \<and> an_total st \<le> w + an_sent st \<and> w \<le> i32_max \<and>
     int (an_queue st) + r_sum n r_queueing (an_rpc st) + u_busy (an_upc st) + int (an_dropped st) =
       (if an_pending st then 1 else 0) \<and>
     (an_dropped st > 0 \<longrightarrow> an_closed st)"

lemma r_sum_upd: "t < n \<Longrightarrow> r_sum n g (f(t := p)) = r_sum n g f - g (f t) + g p"
  unfolding r_sum_def by (rule sum_upd)

lemma r_queueing_nonneg: "0 \<le> r_sum n r_queueing f"
proof -
  have "0 \<le> r_queueing p" for p by (cases p) simp_all
  then show ?thesis by (simp add: r_sum_def sum_nonneg)
qed

lemma r_held_le: "(\<And>t. 0 \<le> r_held (f t)) \<Longrightarrow> t < n \<Longrightarrow> 0 \<le> r_held (f t) \<and> r_held (f t) \<le> r_sum n r_held f"
  unfolding r_sum_def by (auto intro: member_le_sum [of t "{..<n}" "\<lambda>i. r_held (f i)"])

text \<open>A peer that keeps to the window keeps the counters from wrapping.\<close>

lemma announce_room:
  assumes "announce_inv n w st"
  shows "0 < sint k \<Longrightarrow> an_total st + sint k \<le> w + an_sent st \<Longrightarrow>
      sint (an_consumed st + k) = sint (an_consumed st) + sint k"
    "t < n \<Longrightarrow> an_rpc st t = R_Swapped k \<Longrightarrow> sint (an_unflushed st + k) = sint (an_unflushed st) + sint k"
proof -
  have inv: "an_total st = outstanding n st + an_sent st + an_lost st" "0 \<le> sint (an_consumed st)"
    "0 \<le> sint (an_unflushed st)" "0 \<le> u_held (an_upc st)" "0 \<le> an_lost st" "an_total st \<le> w + an_sent st"
    "w \<le> i32_max" and r: "\<And>t. 0 \<le> r_held (an_rpc st t)"
    using assms by (simp_all add: announce_inv_def)
  have sum: "0 \<le> r_sum n r_held (an_rpc st)" unfolding r_sum_def by (rule sum_nonneg) (rule r)
  show "sint (an_consumed st + k) = sint (an_consumed st) + sint k"
    if "0 < sint k" "an_total st + sint k \<le> w + an_sent st"
    using that inv sum by (intro i32_put) (simp_all add: outstanding_def)
  show "sint (an_unflushed st + k) = sint (an_unflushed st) + sint k" if "t < n" "an_rpc st t = R_Swapped k"
    using that inv r_held_le [of "an_rpc st", OF r that(1)] by (intro i32_put) (simp_all add: outstanding_def)
qed

lemma announce_inv_step:
  assumes "announce_step n th w st st'" "announce_inv n w st"
  shows "announce_inv n w st'"
  using assms(1)
proof cases
  case (read_less t k)
  with assms(2) announce_room(1) [OF assms(2) read_less(4,5)] show ?thesis
    by (simp add: announce_inv_def outstanding_def consume_def)
next
  case (read_more t k)
  with assms(2) announce_room(1) [OF assms(2) read_more(4,5)] show ?thesis
    by (auto simp: announce_inv_def outstanding_def consume_def rgoto_def r_sum_upd)
next
  case (add t k)
  with assms(2) announce_room(2) [OF assms(2) add(2,3)] r_held_le [of "an_rpc st" t n] show ?thesis
    by (auto simp: announce_inv_def outstanding_def rgoto_def r_sum_upd)
next
  case (refused t)
  have "0 \<le> u_busy (an_upc st)" by (cases "an_upc st") simp_all
  with refused assms(2) r_queueing_nonneg [of n "(an_rpc st)(t := R_Idle)"] show ?thesis
    by (auto simp: announce_inv_def outstanding_def rgoto_def r_sum_upd split: if_splits)
qed (use assms(2) r_queueing_nonneg [of n "an_rpc st"] in
    \<open>auto simp: announce_inv_def outstanding_def rgoto_def r_sum_upd split: if_splits\<close>)

interpretation announce: step_invariant "announce_step n th w" "announce_inv n w" for n th w
  by unfold_locales (rule announce_inv_step)

lemma announce_inv_reach: "announce_reach n th w st \<Longrightarrow> 0 \<le> w \<Longrightarrow> w \<le> i32_max \<Longrightarrow> announce_inv n w st"
  by (erule announce.inv_run) (simp add: announce_inv_def announce_init_def outstanding_def r_sum_def)

text \<open>C27: However readers, the writer, failing writes and the end of the session interleave, as long as the
  peer keeps to its window (at most 2^31 - 1): no \<^verbatim>\<open>int32\<close> counter wraps or becomes negative; every
  byte read is announced to the peer, still accounted for in the flow, or was in an update
  whose write failed; at most one window update per flow is queued or being resolved; and the
  pending flag is set exactly while there is one, or after one was released because the
  session had died, which never happens while it is alive.\<close>

theorem announcements_conserved:
  assumes "announce_reach n th w st" "0 \<le> w" "w \<le> i32_max"
  shows "an_total st = outstanding n st + an_sent st + an_lost st \<and>
    0 \<le> sint (an_consumed st) \<and> 0 \<le> sint (an_unflushed st) \<and> 0 \<le> an_lost st \<and>
    int (an_queue st) + r_sum n r_queueing (an_rpc st) + u_busy (an_upc st) + int (an_dropped st) =
      (if an_pending st then 1 else 0) \<and>
    (an_dropped st > 0 \<longrightarrow> an_closed st)"
  using announce_inv_reach [OF assms] by (simp add: announce_inv_def)

text \<open>States in which only reader 0 is active and the session is alive.\<close>

definition one_reader :: "i32 \<Rightarrow> i32 \<Rightarrow> bool \<Rightarrow> nat \<Rightarrow> rpc \<Rightarrow> upc \<Rightarrow> int \<Rightarrow> int \<Rightarrow> int \<Rightarrow> announce_state" where
  "one_reader c u p q r x t z l = \<lparr>an_consumed = c, an_unflushed = u, an_pending = p, an_queue = q,
     an_rpc = (\<lambda>_. R_Idle)(0 := r), an_upc = x, an_closed = False, an_dropped = 0,
     an_total = t, an_sent = z, an_lost = l\<rparr>"

lemma announce_go:
  "announce_reach n th w a \<Longrightarrow> announce_step n th w a c \<Longrightarrow> c = b \<Longrightarrow> announce_reach n th w b"
  by (blast intro: rtranclp.rtrancl_into_rtrancl)

lemmas one_reader_simps = one_reader_def rgoto_def consume_def

text \<open>300 bytes are read and the update for them is about to be resolved.\<close>

lemma announce_begin: "announce_reach 1 250 1000 (one_reader 0 0 True 0 R_Idle (U_Swapped 300) 300 0 0)"
proof -
  let ?R = "announce_reach 1 250 1000"
  have "?R (one_reader 0 0 False 0 R_Idle U_Idle 0 0 0)"
    by (simp add: one_reader_def announce_init_def fun_upd_idem)
  then have "?R (one_reader 300 0 False 0 R_Flush U_Idle 300 0 0)"
    by (rule announce_go [OF _ announce_step.read_more [of 0 _ _ 300]]) (simp_all add: one_reader_simps)
  then have "?R (one_reader 0 0 False 0 (R_Swapped 300) U_Idle 300 0 0)"
    by (rule announce_go [OF _ announce_step.swap [of 0]]) (simp_all add: one_reader_simps)
  then have "?R (one_reader 0 300 False 0 R_Added U_Idle 300 0 0)"
    by (rule announce_go [OF _ announce_step.add [of 0 _ _ 300]]) (simp_all add: one_reader_simps)
  then have "?R (one_reader 0 300 True 0 R_Queue U_Idle 300 0 0)"
    by (rule announce_go [OF _ announce_step.cas_won [of 0]]) (simp_all add: one_reader_simps)
  then have "?R (one_reader 0 300 True 1 R_Idle U_Idle 300 0 0)"
    by (rule announce_go [OF _ announce_step.queue [of 0]]) (simp_all add: one_reader_simps)
  then have "?R (one_reader 0 300 True 0 R_Idle U_Got 300 0 0)"
    by (rule announce_go [OF _ announce_step.take_frame [of _ 0]]) (simp_all add: one_reader_simps)
  then show ?thesis
    by (rule announce_go [OF _ announce_step.swap_unflushed]) (simp_all add: one_reader_simps)
qed

lemma announce_run: "announce_reach 1 250 1000 (one_reader 0 250 False 0 R_Idle U_Idle 550 300 0)"
proof -
  let ?R = "announce_reach 1 250 1000"
  have "?R (one_reader 250 0 True 0 R_Flush (U_Swapped 300) 550 0 0)"
    by (rule announce_go [OF announce_begin announce_step.read_more [of 0 _ _ 250]]) (simp_all add: one_reader_simps)
  then have "?R (one_reader 0 0 True 0 (R_Swapped 250) (U_Swapped 300) 550 0 0)"
    by (rule announce_go [OF _ announce_step.swap [of 0]]) (simp_all add: one_reader_simps)
  then have "?R (one_reader 0 250 True 0 R_Added (U_Swapped 300) 550 0 0)"
    by (rule announce_go [OF _ announce_step.add [of 0 _ _ 250]]) (simp_all add: one_reader_simps)
  then have "?R (one_reader 0 250 True 0 R_Idle (U_Swapped 300) 550 0 0)"
    by (rule announce_go [OF _ announce_step.cas_lost [of 0]]) (simp_all add: one_reader_simps)
  then have "?R (one_reader 0 250 False 0 R_Idle (U_Write 300) 550 0 0)"
    by (rule announce_go [OF _ announce_step.resolve [of _ 300]]) (simp_all add: one_reader_simps)
  then show ?thesis
    by (rule announce_go [OF _ announce_step.written [of _ 300]]) (simp_all add: one_reader_simps)
qed

text \<open>The write of the first update fails.  The session may live on and resume over another transport,
  but nothing announces the 300 bytes again: the peer's window is smaller by them for good.\<close>

lemma announcement_lost: "announce_reach 1 250 1000 (one_reader 0 0 False 0 R_Idle U_Idle 300 0 300)"
proof -
  have "announce_reach 1 250 1000 (one_reader 0 0 False 0 R_Idle (U_Write 300) 300 0 0)"
    by (rule announce_go [OF announce_begin announce_step.resolve [of _ 300]]) (simp_all add: one_reader_simps)
  then show ?thesis
    by (rule announce_go [OF _ announce_step.write_failed [of _ 300]]) (simp_all add: one_reader_simps)
qed

theorem announcements_conserved_witness:
  "\<exists>st. announce_reach 1 250 1000 st \<and> an_total st = 550 \<and> outstanding 1 st + an_sent st + an_lost st = 550"
  using announcements_conserved [OF announce_run] announce_run
  by (intro exI [of _ "one_reader 0 250 False 0 R_Idle U_Idle 550 300 0"]) (auto simp: one_reader_def i32_max_def)

text \<open>C37: Because the writer swaps \<^verbatim>\<open>unflushed\<close> out before it clears \<^verbatim>\<open>updPending\<close>, a reader that flushes in
  between leaves its credit behind: with threshold 250 a run exists after which every goroutine
  is idle, no window update is queued and the flag is clear, no write has failed and the session
  is alive, yet 250 bytes of credit are waiting and stay unannounced until more is read.\<close>

theorem announcement_left_behind:
  "\<exists>st. announce_reach 1 250 1000 st \<and> (\<forall>t. an_rpc st t = R_Idle) \<and> an_upc st = U_Idle \<and> an_queue st = 0 \<and>
     \<not> an_pending st \<and> an_consumed st = 0 \<and> an_unflushed st = 250 \<and> an_sent st = an_total st - 250 \<and>
     an_lost st = 0 \<and> \<not> an_closed st"
  using announce_run by (intro exI [of _ "one_reader 0 250 False 0 R_Idle U_Idle 550 300 0"]) (simp add: one_reader_def)

end
