(* ===== verification/Labels.thy ===== *)
theory Labels
  imports Mux_Prelude
begin

text \<open>
  Channel labels (\<^verbatim>\<open>src/session.go\<close>, \<^verbatim>\<open>stringToUint32\<close> and \<^verbatim>\<open>uint32ToString\<close>): a label of one to six
  letters and digits is a number in bijective base 36.  The source's loops run on \<^verbatim>\<open>uint32\<close>
  values; \<open>enc36\<close> and \<open>dec36\<close> are the same numeration on natural numbers, and the lemmas show
  that neither loop wraps and that the two conversions invert each other up to letter case.
\<close>

section \<open>The source's conversions\<close>

text \<open>A Go string is its bytes; \<^verbatim>\<open>'0'\<close> is 48, \<^verbatim>\<open>'A'\<close> is 65 and \<^verbatim>\<open>'a'\<close> is 97.\<close>

type_synonym label = bytes

text \<open>The digit value of one byte, \<open>None\<close> where the source returns \<^verbatim>\<open>(0, false)\<close>.\<close>

definition label_digit :: "u8 \<Rightarrow> u32 option" where
  "label_digit c =
     (if c \<ge> 48 \<and> c \<le> 57 then Some (ucast (c - 48))
      else if c \<ge> 97 \<and> c \<le> 122 then Some (ucast (c - 97 + 10))
      else if c \<ge> 65 \<and> c \<le> 90 then Some (ucast (c - 65 + 10))
      else None)"

fun label_loop :: "label \<Rightarrow> u32 \<Rightarrow> u32 \<times> bool" where
  "label_loop [] n = (n, True)"
| "label_loop (c # s) n =
     (case label_digit c of
        None \<Rightarrow> (0, False)
      | Some val \<Rightarrow> label_loop s (n * 36 + val + 1))"

definition stringToUint32 :: "label \<Rightarrow> u32 \<times> bool" where
  "stringToUint32 s = (if length s = 0 \<or> length s > 6 then (0, False) else label_loop s 0)"

text \<open>The byte written for a remainder, and the loop over the six-byte buffer: \<open>None\<close> stands
  for the index panic of a seventh byte.\<close>

definition label_char :: "u32 \<Rightarrow> u8" where
  "label_char r = (if r < 10 then ucast (48 + r) else ucast (97 + (r - 10)))"

function unlabel_loop :: "u32 \<Rightarrow> label \<Rightarrow> label option" where
  "unlabel_loop n buf =
     (if n > 0 then
        (if length buf \<ge> 6 then None
         else unlabel_loop ((n - 1) div 36) (label_char ((n - 1) mod 36) # buf))
      else Some buf)"
  by pat_completeness auto

lemma unat_pred_div36: "n > 0 \<Longrightarrow> unat ((n - 1) div 36 :: u32) = (unat n - 1) div 36"
  by (simp add: unat_div unat_minus_one word_greater_zero_iff)

termination unlabel_loop
  by (relation "measure (unat \<circ> fst)") (auto simp: unat_pred_div36 word_less_nat_alt)

declare unlabel_loop.simps [simp del]

definition uint32ToString :: "u32 \<Rightarrow> (label \<times> bool) option" where
  "uint32ToString n =
     (if n = 0 \<or> n > 2238976116 then Some ([], False)
      else map_option (\<lambda>buf. (buf, True)) (unlabel_loop n []))"

section \<open>Bijective base 36\<close>

definition enc36 :: "nat list \<Rightarrow> nat" where
  "enc36 ds = foldl (\<lambda>n d. n * 36 + d + 1) 0 ds"

fun dec36 :: "nat \<Rightarrow> nat list" where
  "dec36 n = (if n = 0 then [] else dec36 ((n - 1) div 36) @ [(n - 1) mod 36])"

declare dec36.simps [simp del]

lemma dec36_0 [simp]: "dec36 0 = []"
  by (simp add: dec36.simps)

lemma dec36_step: "0 < n \<Longrightarrow> dec36 n = dec36 ((n - 1) div 36) @ [(n - 1) mod 36]"
  by (subst dec36.simps) simp

lemma enc36_Nil [simp]: "enc36 [] = 0"
  by (simp add: enc36_def)

lemma enc36_snoc [simp]: "enc36 (ds @ [d]) = enc36 ds * 36 + d + 1"
  by (simp add: enc36_def)

lemma dec36_enc36: "(\<And>d. d \<in> set ds \<Longrightarrow> d < 36) \<Longrightarrow> dec36 (enc36 ds) = ds"
  by (induction ds rule: rev_induct) (simp_all add: dec36_step)

lemma enc36_dec36 [simp]: "enc36 (dec36 n) = n"
proof (induction n rule: dec36.induct)
  case (1 n)
  show ?case
  proof (cases "n = 0")
    case False
    then have "enc36 (dec36 ((n - 1) div 36)) = (n - 1) div 36" by (rule "1.IH")
    with False show ?thesis by (simp add: dec36_step)
  qed simp
qed

lemma dec36_small: "d \<in> set (dec36 n) \<Longrightarrow> d < 36"
proof (induction n rule: dec36.induct)
  case (1 n)
  then show ?case by (cases "n = 0") (auto simp: dec36_step [of n])
qed

text \<open>Labels of length \<open>k\<close> fill the numbers between two bounds, so six characters are enough
  exactly up to the bound the source tests.\<close>

fun rep36 :: "nat \<Rightarrow> nat" where
  "rep36 0 = 0"
| "rep36 (Suc k) = rep36 k * 36 + 1"

lemma enc36_lower: "rep36 (length ds) \<le> enc36 ds"
proof (induction ds rule: rev_induct)
  case (snoc d ds)
  have "rep36 (length (ds @ [d])) = rep36 (length ds) * 36 + 1" by simp
  also have "\<dots> \<le> enc36 ds * 36 + d + 1" using snoc by simp
  finally show ?case by simp
qed simp

lemma enc36_upper: "(\<And>d. d \<in> set ds \<Longrightarrow> d < 36) \<Longrightarrow> enc36 ds \<le> 36 * rep36 (length ds)"
proof (induction ds rule: rev_induct)
  case (snoc d ds)
  have "d < 36" and "enc36 ds \<le> 36 * rep36 (length ds)" using snoc by auto
  then show ?case by simp
qed simp

lemma rep36_mono: "j \<le> k \<Longrightarrow> rep36 j \<le> rep36 k"
  by (induction k) (auto simp: le_Suc_eq)

lemma rep36_7: "rep36 (Suc (Suc (Suc (Suc (Suc (Suc (Suc 0))))))) = 2238976117"
  by simp

lemma dec36_length: "n \<le> 2238976116 \<Longrightarrow> length (dec36 n) \<le> 6"
proof (rule ccontr)
  assume n: "n \<le> 2238976116" and "\<not> length (dec36 n) \<le> 6"
  then have "rep36 (Suc (Suc (Suc (Suc (Suc (Suc (Suc 0))))))) \<le> rep36 (length (dec36 n))"
    by (intro rep36_mono) simp
  also have "\<dots> \<le> n" using enc36_lower [of "dec36 n"] by simp
  finally show False using n by (simp add: rep36_7)
qed

section \<open>The loops compute the numeration\<close>

definition label_val :: "u8 \<Rightarrow> nat" where
  "label_val c = unat (the (label_digit c))"

definition valid_label :: "label \<Rightarrow> bool" where
  "valid_label s \<longleftrightarrow> 1 \<le> length s \<and> length s \<le> 6 \<and> list_all (\<lambda>c. label_digit c \<noteq> None) s"

definition to_lower :: "u8 \<Rightarrow> u8" where
  "to_lower c = (if 65 \<le> c \<and> c \<le> 90 then c + 32 else c)"

text \<open>The digit test over the byte's number, and the character for a digit.\<close>

definition digit_nat :: "nat \<Rightarrow> nat option" where
  "digit_nat k =
     (if 48 \<le> k \<and> k \<le> 57 then Some (k - 48)
      else if 97 \<le> k \<and> k \<le> 122 then Some (k - 87)
      else if 65 \<le> k \<and> k \<le> 90 then Some (k - 55) else None)"

lemma label_digit_nat: "label_digit c = map_option of_nat (digit_nat (unat c))"
proof -
  have "c \<ge> 97 \<Longrightarrow> (ucast (c - 87 :: u8) :: u32) = of_nat (unat c - 87)"
    and "c \<ge> 65 \<Longrightarrow> (ucast (c - 55 :: u8) :: u32) = of_nat (unat c - 55)"
    and "c \<ge> 48 \<Longrightarrow> (ucast (c - 48 :: u8) :: u32) = of_nat (unat c - 48)"
    by (subst ucast_byte_diff; simp add: word_le_nat_alt)+
  then show ?thesis
    by (simp add: label_digit_def digit_nat_def word_le_nat_alt)
qed

lemma label_char_nat:
  "d < 36 \<Longrightarrow> label_char (of_nat d) = of_nat (if d < 10 then 48 + d else 87 + d)"
  using ucast_byte_of_nat [of "48 + d"] ucast_byte_of_nat [of "87 + d"]
  by (simp add: label_char_def word_less_nat_alt unat_of_nat_u32)

lemma digit_nat_small: "digit_nat k = Some d \<Longrightarrow> d < 36"
  by (auto simp: digit_nat_def split: if_splits)

lemma label_val_digit:
  assumes "label_digit c = Some d"
  shows "digit_nat (unat c) = Some (label_val c)" "d = of_nat (label_val c)"
proof -
  from assms obtain k where k: "digit_nat (unat c) = Some k" "d = of_nat k"
    by (auto simp: label_digit_nat)
  with digit_nat_small [OF k(1)] have "label_val c = k"
    by (simp add: label_val_def label_digit_nat unat_of_nat_u32)
  with k show "digit_nat (unat c) = Some (label_val c)" "d = of_nat (label_val c)" by simp_all
qed

lemma label_digit_small: "label_digit c = Some d \<Longrightarrow> label_val c < 36"
  by (metis label_val_digit(1) digit_nat_small)

lemma label_char_digit:
  assumes "label_digit c = Some d"
  shows "label_char (of_nat (label_val c)) = to_lower c"
  using label_val_digit(1) [OF assms] label_digit_small [OF assms]
  by (auto simp: label_char_nat to_lower_def digit_nat_def word_le_nat_alt word_unat_eq_iff
      unat_of_nat unat_word_ariths split: if_splits)

lemma label_digit_char: "d < 36 \<Longrightarrow> label_digit (label_char (of_nat d)) = Some (of_nat d)"
  by (auto simp: label_char_nat label_digit_nat unat_of_nat_u8 digit_nat_def)

lemma label_val_char: "d < 36 \<Longrightarrow> label_val (label_char (of_nat d)) = d"
  by (simp add: label_val_def label_digit_char unat_of_nat_u32)

lemma label_loop_enc36:
  "label_loop s (of_nat (enc36 ps)) =
     (if list_all (\<lambda>c. label_digit c \<noteq> None) s
      then (of_nat (enc36 (ps @ map label_val s)), True) else (0, False))"
proof (induction s arbitrary: ps)
  case (Cons c s)
  show ?case
  proof (cases "label_digit c")
    case (Some d)
    have eq: "of_nat (enc36 ps) * 36 + d + 1 = (of_nat (enc36 (ps @ [label_val c])) :: u32)"
      using label_val_digit(2) [OF Some] by simp
    have "label_loop (c # s) (of_nat (enc36 ps)) = label_loop s (of_nat (enc36 (ps @ [label_val c])))"
      by (simp only: label_loop.simps Some option.case eq)
    then show ?thesis
      using Some by (simp add: Cons del: enc36_snoc)
  qed simp
qed simp

lemma stringToUint32_enc36:
  "stringToUint32 s = (if valid_label s then (of_nat (enc36 (map label_val s)), True) else (0, False))"
  using label_loop_enc36 [of s "[]"] by (auto simp: stringToUint32_def valid_label_def not_le)

lemma u32_pos: "0 < (n :: u32) \<longleftrightarrow> 0 < unat n"
  by (simp add: word_less_nat_alt)

lemma unlabel_rem: "0 < n \<Longrightarrow> (n - 1) mod 36 = (of_nat ((unat n - 1) mod 36) :: u32)"
proof -
  assume "0 < n"
  then have "unat (n - 1) = unat n - 1" by (intro unat_minus_one) auto
  then have "unat ((n - 1) mod 36) = (unat n - 1) mod 36" by (simp add: unat_mod)
  moreover have "(unat n - 1) mod 36 < 4294967296" by (rule less_trans [of _ 36]) simp_all
  ultimately show ?thesis by (simp only: word_unat_eq_iff unat_of_nat_u32)
qed

lemma unlabel_loop_step:
  "0 < n \<Longrightarrow> unlabel_loop n buf =
     (if length buf \<ge> 6 then None
      else unlabel_loop ((n - 1) div 36) (label_char ((n - 1) mod 36) # buf))"
  by (subst unlabel_loop.simps) simp

lemma unlabel_loop_dec36:
  "unlabel_loop n buf =
     (if length (dec36 (unat n)) + length buf \<le> 6 \<or> n = 0
      then Some (map (label_char \<circ> of_nat) (dec36 (unat n)) @ buf) else None)"
proof (induction n buf rule: unlabel_loop.induct)
  case (1 n buf)
  show ?case
  proof (cases "n > 0")
    case True
    then have pos: "0 < unat n" and nz: "n \<noteq> 0" by (auto simp: u32_pos)
    let ?k = "(unat n - 1) div 36"
    have z: "(n - 1) div 36 = 0 \<longleftrightarrow> ?k = 0"
      by (metis True unat_pred_div36 unat_eq_zero)
    show ?thesis
    proof (cases "length buf \<ge> 6")
      case False
      with True have "unlabel_loop ((n - 1) div 36) (label_char ((n - 1) mod 36) # buf) =
         (if length (dec36 ?k) + Suc (length buf) \<le> 6 \<or> ?k = 0
          then Some (map (label_char \<circ> of_nat) (dec36 ?k) @ label_char ((n - 1) mod 36) # buf)
          else None)"
        using "1.IH" by (simp only: unat_pred_div36 [OF True] z) simp
      with False True pos nz show ?thesis
        by (simp add: unlabel_loop_step unlabel_rem dec36_step [OF pos] del: div_eq_0_iff)
    qed (use True pos nz in \<open>simp add: unlabel_loop_step dec36_step [OF pos]\<close>)
  next
    case False
    then have "n = 0" by (metis word_neq_0_conv)
    then show ?thesis by (simp add: unlabel_loop.simps)
  qed
qed

lemma uint32ToString_dec36:
  "uint32ToString n =
     Some (if n = 0 \<or> n > 2238976116 then ([], False)
           else (map (label_char \<circ> of_nat) (dec36 (unat n)), True))"
proof (cases "n = 0 \<or> n > 2238976116")
  case False
  then have "n \<le> 2238976116" by (simp add: not_less)
  then have "unat n \<le> 2238976116" by (simp add: word_le_nat_alt)
  then have "length (dec36 (unat n)) \<le> 6" by (intro dec36_length) simp
  with False show ?thesis by (simp add: uint32ToString_def unlabel_loop_dec36)
qed (auto simp: uint32ToString_def)

section \<open>Round trips\<close>

lemma valid_label_vals:
  assumes "valid_label s"
  shows "\<And>d. d \<in> set (map label_val s) \<Longrightarrow> d < 36" "enc36 (map label_val s) \<le> 2238976116"
    "0 < enc36 (map label_val s)"
proof -
  show small: "d < 36" if "d \<in> set (map label_val s)" for d
    using assms that label_digit_small by (fastforce simp: valid_label_def list_all_iff)
  from enc36_upper [of "map label_val s", OF small] have "enc36 (map label_val s) \<le> 36 * rep36 (length s)" by simp
  also have "\<dots> \<le> 36 * rep36 (Suc (Suc (Suc (Suc (Suc (Suc 0))))))"
    using assms by (intro mult_le_mono2 rep36_mono) (simp add: valid_label_def)
  finally show "enc36 (map label_val s) \<le> 2238976116" by simp
  have "rep36 (Suc 0) \<le> rep36 (length s)"
    using assms by (intro rep36_mono) (simp add: valid_label_def)
  also have "\<dots> \<le> enc36 (map label_val s)" using enc36_lower [of "map label_val s"] by simp
  finally show "0 < enc36 (map label_val s)" by simp
qed

lemma stringToUint32_unat:
  assumes "stringToUint32 s = (n, True)"
  shows "valid_label s" "unat n = enc36 (map label_val s)"
proof -
  show v: "valid_label s" using assms by (auto simp: stringToUint32_enc36 split: if_splits)
  with assms have "n = of_nat (enc36 (map label_val s))" by (simp add: stringToUint32_enc36)
  with valid_label_vals(2) [OF v] show "unat n = enc36 (map label_val s)"
    by (simp add: unat_of_nat_u32)
qed

lemma label_chars_of_vals:
  "list_all (\<lambda>c. label_digit c \<noteq> None) s \<Longrightarrow>
   map (label_char \<circ> of_nat) (map label_val s) = map to_lower s"
  by (induction s) (auto simp: label_char_digit)

text \<open>C35: a label that \<^verbatim>\<open>stringToUint32\<close> accepts is given back by \<^verbatim>\<open>uint32ToString\<close> in lower
  case, and its number is neither zero (the session's own id) nor above the decoder's bound.\<close>

theorem label_roundtrip:
  assumes "stringToUint32 s = (n, True)"
  shows "uint32ToString n = Some (map to_lower s, True) \<and> n \<noteq> 0 \<and> n \<le> 2238976116"
proof -
  note v = stringToUint32_unat [OF assms] and b = valid_label_vals [OF stringToUint32_unat(1) [OF assms]]
  have n0: "n \<noteq> 0" and hi: "n \<le> 2238976116"
    using v b by (auto simp: word_le_nat_alt)
  have "dec36 (unat n) = map label_val s" using dec36_enc36 [of "map label_val s", OF b(1)] v(2) by simp
  then have "uint32ToString n = Some (map (label_char \<circ> of_nat) (map label_val s), True)"
    using n0 hi by (simp add: uint32ToString_dec36 not_less)
  then show ?thesis
    using n0 hi v(1) label_chars_of_vals [of s] by (simp add: valid_label_def)
qed

theorem label_roundtrip_witness:
  "stringToUint32 [0x57, 0x65, 0x62] = (43320, True) \<and>
   uint32ToString 43320 = Some ([0x77, 0x65, 0x62], True)"
  using label_roundtrip [of "[0x57, 0x65, 0x62]" 43320]
  by (simp add: stringToUint32_def label_digit_def to_lower_def)

text \<open>every number that \<^verbatim>\<open>uint32ToString\<close> turns into a label is the number of that label,
  so \<^verbatim>\<open>Channel.Label\<close> names the channel it was opened under; every nonzero number up to the bound
  has such a label, and the six-byte buffer is never overrun.\<close>

lemma label_inverse:
  assumes "0 < n" "n \<le> 2238976116"
  shows "\<exists>s. uint32ToString n = Some (s, True) \<and> stringToUint32 s = (n, True)"
proof -
  let ?ds = "dec36 (unat n)" and ?f = "label_char \<circ> of_nat"
  have n: "0 < unat n" "unat n \<le> 2238976116"
    using assms by (simp_all add: word_le_nat_alt u32_pos)
  have small: "d < 36" if "d \<in> set ?ds" for d using that by (rule dec36_small)
  have "map (label_val \<circ> ?f) ?ds = ?ds"
    by (rule map_idI) (simp add: label_val_char small)
  moreover have "list_all (\<lambda>c. label_digit c \<noteq> None) (map ?f ?ds)"
    by (simp add: list_all_iff label_digit_char small)
  moreover have "?ds \<noteq> []" using n(1) by (simp add: dec36_step)
  ultimately have "valid_label (map ?f ?ds)" "enc36 (map label_val (map ?f ?ds)) = unat n"
    using dec36_length [OF n(2)] by (auto simp: valid_label_def Suc_le_eq)
  then have "stringToUint32 (map ?f ?ds) = (n, True)"
    by (simp only: stringToUint32_enc36 if_True) simp
  then show ?thesis using assms by (auto simp: uint32ToString_dec36 not_less)
qed

lemma label_inverse_example:
  "\<exists>s. uint32ToString 43320 = Some (s, True) \<and> stringToUint32 s = (43320, True)"
  by (rule label_inverse) simp_all

end
