(* ===== verification/Scheduler.thy ===== *)
theory Scheduler
  imports Flow
begin

text \<open>
  The write scheduler (\<^verbatim>\<open>src/write_scheduler.go\<close>) and the loss of a transport
  (\<^verbatim>\<open>handleDisconnect\<close> of \<^verbatim>\<open>src/session.go\<close>): collecting a batch from the two queues, resolving
  and merging control frames, writing the batch to a stream or as datagrams, the writer loop
  and the final flush.  The transport's \<^verbatim>\<open>Write\<close> is a parameter.  Where a \<^verbatim>\<open>select\<close> has several
  cases ready, the choice is an argument.
\<close>

section \<open>Connections\<close>

definition alterConn :: "nat option \<Rightarrow> session \<Rightarrow> session" where
  "alterConn conn = upd_ws (\<lambda>w. w\<lparr>ws_conn := conn, ws_connReady := True\<rparr>)"

definition alterConnIfSame :: "nat \<Rightarrow> session \<Rightarrow> session" where
  "alterConnIfSame c = upd_ws (\<lambda>w. if ws_conn w = Some c then w\<lparr>ws_conn := None\<rparr> else w)"

definition handleDisconnect :: "nat option \<Rightarrow> session \<Rightarrow> session" where
  "handleDisconnect failed s =
     (if s_closed s then s
      else if \<not> AllowConnectionResumption (s_config s) then s\<lparr>s_goClose := s_goClose s + 1\<rparr>
      else
        case s_conn s of
          None \<Rightarrow> s
        | Some old \<Rightarrow>
            if failed \<noteq> None \<and> failed \<noteq> Some old then s
            else
              let epoch = s_connEpoch s + 1;
                  s1 = alterConn None (s\<lparr>s_conn := None, s_connEpoch := epoch\<rparr>);
                  s2 = s1\<lparr>s_suspended := True, s_connClosed := s_connClosed s1 @ [old],
                          s_graceTimers := s_graceTimers s1 @
                            [(s_now s1 + ConnectionResumeTimeout (s_config s1), epoch)]\<rparr>
              in if s_redial s2 then s2\<lparr>s_goResume := s_goResume s2 + 1\<rparr> else s2)"

section \<open>Compacting a batch\<close>

definition resolve_ack :: "write_frame \<Rightarrow> session \<Rightarrow> write_frame \<times> session" where
  "resolve_ack f s =
     (case wf_ackCh f of
        None \<Rightarrow> (f, s)
      | Some c \<Rightarrow>
          let s1 = upd_ch c (\<lambda>ch. ch\<lparr>ch_ackPending := False\<rparr>) s
          in (f\<lparr>wf_offset := ch_ackOffset (s_objs s1 c)\<rparr>, s1))"

definition resolve_stream :: "write_frame \<Rightarrow> session \<Rightarrow> write_frame option \<times> session" where
  "resolve_stream f s =
     (case wf_streamFlow f of
        None \<Rightarrow> (Some f, s)
      | Some c \<Rightarrow>
          let delta = sf_unflushed (flow_of s c);
              s1 = upd_flow c (\<lambda>g. g\<lparr>sf_unflushed := 0, sf_updPending := False\<rparr>) s
          in if sint delta \<le> 0 then (None, releaseFrame f s1) else (Some (f\<lparr>wf_length := delta\<rparr>), s1))"

definition resolve_session :: "write_frame \<Rightarrow> session \<Rightarrow> write_frame option \<times> session" where
  "resolve_session f s =
     (if wf_sessionFlow f then
        let delta = sn_unflushed (s_flow s);
            s1 = upd_sn (\<lambda>g. g\<lparr>sn_unflushed := 0, sn_updPending := False\<rparr>) s
        in if sint delta \<le> 0 then (None, releaseFrame f s1) else (Some (f\<lparr>wf_length := delta\<rparr>), s1)
      else (Some f, s))"

fun merge_ack :: "write_frame \<Rightarrow> write_frame list \<Rightarrow> write_frame list option" where
  "merge_ack f [] = None"
| "merge_ack f (g # gs) =
     (if wf_flag g = FLG_ACK \<and> wf_chID g = wf_chID f
      then Some ((if wf_offset f > wf_offset g then g\<lparr>wf_offset := wf_offset f\<rparr> else g) # gs)
      else map_option ((#) g) (merge_ack f gs))"

fun merge_upd :: "write_frame \<Rightarrow> write_frame list \<Rightarrow> write_frame list option" where
  "merge_upd f [] = None"
| "merge_upd f (g # gs) =
     (if wf_flag g = FLG_UPD \<and> wf_chID g = wf_chID f
      then Some (g\<lparr>wf_length := wf_length g + wf_length f\<rparr> # gs)
      else map_option ((#) g) (merge_upd f gs))"

definition merge :: "write_frame \<Rightarrow> write_frame list \<Rightarrow> write_frame list option" where
  "merge f out =
     (if wf_flag f = FLG_ACK then merge_ack f out
      else if wf_flag f = FLG_UPD then merge_upd f out else None)"

text \<open>One iteration of the loop, then the loop; \<open>out\<close> is \<^verbatim>\<open>b.frames[:outIdx]\<close>.\<close>

definition compact_step :: "write_frame \<Rightarrow> write_frame list \<Rightarrow> session \<Rightarrow> write_frame list \<times> session" where
  "compact_step f out s =
     (let (f1, s1) = resolve_ack f s in
      case resolve_stream f1 s1 of
        (None, s2) \<Rightarrow> (out, s2)
      | (Some f2, s2) \<Rightarrow>
          (case resolve_session f2 s2 of
             (None, s3) \<Rightarrow> (out, s3)
           | (Some f3, s3) \<Rightarrow>
               (case merge f3 out of
                  Some out' \<Rightarrow> (out', releaseFrame f3 s3)
                | None \<Rightarrow> (out @ [f3], s3))))"

fun compact :: "write_frame list \<Rightarrow> write_frame list \<Rightarrow> session \<Rightarrow> write_frame list \<times> session" where
  "compact out [] s = (out, s)"
| "compact out (f # fs) s = (case compact_step f out s of (out', s') \<Rightarrow> compact out' fs s')"

definition compactAndResolveControlFrames :: "write_frame list \<Rightarrow> session \<Rightarrow> write_frame list \<times> session" where
  "compactAndResolveControlFrames fs s = compact [] fs s"

section \<open>Writing a batch\<close>

text \<open>The slices handed to \<^verbatim>\<open>net.Buffers\<close>, and its \<^verbatim>\<open>WriteTo\<close>: one \<^verbatim>\<open>Write\<close> after the other until one
  fails.\<close>

definition frame_bufs :: "write_frame \<Rightarrow> bytes list" where
  "frame_bufs f =
     putHeader f # (if wf_length f > 0 \<and> wf_pBuf f \<noteq> None then [payload f] else [])"

fun write_bufs :: "'w writer \<Rightarrow> bytes list \<Rightarrow> 'w \<Rightarrow> go_error option \<times> 'w" where
  "write_bufs wr [] w = (None, w)"
| "write_bufs wr (b # bs) w =
     (case wr w b of (Some e, w') \<Rightarrow> (Some e, w') | (None, w') \<Rightarrow> write_bufs wr bs w')"

text \<open>\<open>mx\<close> is \<^verbatim>\<open>maxDatagramSize()\<close> of a datagram transport, \<open>None\<close> for a stream.\<close>

definition writeBatch ::
  "'w writer \<Rightarrow> int option \<Rightarrow> write_frame list \<Rightarrow> session \<Rightarrow> 'w \<Rightarrow> go_error option \<times> session \<times> 'w" where
  "writeBatch wr mx b s w =
     (let (frames, s1) = compactAndResolveControlFrames b s in
      if frames = [] then (None, s1, w)
      else
        let (e, w1) = (case mx of
               Some m \<Rightarrow> flushDatagrams wr frames m w
             | None \<Rightarrow> write_bufs wr (concat (map frame_bufs frames)) w)
        in (e, fold releaseFrame frames s1, w1))"

section \<open>The writer loop\<close>

definition MaxBatchFramesInWriter :: nat where "MaxBatchFramesInWriter = 24"

text \<open>One receive from the queues; with both non-empty \<open>ctrl\<close> says which.\<close>

definition recv_frame :: "bool \<Rightarrow> session \<Rightarrow> (write_frame \<times> session) option" where
  "recv_frame ctrl s =
     (let w = s_writer s in
      case (ws_ctrlQueue w, ws_writes w) of
        ([], []) \<Rightarrow> None
      | (cf # cs, []) \<Rightarrow> Some (cf, upd_ws (\<lambda>w. w\<lparr>ws_ctrlQueue := cs\<rparr>) s)
      | ([], f # fs) \<Rightarrow> Some (f, upd_ws (\<lambda>w. w\<lparr>ws_writes := fs\<rparr>) s)
      | (cf # cs, f # fs) \<Rightarrow>
          if ctrl then Some (cf, upd_ws (\<lambda>w. w\<lparr>ws_ctrlQueue := cs\<rparr>) s)
          else Some (f, upd_ws (\<lambda>w. w\<lparr>ws_writes := fs\<rparr>) s))"

text \<open>\<open>k\<close> is the number of frames the batch still has room for.\<close>

fun collect_loop :: "(nat \<Rightarrow> bool) \<Rightarrow> nat \<Rightarrow> session \<Rightarrow> write_frame list \<times> session" where
  "collect_loop pick 0 s = ([], s)"
| "collect_loop pick (Suc k) s =
     (case recv_frame (pick k) s of
        None \<Rightarrow> ([], s)
      | Some (f, s1) \<Rightarrow> (case collect_loop pick k s1 of (fs, s2) \<Rightarrow> (f # fs, s2)))"

definition collect :: "(nat \<Rightarrow> bool) \<Rightarrow> write_frame list \<Rightarrow> session \<Rightarrow> write_frame list \<times> session" where
  "collect pick b s =
     (case collect_loop pick (MaxBatchFramesInWriter - length b) s of (fs, s1) \<Rightarrow> (b @ fs, s1))"

definition queued :: "session \<Rightarrow> nat" where
  "queued s = length (ws_ctrlQueue (s_writer s)) + length (ws_writes (s_writer s))"

lemma recv_frame_queued: "recv_frame p s = Some (f, s') \<Longrightarrow> queued s' < queued s"
  by (auto simp: recv_frame_def queued_def Let_def upd_ws_def split: list.splits if_splits)

function drainAndCleanup :: "(nat \<Rightarrow> bool) \<Rightarrow> session \<Rightarrow> session" where
  "drainAndCleanup pick s =
     (case recv_frame (pick (queued s)) s of
        None \<Rightarrow> s
      | Some (f, s1) \<Rightarrow> drainAndCleanup pick (releaseFrame f s1))"
  by pat_completeness auto
termination
proof (relation "measure (queued \<circ> snd)")
  fix pick s x f s1
  assume "recv_frame (pick (queued s)) s = Some x" "(f, s1) = x"
  then have "queued s1 < queued s" by (auto dest: recv_frame_queued)
  then show "((pick, releaseFrame f s1), (pick, s)) \<in> measure (queued \<circ> snd)"
    by (simp add: queued_def)
qed simp

declare drainAndCleanup.simps [simp del]

text \<open>The flush loop of \<^verbatim>\<open>finalFlush\<close>: \<open>rounds\<close> is the number of iterations the deadline allows; the
  flag tells whether a write failed.\<close>

fun flush_loop ::
  "(nat \<Rightarrow> bool) \<Rightarrow> 'w writer \<Rightarrow> int option \<Rightarrow> nat \<Rightarrow> session \<Rightarrow> 'w \<Rightarrow> bool \<times> session \<times> 'w" where
  "flush_loop pick wr mx 0 s w = (False, s, w)"
| "flush_loop pick wr mx (Suc rounds) s w =
     (case collect pick [] s of
        (b, s1) \<Rightarrow>
          if b = [] then (False, s1, w)
          else
            (case writeBatch wr mx b s1 w of
               (Some e, s2, w2) \<Rightarrow> (True, s2, w2)
             | (None, s2, w2) \<Rightarrow> flush_loop pick wr mx rounds s2 w2))"

definition finalFlush ::
  "(nat \<Rightarrow> bool) \<Rightarrow> 'w writer \<Rightarrow> int option \<Rightarrow> nat \<Rightarrow> session \<Rightarrow> 'w \<Rightarrow> session \<times> 'w" where
  "finalFlush pick wr mx rounds s w =
     (if ws_conn (s_writer s) = None then (drainAndCleanup pick s, w)
      else
        case flush_loop pick wr mx rounds s w of
          (True, s1, w1) \<Rightarrow> (drainAndCleanup pick s1, w1)
        | (False, s1, w1) \<Rightarrow>
            if s_goAwayRecv s1 then (drainAndCleanup pick s1, w1)
            else
              (case writeBatch wr mx [zero_frame\<lparr>wf_flag := FLG_GOAWAY\<rparr>] s1 w1 of
                 (_, s2, w2) \<Rightarrow> (drainAndCleanup pick s2, w2)))"

text \<open>\<^verbatim>\<open>writeLoop\<close> in two parts.  \<open>gather\<close> is the double \<^verbatim>\<open>select\<close> and \<^verbatim>\<open>collect\<close>: the loop leaves through
  \<^verbatim>\<open>ws.die\<close>, waits, or has a batch; \<open>seeDie\<close> is the choice when both are ready.  \<open>send_batch\<close> is
  the rest of the round: without a transport it waits for one, unless the session died.\<close>

datatype gathered = G_Die | G_Wait | G_Batch "write_frame list" session

definition gather :: "bool \<Rightarrow> (nat \<Rightarrow> bool) \<Rightarrow> session \<Rightarrow> gathered" where
  "gather seeDie pick s =
     (let w = s_writer s in
      if ws_closed w \<and> (seeDie \<or> ws_ctrlQueue w = []) then G_Die
      else
        case ws_ctrlQueue w of
          cf # cs \<Rightarrow>
            (case collect pick [cf] (upd_ws (\<lambda>w. w\<lparr>ws_ctrlQueue := cs\<rparr>) s) of (b, s1) \<Rightarrow> G_Batch b s1)
        | [] \<Rightarrow>
            (case ws_writes w of
               [] \<Rightarrow> G_Wait
             | f # fs \<Rightarrow>
                 (case collect pick [f] (upd_ws (\<lambda>w. w\<lparr>ws_writes := fs\<rparr>) s) of (b, s1) \<Rightarrow> G_Batch b s1)))"

datatype sent = Sent_Next | Sent_Wait | Sent_Exit

definition send_batch ::
  "(nat \<Rightarrow> bool) \<Rightarrow> 'w writer \<Rightarrow> int option \<Rightarrow> write_frame list \<Rightarrow> session \<Rightarrow> 'w \<Rightarrow> sent \<times> session \<times> 'w" where
  "send_batch pick wr mx b s w =
     (case ws_conn (s_writer s) of
        None \<Rightarrow>
          if ws_closed (s_writer s) then (Sent_Exit, drainAndCleanup pick (fold releaseFrame b s), w)
          else (Sent_Wait, upd_ws (\<lambda>x. x\<lparr>ws_connReady := False\<rparr>) s, w)
      | Some c \<Rightarrow>
          (case writeBatch wr mx b s w of
             (None, s1, w1) \<Rightarrow> (Sent_Next, s1, w1)
           | (Some e, s1, w1) \<Rightarrow> (Sent_Next, alterConnIfSame c (handleDisconnect (Some c) s1), w1)))"

definition scheduler_Close :: "session \<Rightarrow> session" where
  "scheduler_Close = upd_ws (\<lambda>w. w\<lparr>ws_closed := True\<rparr>)"

section \<open>What compaction keeps\<close>

text \<open>Only ACK frames point to a channel and only window updates to a flow.\<close>

definition kind_ok :: "write_frame \<Rightarrow> bool" where
  "kind_ok f \<longleftrightarrow>
     (wf_ackCh f \<noteq> None \<longrightarrow> wf_flag f = FLG_ACK) \<and>
     (wf_streamFlow f \<noteq> None \<or> wf_sessionFlow f \<longrightarrow> wf_flag f = FLG_UPD) \<and>
     \<not> (wf_streamFlow f \<noteq> None \<and> wf_sessionFlow f)"

definition is_ctl :: "write_frame \<Rightarrow> bool" where
  "is_ctl f \<longleftrightarrow> wf_flag f = FLG_ACK \<or> wf_flag f = FLG_UPD"

definition others :: "write_frame list \<Rightarrow> write_frame list" where
  "others fs = filter (\<lambda>f. \<not> is_ctl f) fs"

definition upd_sum :: "u32 \<Rightarrow> write_frame list \<Rightarrow> u32" where
  "upd_sum k fs = sum_list (map wf_length (filter (\<lambda>f. wf_flag f = FLG_UPD \<and> wf_chID f = k) fs))"

definition ack_ids :: "write_frame list \<Rightarrow> u32 list" where
  "ack_ids fs = map wf_chID (filter (\<lambda>f. wf_flag f = FLG_ACK) fs)"

lemma merge_ack_keeps:
  "merge_ack f out = Some out' \<Longrightarrow> others out' = others out \<and> upd_sum k out' = upd_sum k out \<and>
     ack_ids out' = ack_ids out \<and> wf_chID f \<in> set (ack_ids out) \<and> length out' = length out"
  by (induction f out arbitrary: out' rule: merge_ack.induct)
    (auto simp: others_def upd_sum_def ack_ids_def is_ctl_def flag_defs split: if_splits)

lemma merge_ack_None: "merge_ack f out = None \<Longrightarrow> wf_chID f \<notin> set (ack_ids out)"
  by (induction f out rule: merge_ack.induct) (auto simp: ack_ids_def split: if_splits)

lemma merge_upd_keeps:
  "merge_upd f out = Some out' \<Longrightarrow> others out' = others out \<and>
     upd_sum k out' = upd_sum k out + (if wf_chID f = k then wf_length f else 0) \<and>
     ack_ids out' = ack_ids out \<and> length out' = length out"
  by (induction f out arbitrary: out' rule: merge_upd.induct)
    (auto simp: others_def upd_sum_def ack_ids_def is_ctl_def flag_defs split: if_splits)

text \<open>What happens to the output when a resolved frame is added to it.\<close>

lemma merge_adds:
  assumes "out' = (case merge f out of Some x \<Rightarrow> x | None \<Rightarrow> out @ [f])"
  shows "others out' = others out @ others [f]"
    "upd_sum k out' = upd_sum k out + upd_sum k [f]"
    "distinct (ack_ids out) \<Longrightarrow> distinct (ack_ids out')"
    "length out' \<le> Suc (length out)"
  using assms merge_ack_keeps [of f out _ k] merge_ack_None [of f out] merge_upd_keeps [of f out _ k]
  by (auto simp: merge_def others_def is_ctl_def upd_sum_def ack_ids_def flag_defs
      split: option.splits if_splits)

lemma releaseFrame_flow [simp]: "flow_of (releaseFrame f s) c = flow_of s c"
  by simp

text \<open>A frame's three resolutions, for each kind of frame.\<close>

lemma compact_step_plain:
  assumes "wf_streamFlow f = None" "\<not> wf_sessionFlow f"
  shows "\<exists>f1 s1. wf_flag f1 = wf_flag f \<and> wf_chID f1 = wf_chID f \<and> wf_length f1 = wf_length f \<and>
     (wf_ackCh f = None \<longrightarrow> f1 = f) \<and>
     fst (compact_step f out s) = (case merge f1 out of Some x \<Rightarrow> x | None \<Rightarrow> out @ [f1]) \<and>
     snd (compact_step f out s) = (case merge f1 out of Some x \<Rightarrow> releaseFrame f1 s1 | None \<Rightarrow> s1) \<and>
     (\<forall>c. flow_of s1 c = flow_of s c) \<and> s_flow s1 = s_flow s"
proof -
  obtain f1 s1 where r: "resolve_ack f s = (f1, s1)" by (metis surj_pair)
  then have "wf_flag f1 = wf_flag f \<and> wf_chID f1 = wf_chID f \<and> wf_length f1 = wf_length f \<and>
     (wf_ackCh f = None \<longrightarrow> f1 = f) \<and> wf_streamFlow f1 = None \<and> \<not> wf_sessionFlow f1 \<and>
     (\<forall>c. flow_of s1 c = flow_of s c) \<and> s_flow s1 = s_flow s"
    using assms by (auto simp: resolve_ack_def upd_ch_def Let_def split: option.splits)
  with r show ?thesis
    by (intro exI [of _ f1] exI [of _ s1])
      (simp add: compact_step_def resolve_stream_def resolve_session_def split: option.split)
qed

lemma compact_step_stream:
  assumes "wf_streamFlow f = Some c" "wf_ackCh f = None" "\<not> wf_sessionFlow f"
  shows "compact_step f out s =
    (let delta = sf_unflushed (flow_of s c);
         s1 = upd_flow c (\<lambda>g. g\<lparr>sf_unflushed := 0, sf_updPending := False\<rparr>) s;
         f1 = f\<lparr>wf_length := delta\<rparr>
     in if sint delta \<le> 0 then (out, releaseFrame f s1)
        else (case merge f1 out of Some x \<Rightarrow> (x, releaseFrame f1 s1) | None \<Rightarrow> (out @ [f1], s1)))"
  using assms
  by (simp add: compact_step_def resolve_ack_def resolve_stream_def resolve_session_def Let_def)

lemma compact_step_session:
  assumes "wf_streamFlow f = None" "wf_ackCh f = None" "wf_sessionFlow f"
  shows "compact_step f out s =
    (let delta = sn_unflushed (s_flow s);
         s1 = upd_sn (\<lambda>g. g\<lparr>sn_unflushed := 0, sn_updPending := False\<rparr>) s;
         f1 = f\<lparr>wf_length := delta\<rparr>
     in if sint delta \<le> 0 then (out, releaseFrame f s1)
        else (case merge f1 out of Some x \<Rightarrow> (x, releaseFrame f1 s1) | None \<Rightarrow> (out @ [f1], s1)))"
  using assms
  by (simp add: compact_step_def resolve_ack_def resolve_stream_def resolve_session_def Let_def)

text \<open>The credit that is on its way to channel \<open>k\<close>, whose flow is that of the channel at \<open>c\<close>.\<close>

definition on_its_way :: "cref \<Rightarrow> u32 \<Rightarrow> write_frame list \<Rightarrow> session \<Rightarrow> u32" where
  "on_its_way c k out s = upd_sum k out + sf_unflushed (flow_of s c)"

definition points_to :: "cref \<Rightarrow> u32 \<Rightarrow> write_frame \<Rightarrow> bool" where
  "points_to c k f \<longleftrightarrow>
     (wf_flag f = FLG_UPD \<and> wf_chID f = k \<longleftrightarrow> wf_streamFlow f = Some c)"

lemma upd_sum_single [simp]:
  "upd_sum k [f] = (if wf_flag f = FLG_UPD \<and> wf_chID f = k then wf_length f else 0)"
  by (simp add: upd_sum_def)

text \<open>\<open>kept\<close> collects what a step from \<open>(out, s)\<close> to \<open>(out', s')\<close> on frame \<open>f\<close> guarantees.\<close>

definition kept :: "cref \<Rightarrow> u32 \<Rightarrow> write_frame list \<Rightarrow> write_frame list \<Rightarrow> session \<Rightarrow> write_frame list \<Rightarrow> session \<Rightarrow> bool" where
  "kept c k fs out s out' s' \<longleftrightarrow>
     others out' = others out @ others fs \<and> (distinct (ack_ids out) \<longrightarrow> distinct (ack_ids out')) \<and>
     length out' \<le> length out + length fs \<and> on_its_way c k out' s' = on_its_way c k out s \<and>
     0 \<le> sint (sf_unflushed (flow_of s' c))"

lemma kept_merge:
  assumes "out' = (case merge g out of Some x \<Rightarrow> x | None \<Rightarrow> out @ [g])" "others [g] = others [f]"
    "upd_sum k [g] + sf_unflushed (flow_of s' c) = sf_unflushed (flow_of s c)"
    "0 \<le> sint (sf_unflushed (flow_of s' c))"
  shows "kept c k [f] out s out' s'"
  using merge_adds [OF assms(1)] assms(2-4) by (simp add: kept_def on_its_way_def)

lemma compact_step_kept_plain:
  assumes "kind_ok f" "points_to c k f" "0 \<le> sint (sf_unflushed (flow_of s c))"
    and "compact_step f out s = (out', s')" "wf_streamFlow f = None" "\<not> wf_sessionFlow f"
  shows "kept c k [f] out s out' s'"
proof -
  obtain f1 s1 where f1: "wf_flag f1 = wf_flag f" "wf_chID f1 = wf_chID f" "wf_ackCh f = None \<longrightarrow> f1 = f"
     "out' = (case merge f1 out of Some x \<Rightarrow> x | None \<Rightarrow> out @ [f1])"
     "s' = (case merge f1 out of Some x \<Rightarrow> releaseFrame f1 s1 | None \<Rightarrow> s1)"
     "\<forall>c. flow_of s1 c = flow_of s c"
    using compact_step_plain [OF assms(5,6), of out s] assms(4) by auto
  have "others [f1] = others [f]" using f1(1,3) assms(1) by (auto simp: others_def is_ctl_def kind_ok_def)
  moreover have "flow_of s' c = flow_of s c" using f1(5,6) by (simp split: option.splits)
  moreover have "upd_sum k [f1] = 0" using f1(1,2) assms(2,5) by (auto simp: points_to_def)
  ultimately show ?thesis using kept_merge [OF f1(4)] assms(3) by simp
qed

lemma compact_step_kept_session:
  assumes "kind_ok f" "points_to c k f" "0 \<le> sint (sf_unflushed (flow_of s c))"
    and "compact_step f out s = (out', s')" "wf_streamFlow f = None" "wf_sessionFlow f"
  shows "kept c k [f] out s out' s'"
proof -
  let ?g = "f\<lparr>wf_length := sn_unflushed (s_flow s)\<rparr>"
  have f: "wf_flag f = FLG_UPD" "wf_ackCh f = None" "wf_chID f \<noteq> k"
    using assms(1,2,5,6) by (auto simp: kind_ok_def points_to_def flag_defs)
  note step = compact_step_session [OF assms(5) f(2) assms(6), of out s]
  have fl: "flow_of s' c = flow_of s c"
    using assms(4) step by (auto simp: Let_def split: if_splits option.splits)
  show ?thesis
  proof (cases "sint (sn_unflushed (s_flow s)) \<le> 0")
    case True
    with assms(3,4) step fl f show ?thesis by (auto simp: kept_def on_its_way_def others_def is_ctl_def Let_def)
  next
    case False
    with assms(4) step have "out' = (case merge ?g out of Some x \<Rightarrow> x | None \<Rightarrow> out @ [?g])"
      by (auto simp: Let_def split: option.splits)
    then show ?thesis using f fl assms(3) by (intro kept_merge) (auto simp: others_def is_ctl_def)
  qed
qed

lemma compact_step_kept_stream:
  assumes "kind_ok f" "points_to c k f" "0 \<le> sint (sf_unflushed (flow_of s c))"
    and "compact_step f out s = (out', s')" "wf_streamFlow f = Some d"
  shows "kept c k [f] out s out' s'"
proof -
  let ?g = "f\<lparr>wf_length := sf_unflushed (flow_of s d)\<rparr>"
  have f: "wf_flag f = FLG_UPD" "wf_ackCh f = None" "\<not> wf_sessionFlow f" "wf_chID f = k \<longleftrightarrow> d = c"
    using assms(1,2,5) by (auto simp: kind_ok_def points_to_def flag_defs)
  note step = compact_step_stream [OF assms(5) f(2,3), of out s]
  have fl: "sf_unflushed (flow_of s' c) = (if d = c then 0 else sf_unflushed (flow_of s c))"
    using assms(4) step by (auto simp: Let_def split: if_splits option.splits)
  show ?thesis
  proof (cases "sint (sf_unflushed (flow_of s d)) \<le> 0")
    case True
    then have "d = c \<Longrightarrow> sf_unflushed (flow_of s c) = 0" using assms(3) by (simp add: signed_eq_0_iff)
    with True assms(3,4) step fl f show ?thesis
      by (auto simp: kept_def on_its_way_def others_def is_ctl_def Let_def)
  next
    case False
    with assms(4) step have "out' = (case merge ?g out of Some x \<Rightarrow> x | None \<Rightarrow> out @ [?g])"
      by (auto simp: Let_def split: option.splits)
    then show ?thesis using f fl assms(3) by (intro kept_merge) (auto simp: others_def is_ctl_def)
  qed
qed

lemma compact_kept:
  assumes "list_all kind_ok fs" "list_all (points_to c k) fs" "0 \<le> sint (sf_unflushed (flow_of s c))"
    and "compact out fs s = (out', s')"
  shows "kept c k fs out s out' s'"
  using assms
proof (induction fs arbitrary: out s)
  case Nil
  then show ?case by (simp add: kept_def others_def)
next
  case (Cons f fs)
  obtain o1 s1 where o1: "compact_step f out s = (o1, s1)" by (metis surj_pair)
  have f: "kind_ok f" "points_to c k f" using Cons.prems by simp_all
  have k1: "kept c k [f] out s o1 s1"
  proof (cases "wf_streamFlow f")
    case None
    then show ?thesis
      using compact_step_kept_plain [OF f Cons.prems(3) o1] compact_step_kept_session [OF f Cons.prems(3) o1]
      by (cases "wf_sessionFlow f") simp_all
  next
    case (Some d)
    then show ?thesis by (rule compact_step_kept_stream [OF f Cons.prems(3) o1])
  qed
  have "kept c k fs o1 s1 out' s'"
    using Cons.IH [of s1 o1] Cons.prems o1 k1 by (simp add: kept_def)
  with k1 show ?case by (auto simp: kept_def others_def)
qed

lemma resolve_flows:
  "flow_of (snd (resolve_ack f s)) c = flow_of s c"
  "wf_streamFlow (fst (resolve_ack f s)) = wf_streamFlow f"
  "flow_of (snd (resolve_stream f s)) c =
     (if wf_streamFlow f = Some c then (flow_of s c)\<lparr>sf_unflushed := 0, sf_updPending := False\<rparr>
      else flow_of s c)"
  "flow_of (snd (resolve_session f s)) c = flow_of s c"
  by (auto simp: resolve_ack_def resolve_stream_def resolve_session_def Let_def upd_ch_def split: option.split)

lemma compact_step_state:
  "\<exists>g. snd (compact_step f out s) =
     (let s2 = snd (resolve_stream (fst (resolve_ack f s)) (snd (resolve_ack f s))) in
      case g of None \<Rightarrow> s2
      | Some (g, rel) \<Rightarrow>
          if rel then releaseFrame (the (fst (resolve_session g s2))) (snd (resolve_session g s2))
          else snd (resolve_session g s2))"
proof -
  obtain f1 s1 where 1: "resolve_ack f s = (f1, s1)" by (metis surj_pair)
  obtain r2 s2 where 2: "resolve_stream f1 s1 = (r2, s2)" by (metis surj_pair)
  show ?thesis
  proof (cases r2)
    case None
    then show ?thesis by (intro exI [of _ None]) (simp add: compact_step_def 1 2)
  next
    case (Some f2)
    obtain r3 s3 where 3: "resolve_session f2 s2 = (r3, s3)" by (metis surj_pair)
    show ?thesis
      using Some 3
      by (intro exI [of _ "Some (f2, r3 \<noteq> None \<and> merge (the r3) out \<noteq> None)"])
        (cases r3; cases "merge (the r3) out"; simp add: compact_step_def 1 2)
  qed
qed

lemma compact_step_flow:
  "flow_of (snd (compact_step f out s)) c =
     (if wf_streamFlow f = Some c then (flow_of s c)\<lparr>sf_unflushed := 0, sf_updPending := False\<rparr>
      else flow_of s c)"
proof -
  obtain g where g: "snd (compact_step f out s) =
     (let s2 = snd (resolve_stream (fst (resolve_ack f s)) (snd (resolve_ack f s))) in
      case g of None \<Rightarrow> s2
      | Some (g, rel) \<Rightarrow>
          if rel then releaseFrame (the (fst (resolve_session g s2))) (snd (resolve_session g s2))
          else snd (resolve_session g s2))"
    using compact_step_state by blast
  show ?thesis unfolding g by (cases g) (simp_all add: Let_def case_prod_beta resolve_flows)
qed

lemma compact_clears:
  "(\<exists>f\<in>set fs. wf_streamFlow f = Some c) \<or> sf_unflushed (flow_of s c) = 0 \<and> \<not> sf_updPending (flow_of s c) \<Longrightarrow>
   sf_unflushed (flow_of (snd (compact out fs s)) c) = 0 \<and>
   \<not> sf_updPending (flow_of (snd (compact out fs s)) c)"
proof (induction fs arbitrary: out s)
  case (Cons f fs)
  then show ?case
    using compact_step_flow [of f out s c]
    by (cases "wf_streamFlow f = Some c") (auto simp: case_prod_beta)
qed simp

lemma resolve_keep:
  "s_writer (snd (resolve_ack f s)) = s_writer s" "s_writer (snd (resolve_stream f s)) = s_writer s"
  "s_writer (snd (resolve_session f s)) = s_writer s"
  "ch_ackOffset (s_objs (snd (resolve_ack f s)) c) = ch_ackOffset (s_objs s c)"
  "ch_ackOffset (s_objs (snd (resolve_stream f s)) c) = ch_ackOffset (s_objs s c)"
  "ch_ackOffset (s_objs (snd (resolve_session f s)) c) = ch_ackOffset (s_objs s c)"
  by (auto simp: resolve_ack_def resolve_stream_def resolve_session_def Let_def upd_ch_def upd_flow_def
      split: option.split)

lemma compact_step_keep:
  "s_writer (snd (compact_step f out s)) = s_writer s"
  "ch_ackOffset (s_objs (snd (compact_step f out s)) c) = ch_ackOffset (s_objs s c)"
proof -
  obtain g where g: "snd (compact_step f out s) =
     (let s2 = snd (resolve_stream (fst (resolve_ack f s)) (snd (resolve_ack f s))) in
      case g of None \<Rightarrow> s2
      | Some (g, rel) \<Rightarrow>
          if rel then releaseFrame (the (fst (resolve_session g s2))) (snd (resolve_session g s2))
          else snd (resolve_session g s2))"
    using compact_step_state by blast
  show "s_writer (snd (compact_step f out s)) = s_writer s"
    "ch_ackOffset (s_objs (snd (compact_step f out s)) c) = ch_ackOffset (s_objs s c)"
    unfolding g by (cases g; simp add: Let_def case_prod_beta resolve_keep)+
qed

lemma compact_keep: "s_writer (snd (compact out fs s)) = s_writer s"
  by (induction fs arbitrary: out s) (simp_all add: case_prod_beta compact_step_keep)

lemma compact_step_out:
  "fst (compact_step f out s) = out \<or>
   (\<exists>g. fst (compact_step f out s) = (case merge g out of Some x \<Rightarrow> x | None \<Rightarrow> out @ [g]) \<and>
      wf_flag g = wf_flag f \<and> wf_chID g = wf_chID f \<and> wf_offset g = wf_offset (fst (resolve_ack f s)))"
proof -
  obtain f1 s1 where 1: "resolve_ack f s = (f1, s1)" by (metis surj_pair)
  obtain r2 s2 where 2: "resolve_stream f1 s1 = (r2, s2)" by (metis surj_pair)
  have f1: "wf_flag f1 = wf_flag f" "wf_chID f1 = wf_chID f"
    using 1 by (auto simp: resolve_ack_def Let_def split: option.splits)
  show ?thesis
  proof (cases r2)
    case (Some f2)
    with 2 have f2: "wf_flag f2 = wf_flag f1" "wf_chID f2 = wf_chID f1" "wf_offset f2 = wf_offset f1"
      by (auto simp: resolve_stream_def Let_def split: option.splits if_splits)
    obtain r3 s3 where 3: "resolve_session f2 s2 = (r3, s3)" by (metis surj_pair)
    show ?thesis
    proof (cases r3)
      case (Some f3)
      with 3 have "wf_flag f3 = wf_flag f2" "wf_chID f3 = wf_chID f2" "wf_offset f3 = wf_offset f2"
        by (auto simp: resolve_session_def Let_def split: if_splits)
      with f1 f2 \<open>r2 = Some f2\<close> Some 3 show ?thesis
        by (intro disjI2 exI [of _ f3]) (simp add: compact_step_def 1 2 split: option.split)
    qed (simp add: compact_step_def 1 2 3 Some)
  qed (simp add: compact_step_def 1 2)
qed

definition acks_are :: "u64 \<Rightarrow> u32 \<Rightarrow> write_frame list \<Rightarrow> bool" where
  "acks_are a k out \<longleftrightarrow> list_all (\<lambda>g. wf_flag g = FLG_ACK \<and> wf_chID g = k \<longrightarrow> wf_offset g = a) out"

lemma merge_ack_acks:
  "merge_ack f out = Some out' \<Longrightarrow> acks_are a k out \<Longrightarrow> wf_chID f = k \<longrightarrow> wf_offset f = a \<Longrightarrow> acks_are a k out'"
  by (induction f out arbitrary: out' rule: merge_ack.induct) (auto simp: acks_are_def split: if_splits)

lemma merge_upd_acks: "merge_upd f out = Some out' \<Longrightarrow> acks_are a k out \<Longrightarrow> acks_are a k out'"
  by (induction f out arbitrary: out' rule: merge_upd.induct) (auto simp: acks_are_def flag_defs split: if_splits)

lemma compact_step_acks:
  assumes "acks_are a k out" "wf_flag f = FLG_ACK \<and> wf_chID f = k \<longrightarrow> wf_ackCh f = Some c"
    "ch_ackOffset (s_objs s c) = a"
  shows "acks_are a k (fst (compact_step f out s))"
proof -
  have off: "wf_flag f = FLG_ACK \<Longrightarrow> wf_chID f = k \<Longrightarrow> wf_offset (fst (resolve_ack f s)) = a"
    using assms(2,3) by (simp add: resolve_ack_def Let_def upd_ch_def)
  from compact_step_out [of f out s] show ?thesis
  proof
    assume "\<exists>g. fst (compact_step f out s) = (case merge g out of Some x \<Rightarrow> x | None \<Rightarrow> out @ [g]) \<and>
      wf_flag g = wf_flag f \<and> wf_chID g = wf_chID f \<and> wf_offset g = wf_offset (fst (resolve_ack f s))"
    then obtain g where g: "fst (compact_step f out s) = (case merge g out of Some x \<Rightarrow> x | None \<Rightarrow> out @ [g])"
      "wf_flag g = wf_flag f" "wf_chID g = wf_chID f" "wf_offset g = wf_offset (fst (resolve_ack f s))" by blast
    have go: "wf_flag g = FLG_ACK \<and> wf_chID g = k \<longrightarrow> wf_offset g = a" using g off by simp
    show ?thesis
    proof (cases "merge g out")
      case None
      with g(1) go assms(1) show ?thesis by (simp add: acks_are_def)
    next
      case (Some x)
      with go assms(1) merge_ack_acks [of g out x a k] merge_upd_acks [of g out x a k]
      have "acks_are a k x" by (simp add: merge_def split: if_splits)
      with g(1) Some show ?thesis by simp
    qed
  qed (use assms(1) in simp)
qed

lemma compact_acks:
  "acks_are a k out \<Longrightarrow> list_all (\<lambda>f. wf_flag f = FLG_ACK \<and> wf_chID f = k \<longrightarrow> wf_ackCh f = Some c) fs \<Longrightarrow>
   ch_ackOffset (s_objs s c) = a \<Longrightarrow> acks_are a k (fst (compact out fs s))"
proof (induction fs arbitrary: out s)
  case (Cons f fs)
  have "acks_are a k (fst (compact_step f out s))"
    using Cons.prems by (intro compact_step_acks [of _ _ _ _ c]) simp_all
  with Cons show ?case by (simp add: case_prod_beta compact_step_keep)
qed simp

text \<open>An ACK remains for every channel that had one.\<close>

lemma ack_ids_single: "ack_ids [g] = (if wf_flag g = FLG_ACK then [wf_chID g] else [])"
  by (simp add: ack_ids_def)

lemma merge_ack_ids:
  "out' = (case merge g out of Some x \<Rightarrow> x | None \<Rightarrow> out @ [g]) \<Longrightarrow>
   set (ack_ids out') = set (ack_ids out) \<union> set (ack_ids [g])"
proof (cases "merge g out")
  case None
  moreover assume "out' = (case merge g out of Some x \<Rightarrow> x | None \<Rightarrow> out @ [g])"
  ultimately show ?thesis by (auto simp: ack_ids_def)
next
  case (Some x)
  moreover assume "out' = (case merge g out of Some x \<Rightarrow> x | None \<Rightarrow> out @ [g])"
  ultimately have "wf_flag g = FLG_ACK \<and> merge_ack g out = Some out' \<or> wf_flag g = FLG_UPD \<and> merge_upd g out = Some out'"
    by (simp add: merge_def split: if_splits)
  then show ?thesis
    using merge_ack_keeps [of g out out'] merge_upd_keeps [of g out out'] by (auto simp: ack_ids_single flag_defs)
qed

lemma compact_step_ack_ids:
  assumes "kind_ok f"
  shows "set (ack_ids (fst (compact_step f out s))) = set (ack_ids out) \<union> set (ack_ids [f])"
proof (cases "wf_flag f = FLG_ACK")
  case True
  with assms have "wf_streamFlow f = None" "\<not> wf_sessionFlow f" by (auto simp: kind_ok_def flag_defs)
  from compact_step_plain [OF this, of out s] obtain g where
    "wf_flag g = wf_flag f" "wf_chID g = wf_chID f"
    "fst (compact_step f out s) = (case merge g out of Some x \<Rightarrow> x | None \<Rightarrow> out @ [g])" by blast
  then show ?thesis using merge_ack_ids [where g = g and out = out] by (simp add: ack_ids_single)
next
  case False
  then show ?thesis
    using compact_step_out [of f out s] merge_ack_ids [OF refl, where out = out] by (auto simp: ack_ids_single)
qed

lemma compact_ack_ids:
  "list_all kind_ok fs \<Longrightarrow>
   set (ack_ids (fst (compact out fs s))) = set (ack_ids out) \<union> set (ack_ids fs)"
proof (induction fs arbitrary: out s)
  case (Cons f fs)
  then show ?case
    using compact_step_ack_ids [of f out s] by (auto simp: case_prod_beta ack_ids_def)
qed (simp add: ack_ids_def)

text \<open>C15: Compaction loses nothing and repeats nothing: frames other than ACKs and window updates stay,
  in order; exactly one ACK remains for every channel that had any, and it carries the channel's
  current acknowledgement offset; and the window updates that go out to a channel announce exactly the
  credit that was waiting, which is then zero with its pending flag cleared.\<close>

theorem compaction_correct:
  assumes "list_all kind_ok fs" "list_all (points_to c k) fs" "0 \<le> sint (sf_unflushed (flow_of s c))"
    and "list_all (\<lambda>f. wf_flag f = FLG_ACK \<and> wf_chID f = k \<longrightarrow> wf_ackCh f = Some c) fs"
    and "compactAndResolveControlFrames fs s = (out, s')"
  shows "others out = others fs \<and> length out \<le> length fs \<and> distinct (ack_ids out) \<and>
    set (ack_ids out) = set (ack_ids fs) \<and> acks_are (ch_ackOffset (s_objs s c)) k out \<and>
    upd_sum k out + sf_unflushed (flow_of s' c) = sf_unflushed (flow_of s c) \<and>
    (list_ex (\<lambda>f. wf_streamFlow f = Some c) fs \<longrightarrow>
       sf_unflushed (flow_of s' c) = 0 \<and> \<not> sf_updPending (flow_of s' c))"
proof -
  have comp: "compact [] fs s = (out, s')" using assms(5) by (simp add: compactAndResolveControlFrames_def)
  from compact_kept [OF assms(1-3) comp] have "kept c k fs [] s out s'" .
  moreover have "set (ack_ids out) = set (ack_ids fs)"
    using compact_ack_ids [OF assms(1), of "[]" s] comp by (simp add: ack_ids_def)
  moreover have "acks_are (ch_ackOffset (s_objs s c)) k out"
    using compact_acks [where out = "[]" and s = s, OF _ assms(4) refl] comp by (simp add: acks_are_def)
  moreover have "list_ex (\<lambda>f. wf_streamFlow f = Some c) fs \<longrightarrow>
      sf_unflushed (flow_of s' c) = 0 \<and> \<not> sf_updPending (flow_of s' c)"
    using compact_clears [where out = "[]" and fs = fs and c = c and s = s] comp by (auto simp: list_ex_iff)
  ultimately show ?thesis
    by (simp add: kept_def on_its_way_def others_def upd_sum_def ack_ids_def)
qed

theorem compaction_correct_witness:
  "\<exists>out s'. compactAndResolveControlFrames
       [zero_frame\<lparr>wf_flag := FLG_UPD, wf_chID := 1, wf_streamFlow := Some 0\<rparr>,
        zero_frame\<lparr>wf_flag := FLG_FIN, wf_chID := 1\<rparr>]
       (upd_flow 0 (\<lambda>g. g\<lparr>sf_unflushed := 300, sf_updPending := True\<rparr>) sample_session) = (out, s') \<and>
     others out = [zero_frame\<lparr>wf_flag := FLG_FIN, wf_chID := 1\<rparr>] \<and> upd_sum 1 out = 300"
proof -
  let ?s = "upd_flow 0 (\<lambda>g. g\<lparr>sf_unflushed := 300, sf_updPending := True\<rparr>) sample_session"
  let ?fs = "[zero_frame\<lparr>wf_flag := FLG_UPD, wf_chID := 1, wf_streamFlow := Some 0\<rparr>,
    zero_frame\<lparr>wf_flag := FLG_FIN, wf_chID := 1\<rparr>]"
  obtain out s' where o: "compactAndResolveControlFrames ?fs ?s = (out, s')" by (metis surj_pair)
  have p: "list_all kind_ok ?fs" "list_all (points_to 0 1) ?fs"
    "list_all (\<lambda>f. wf_flag f = FLG_ACK \<and> wf_chID f = 1 \<longrightarrow> wf_ackCh f = Some 0) ?fs"
    by (simp_all add: kind_ok_def points_to_def zero_frame_def flag_defs)
  have "others ?fs = [zero_frame\<lparr>wf_flag := FLG_FIN, wf_chID := 1\<rparr>]"
    by (simp add: others_def is_ctl_def flag_defs)
  moreover have "0 \<le> sint (sf_unflushed (flow_of ?s 0))" "sf_unflushed (flow_of ?s 0) = 300" by simp_all
  moreover have "list_ex (\<lambda>f. wf_streamFlow f = Some 0) ?fs" by simp
  ultimately show ?thesis
    using compaction_correct [OF p(1,2) _ p(3) o] o by auto
qed

section \<open>Collecting and draining\<close>

definition queues_are :: "session \<Rightarrow> write_frame list \<Rightarrow> write_frame list \<Rightarrow> bool" where
  "queues_are s cs ws \<longleftrightarrow> ws_ctrlQueue (s_writer s) = cs \<and> ws_writes (s_writer s) = ws"

lemma recv_frame_cases:
  "queues_are s cs ws \<Longrightarrow>
   (case recv_frame p s of
      None \<Rightarrow> cs = [] \<and> ws = []
    | Some (f, s1) \<Rightarrow> (cs \<noteq> [] \<and> f = hd cs \<and> queues_are s1 (tl cs) ws) \<or> (ws \<noteq> [] \<and> f = hd ws \<and> queues_are s1 cs (tl ws)))"
  by (auto simp: recv_frame_def queues_are_def Let_def upd_ws_def split: list.split)

lemma collect_loop_shuffle:
  "collect_loop pick k s = (fs, s') \<Longrightarrow> queues_are s cs ws \<Longrightarrow>
   \<exists>xs ys cs' ws'. cs = xs @ cs' \<and> ws = ys @ ws' \<and> queues_are s' cs' ws' \<and> fs \<in> shuffles xs ys \<and>
     length fs \<le> k \<and> (length fs < k \<longrightarrow> cs' = [] \<and> ws' = [])"
proof (induction k arbitrary: s fs cs ws)
  case 0
  then show ?case by (intro exI [of _ "[]"] exI [of _ cs] exI [of _ ws]) simp
next
  case (Suc k)
  show ?case
  proof (cases "recv_frame (pick k) s")
    case None
    with Suc.prems recv_frame_cases [OF Suc.prems(2), of "pick k"] show ?thesis by simp
  next
    case (Some r)
    obtain f s1 where r: "r = (f, s1)" by (cases r)
    obtain gs where gs: "collect_loop pick k s1 = (gs, s')" "fs = f # gs"
      using Suc.prems(1) Some r by (auto split: prod.splits)
    from recv_frame_cases [OF Suc.prems(2), of "pick k"] Some r
    consider (ctrl) cs1 where "cs = f # cs1" "queues_are s1 cs1 ws" | (data) ws1 where "ws = f # ws1" "queues_are s1 cs ws1"
      by (auto simp: neq_Nil_conv)
    then show ?thesis
    proof cases
      case ctrl
      from Suc.IH [OF gs(1) ctrl(2)] obtain xs ys cs' ws' where
        "cs1 = xs @ cs'" "ws = ys @ ws'" "queues_are s' cs' ws'" "gs \<in> shuffles xs ys" "length gs \<le> k"
        "length gs < k \<longrightarrow> cs' = [] \<and> ws' = []" by blast
      with ctrl gs(2) show ?thesis
        by (intro exI [of _ "f # xs"] exI [of _ ys] exI [of _ cs'] exI [of _ ws']) (simp add: Cons_in_shuffles_leftI)
    next
      case data
      from Suc.IH [OF gs(1) data(2)] obtain xs ys cs' ws' where
        "cs = xs @ cs'" "ws1 = ys @ ws'" "queues_are s' cs' ws'" "gs \<in> shuffles xs ys" "length gs \<le> k"
        "length gs < k \<longrightarrow> cs' = [] \<and> ws' = []" by blast
      with data gs(2) show ?thesis
        by (intro exI [of _ xs] exI [of _ "f # ys"] exI [of _ cs'] exI [of _ ws']) (simp add: Cons_in_shuffles_rightI)
    qed
  qed
qed

lemma drain_queued: "queued (drainAndCleanup pick s) = 0"
proof (induction pick s rule: drainAndCleanup.induct)
  case (1 pick s)
  show ?case
  proof (cases "recv_frame (pick (queued s)) s")
    case None
    then have "queued s = 0"
      by (auto simp: recv_frame_def queued_def Let_def split: list.splits if_splits)
    with None show ?thesis by (simp add: drainAndCleanup.simps)
  next
    case (Some r)
    then show ?thesis using "1.IH" [OF Some] by (cases r) (simp add: drainAndCleanup.simps [of pick s])
  qed
qed

lemma writeBatch_writer:
  "writeBatch wr mx b s w = (e, s', w') \<Longrightarrow> s_writer s' = s_writer s"
proof -
  assume a: "writeBatch wr mx b s w = (e, s', w')"
  have f: "s_writer (fold releaseFrame fs t) = s_writer t" for fs t by (induction fs arbitrary: t) simp_all
  from a show ?thesis
    using compact_keep [of "[]" b s]
    by (auto simp: writeBatch_def compactAndResolveControlFrames_def case_prod_beta f split: if_splits)
qed

lemma finalFlush_queued: "queued (fst (finalFlush pick wr mx rounds s w)) = 0"
  by (simp add: finalFlush_def drain_queued split: prod.split bool.split)

text \<open>A batch is at most 24 frames and takes the frames of each queue in the order they were queued,
  leaving none behind unless the batch is full; the final flush always ends with both queues
  empty, whether its writes succeed, fail or run out of time.\<close>

lemma collect_in_order:
  "(case collect pick [] s of (fs, s') \<Rightarrow>
     \<exists>xs ys cs' ws'. queues_are s (xs @ cs') (ys @ ws') \<and> queues_are s' cs' ws' \<and> fs \<in> shuffles xs ys \<and>
        length fs \<le> MaxBatchFramesInWriter \<and> (length fs = MaxBatchFramesInWriter \<or> cs' = [] \<and> ws' = [])) \<and>
   queued (fst (finalFlush pick wr mx rounds s w)) = 0"
proof (intro conjI finalFlush_queued)
  obtain fs s' where c: "collect_loop pick MaxBatchFramesInWriter s = (fs, s')" by (metis surj_pair)
  have "queues_are s (ws_ctrlQueue (s_writer s)) (ws_writes (s_writer s))" by (simp add: queues_are_def)
  from collect_loop_shuffle [OF c this] obtain xs ys cs' ws' where
    "queues_are s (xs @ cs') (ys @ ws')" "queues_are s' cs' ws'" "fs \<in> shuffles xs ys"
    "length fs \<le> MaxBatchFramesInWriter" "length fs < MaxBatchFramesInWriter \<longrightarrow> cs' = [] \<and> ws' = []"
    by (auto simp: queues_are_def)
  then show "case collect pick [] s of (fs, s') \<Rightarrow>
     \<exists>xs ys cs' ws'. queues_are s (xs @ cs') (ys @ ws') \<and> queues_are s' cs' ws' \<and> fs \<in> shuffles xs ys \<and>
        length fs \<le> MaxBatchFramesInWriter \<and> (length fs = MaxBatchFramesInWriter \<or> cs' = [] \<and> ws' = [])"
    using c by (simp add: collect_def) (metis le_neq_implies_less)
qed

section \<open>What reaches the transport\<close>

lemma write_bufs_log [simp]: "write_bufs log_writer bs w = (None, w @ bs)"
  by (induction bs arbitrary: w) (simp_all add: log_writer_def)

lemma concat_frame_bufs: "concat (frame_bufs f) = frame_bytes f"
  by (auto simp: frame_bufs_def frame_bytes_def payload_def word_gt_0 split: option.splits)

lemma concat_frames_bufs: "concat (concat (map frame_bufs fs)) = concat (map frame_bytes fs)"
  by (induction fs) (simp_all add: concat_frame_bufs)

lemma stream_frames_Nil: "stream_frames m [] = ([], NeedMore, [])"
  by (simp add: stream_frames.simps next_frame_def)

lemma writeBatch_log:
  "compactAndResolveControlFrames b s = (frames, s1) \<Longrightarrow>
   writeBatch log_writer None b s w = (None, fold releaseFrame frames s1, w @ concat (map frame_bufs frames))"
  by (simp add: writeBatch_def)

text \<open>C28: Over a stream transport that accepts its writes, the peer's read loop finds exactly the
  frames of the compacted batch, with their payloads, in order.\<close>

theorem batch_roundtrip:
  assumes "compactAndResolveControlFrames b s = (frames, s1)" "list_all (wf_frame m) frames"
  shows "\<exists>s' ds. writeBatch log_writer None b s [] = (None, s', ds) \<and>
    stream_frames m (concat ds) = (map (\<lambda>f. (header_of f, payload f)) frames, NeedMore, [])"
  using writeBatch_log [OF assms(1), of "[]"] stream_frames_append [OF assms(2), of "[]"]
  by (simp add: concat_frames_bufs stream_frames_Nil)

theorem batch_roundtrip_witness:
  "\<exists>s' ds. writeBatch log_writer None [zero_frame\<lparr>wf_flag := FLG_FIN, wf_chID := 7, wf_offset := 3\<rparr>]
       sample_session [] = (None, s', ds) \<and>
     stream_frames 100 (concat ds) =
       ([(\<lparr>hd_length = 0, hd_flag = FLG_FIN, hd_chID = 7, hd_offset = 3\<rparr>, [])], NeedMore, [])"
proof -
  let ?f = "zero_frame\<lparr>wf_flag := FLG_FIN, wf_chID := 7, wf_offset := 3\<rparr>"
  have "compactAndResolveControlFrames [?f] sample_session = ([?f], sample_session)"
    by (simp add: compactAndResolveControlFrames_def compact_step_def resolve_ack_def resolve_stream_def
        resolve_session_def merge_def zero_frame_def flag_defs)
  from batch_roundtrip [OF this, of 100] show ?thesis
    by (simp add: wf_frame_def known_flag_def zero_frame_def flag_defs header_of_def payload_def)
qed

lemma releaseFrame_goAway [simp]: "s_goAwayRecv (releaseFrame f s) = s_goAwayRecv s"
  by (simp add: releaseFrame_def release_def put_buf_def upd_u_def Let_def split: option.split)

lemma fold_release_goAway [simp]: "s_goAwayRecv (fold releaseFrame fs s) = s_goAwayRecv s"
  by (induction fs arbitrary: s) simp_all

lemma resolve_goAway:
  "s_goAwayRecv (snd (resolve_ack f s)) = s_goAwayRecv s" "s_goAwayRecv (snd (resolve_stream f s)) = s_goAwayRecv s"
  "s_goAwayRecv (snd (resolve_session f s)) = s_goAwayRecv s"
  by (auto simp: resolve_ack_def resolve_stream_def resolve_session_def Let_def upd_ch_def upd_flow_def
      upd_sn_def split: option.split)

lemma compact_goAway: "s_goAwayRecv (snd (compact out fs s)) = s_goAwayRecv s"
proof -
  have "s_goAwayRecv (snd (compact_step f out s)) = s_goAwayRecv s" for f out s
  proof -
    obtain g where g: "snd (compact_step f out s) =
       (let s2 = snd (resolve_stream (fst (resolve_ack f s)) (snd (resolve_ack f s))) in
        case g of None \<Rightarrow> s2
        | Some (g, rel) \<Rightarrow>
            if rel then releaseFrame (the (fst (resolve_session g s2))) (snd (resolve_session g s2))
            else snd (resolve_session g s2))"
      using compact_step_state by blast
    show ?thesis unfolding g by (cases g) (simp_all add: Let_def case_prod_beta resolve_goAway)
  qed
  then show ?thesis by (induction fs arbitrary: out s) (simp_all add: case_prod_beta)
qed

lemma recv_frame_goAway: "recv_frame p s = Some (f, s') \<Longrightarrow> s_goAwayRecv s' = s_goAwayRecv s"
  by (auto simp: recv_frame_def Let_def upd_ws_def split: list.splits if_splits)

lemma collect_loop_facts:
  "collect_loop pick k s = (fs, s') \<Longrightarrow> s_goAwayRecv s' = s_goAwayRecv s \<and> queued s = queued s' + length fs \<and>
     (fs = [] \<longrightarrow> k = 0 \<or> queued s = 0)"
proof (induction k arbitrary: s fs)
  case (Suc k)
  show ?case
  proof (cases "recv_frame (pick k) s")
    case None
    with Suc.prems show ?thesis
      by (auto simp: recv_frame_def queued_def Let_def split: list.splits if_splits)
  next
    case (Some r)
    obtain f s1 where r: "r = (f, s1)" by (cases r)
    have "queued s = Suc (queued s1)"
      using Some r by (auto simp: recv_frame_def queued_def Let_def upd_ws_def split: list.splits if_splits)
    moreover obtain gs where "collect_loop pick k s1 = (gs, s')" "fs = f # gs"
      using Suc.prems Some r by (auto split: prod.splits)
    ultimately show ?thesis using Suc.IH recv_frame_goAway [of "pick k" s f s1] Some r by fastforce
  qed
qed simp

lemma fold_release_keep [simp]:
  "s_writer (fold releaseFrame fs s) = s_writer s" "flow_of (fold releaseFrame fs s) c = flow_of s c"
  by (induction fs arbitrary: s) simp_all

lemma recv_frame_flow: "recv_frame p s = Some (f, s') \<Longrightarrow> flow_of s' c = flow_of s c"
  by (auto simp: recv_frame_def Let_def upd_ws_def split: list.splits if_splits)

lemma collect_loop_flow: "collect_loop pick k s = (fs, s') \<Longrightarrow> flow_of s' c = flow_of s c"
proof (induction k arbitrary: s fs)
  case (Suc k)
  then show ?case by (fastforce split: option.splits prod.splits dest: recv_frame_flow)
qed simp

text \<open>What one batch contributes: compaction keeps every frame that is neither ACK nor window update,
  an ACK for every channel that had one, and the credit of the flow at \<open>c\<close>.\<close>

lemma compact_flow_same:
  "list_all (\<lambda>f. wf_streamFlow f \<noteq> Some c) fs \<Longrightarrow> flow_of (snd (compact out fs s)) c = flow_of s c"
  by (induction fs arbitrary: out s) (simp_all add: case_prod_beta compact_step_flow)

abbreviation has_upd :: "cref \<Rightarrow> write_frame list \<Rightarrow> bool" where
  "has_upd c fs \<equiv> list_ex (\<lambda>f. wf_streamFlow f = Some c) fs"

lemma batch_contributes:
  assumes "list_all kind_ok b" "list_all (points_to c k) b" "0 \<le> sint (sf_unflushed (flow_of s c))"
    and "compactAndResolveControlFrames b s = (out, s')"
  shows "others out = others b" "set (ack_ids out) = set (ack_ids b)"
    "upd_sum k out = (if has_upd c b then sf_unflushed (flow_of s c) else 0)"
    "sf_unflushed (flow_of s' c) = (if has_upd c b then 0 else sf_unflushed (flow_of s c))"
    "s_writer s' = s_writer s" "s_goAwayRecv s' = s_goAwayRecv s"
proof -
  have comp: "compact [] b s = (out, s')" using assms(4) by (simp add: compactAndResolveControlFrames_def)
  from compact_kept [OF assms(1-3) comp] have kept: "kept c k b [] s out s'" .
  show "others out = others b" using kept by (simp add: kept_def others_def)
  show "set (ack_ids out) = set (ack_ids b)"
    using compact_ack_ids [OF assms(1), of "[]" s] comp by (simp add: ack_ids_def)
  show flow: "sf_unflushed (flow_of s' c) = (if has_upd c b then 0 else sf_unflushed (flow_of s c))"
    using compact_clears [of b c s "[]"] compact_flow_same [of c b "[]" s] comp
    by (auto simp: list_ex_iff list_all_iff)
  show "upd_sum k out = (if has_upd c b then sf_unflushed (flow_of s c) else 0)"
    using kept flow by (simp add: kept_def on_its_way_def upd_sum_def split: if_splits)
  show "s_writer s' = s_writer s" "s_goAwayRecv s' = s_goAwayRecv s"
    using compact_keep [of "[]" b s] compact_goAway [of "[]" b s] comp by simp_all
qed

lemma shuffles_append:
  "zs \<in> shuffles xs ys \<Longrightarrow> zs' \<in> shuffles xs' ys' \<Longrightarrow> zs @ zs' \<in> shuffles (xs @ xs') (ys @ ys')"
proof (induction zs arbitrary: xs ys)
  case (Cons z zs)
  from Cons.prems(1) consider (l) xs1 where "xs = z # xs1" "zs \<in> shuffles xs1 ys"
    | (r) ys1 where "ys = z # ys1" "zs \<in> shuffles xs ys1"
    by (auto simp: Cons_in_shuffles_iff neq_Nil_conv)
  then show ?case
    using Cons.IH [OF _ Cons.prems(2)] by cases (auto intro: Cons_in_shuffles_leftI Cons_in_shuffles_rightI)
qed simp

lemma others_shuffles: "b \<in> shuffles xs ys \<Longrightarrow> others b \<in> shuffles (others xs) (others ys)"
  unfolding others_def using filter_shuffles [of "\<lambda>f. \<not> is_ctl f" xs ys] by blast

text \<open>\<open>flushed\<close>: the frames \<open>fs\<close> are what is left of the queues \<open>cs\<close> and \<open>ws\<close> when \<open>u\<close> is the credit
  waiting in the flow at \<open>c\<close>, the flow of channel \<open>k\<close>.\<close>

definition flushed ::
  "cref \<Rightarrow> u32 \<Rightarrow> write_frame list \<Rightarrow> write_frame list \<Rightarrow> u32 \<Rightarrow> write_frame list \<Rightarrow> bool" where
  "flushed c k cs ws u fs \<longleftrightarrow>
     others fs \<in> shuffles (others cs) (others ws) \<and>
     set (ack_ids fs) = set (ack_ids cs) \<union> set (ack_ids ws) \<and>
     upd_sum k fs = (if has_upd c cs \<or> has_upd c ws then u else 0)"

lemma shuffles_all: "b \<in> shuffles xs ys \<Longrightarrow> list_all P b \<longleftrightarrow> list_all P xs \<and> list_all P ys"
  using set_shuffles [of b xs ys] by (auto simp: list_all_iff)

lemma shuffles_ex: "b \<in> shuffles xs ys \<Longrightarrow> list_ex P b \<longleftrightarrow> list_ex P xs \<or> list_ex P ys"
  using set_shuffles [of b xs ys] by (auto simp: list_ex_iff)

lemma shuffles_ack_ids: "b \<in> shuffles xs ys \<Longrightarrow> set (ack_ids b) = set (ack_ids xs) \<union> set (ack_ids ys)"
  using set_shuffles [of b xs ys] by (auto simp: ack_ids_def)

lemma flushed_batch:
  assumes "b \<in> shuffles xs ys" "others out = others b" "set (ack_ids out) = set (ack_ids b)"
    and "upd_sum k out = (if has_upd c b then u else 0)"
    and "flushed c k cs' ws' (if has_upd c b then 0 else u) fs"
  shows "flushed c k (xs @ cs') (ys @ ws') u (out @ fs)"
proof -
  have "others (out @ fs) \<in> shuffles (others (xs @ cs')) (others (ys @ ws'))"
    using shuffles_append [OF others_shuffles [OF assms(1)]] assms(2,5)
    by (simp add: flushed_def others_def)
  moreover have "set (ack_ids (out @ fs)) = set (ack_ids (xs @ cs')) \<union> set (ack_ids (ys @ ws'))"
    using assms(3,5) shuffles_ack_ids [OF assms(1)] by (auto simp: flushed_def ack_ids_def)
  moreover have "upd_sum k (out @ fs) = upd_sum k out + upd_sum k fs" by (simp add: upd_sum_def)
  ultimately show ?thesis
    using assms(4,5) shuffles_ex [OF assms(1), of "\<lambda>f. wf_streamFlow f = Some c"]
    by (auto simp: flushed_def split: if_splits)
qed

definition flushable :: "cref \<Rightarrow> u32 \<Rightarrow> write_frame list \<Rightarrow> bool" where
  "flushable c k fs \<longleftrightarrow> list_all kind_ok fs \<and> list_all (points_to c k) fs"

lemma flush_loop_log:
  assumes "queued s < rounds" "queues_are s cs ws" "flushable c k cs" "flushable c k ws"
    "0 \<le> sint (sf_unflushed (flow_of s c))"
  shows "\<exists>s1 fs. flush_loop pick log_writer None rounds s w = (False, s1, w @ concat (map frame_bufs fs)) \<and>
     s_goAwayRecv s1 = s_goAwayRecv s \<and> flushed c k cs ws (sf_unflushed (flow_of s c)) fs"
  using assms
proof (induction rounds arbitrary: s w cs ws)
  case (Suc rounds)
  obtain b s1 where c: "collect_loop pick MaxBatchFramesInWriter s = (b, s1)" by (metis surj_pair)
  note cf = collect_loop_facts [OF c]
  from collect_loop_shuffle [OF c Suc.prems(2)] obtain xs ys cs' ws' where
    sh: "cs = xs @ cs'" "ws = ys @ ws'" "queues_are s1 cs' ws'" "b \<in> shuffles xs ys" by blast
  show ?case
  proof (cases "b = []")
    case True
    with cf Suc.prems(2) have "cs = []" "ws = []"
      by (auto simp: queued_def queues_are_def MaxBatchFramesInWriter_def)
    with True c cf show ?thesis
      by (intro exI [of _ s1] exI [of _ "[]"])
        (simp add: collect_def flushed_def others_def ack_ids_def upd_sum_def)
  next
    case False
    have fl: "flow_of s1 c = flow_of s c" using collect_loop_flow [OF c] by simp
    obtain out s2 where co: "compactAndResolveControlFrames b s1 = (out, s2)" by (metis surj_pair)
    have ok: "list_all kind_ok b" "list_all (points_to c k) b"
      using Suc.prems(3,4) sh by (simp_all add: shuffles_all flushable_def)
    note bc = batch_contributes [OF ok _ co, unfolded fl, OF Suc.prems(5)]
    define s3 where "s3 = fold releaseFrame out s2"
    have s3: "s_writer s3 = s_writer s1" "s_goAwayRecv s3 = s_goAwayRecv s" "flow_of s3 c = flow_of s2 c"
      using bc(5,6) cf by (simp_all add: s3_def fold_release_keep)
    have "queued s3 < rounds" "queues_are s3 cs' ws'"
      using s3(1) cf False Suc.prems(1) sh(3) by (cases b; simp add: queued_def queues_are_def)+
    moreover have "flushable c k cs'" "flushable c k ws'" "0 \<le> sint (sf_unflushed (flow_of s3 c))"
      using Suc.prems(3-5) sh(1,2) s3(3) bc(4) by (simp_all add: flushable_def)
    ultimately obtain s4 fs where
      "flush_loop pick log_writer None rounds s3 (w @ concat (map frame_bufs out)) =
         (False, s4, (w @ concat (map frame_bufs out)) @ concat (map frame_bufs fs))"
      "s_goAwayRecv s4 = s_goAwayRecv s3" "flushed c k cs' ws' (sf_unflushed (flow_of s3 c)) fs"
      using Suc.IH by blast
    moreover have "flushed c k cs ws (sf_unflushed (flow_of s c)) (out @ fs)"
      unfolding sh(1,2)
      using flushed_batch [OF sh(4) bc(1-3)] calculation(3) s3(3) bc(4) by simp
    ultimately show ?thesis
      using c False s3(2) writeBatch_log [OF co, of w]
      by (intro exI [of _ s4] exI [of _ "out @ fs"]) (simp add: collect_def s3_def)
  qed
qed simp

lemma compact_goaway_frame:
  "compactAndResolveControlFrames [zero_frame\<lparr>wf_flag := FLG_GOAWAY\<rparr>] s = ([zero_frame\<lparr>wf_flag := FLG_GOAWAY\<rparr>], s)"
  by (simp add: compactAndResolveControlFrames_def compact_step_def resolve_ack_def resolve_stream_def
      resolve_session_def merge_def zero_frame_def flag_defs)

lemma goaway_bufs:
  "frame_bufs (zero_frame\<lparr>wf_flag := FLG_GOAWAY\<rparr>) = [putHeader (zero_frame\<lparr>wf_flag := FLG_GOAWAY\<rparr>)]"
  by (simp add: frame_bufs_def zero_frame_def)

text \<open>C31: Closing a session gracefully over a stream transport that accepts its writes: if the deadline
  allows one round more than there are queued frames, what goes out is exactly the queued frames
  and then GOAWAY, which is left out exactly when the peer's own GOAWAY has been seen.  The frames
  \<open>fs\<close> on the wire are all the queued frames other than ACKs and window updates, each queue in its
  order; ACKs for exactly the channels that had one queued; and window updates for a channel \<open>k\<close>
  that together announce the credit waiting in its flow if one was queued, and nothing
  otherwise.  Both queues end empty.  The hypotheses say that only ACKs point to a channel and only
  window updates to a flow, which is so for every frame the code queues.\<close>

theorem finalFlush_goaway:
  assumes "ws_conn (s_writer s) \<noteq> None" "queued s < rounds"
    and "list_all kind_ok (ws_ctrlQueue (s_writer s) @ ws_writes (s_writer s))"
    and "list_all (points_to c k) (ws_ctrlQueue (s_writer s) @ ws_writes (s_writer s))"
    and "0 \<le> sint (sf_unflushed (flow_of s c))"
  shows "\<exists>fs. snd (finalFlush pick log_writer None rounds s w) = w @ concat (map frame_bufs fs) @
        (if s_goAwayRecv s then [] else [putHeader (zero_frame\<lparr>wf_flag := FLG_GOAWAY\<rparr>)]) \<and>
    others fs \<in> shuffles (others (ws_ctrlQueue (s_writer s))) (others (ws_writes (s_writer s))) \<and>
    set (ack_ids fs) = set (ack_ids (ws_ctrlQueue (s_writer s) @ ws_writes (s_writer s))) \<and>
    upd_sum k fs =
      (if list_ex (\<lambda>f. wf_streamFlow f = Some c) (ws_ctrlQueue (s_writer s) @ ws_writes (s_writer s))
       then sf_unflushed (flow_of s c) else 0) \<and>
    queued (fst (finalFlush pick log_writer None rounds s w)) = 0"
proof -
  let ?go = "zero_frame\<lparr>wf_flag := FLG_GOAWAY\<rparr>"
  have "flushable c k (ws_ctrlQueue (s_writer s))" "flushable c k (ws_writes (s_writer s))"
    "queues_are s (ws_ctrlQueue (s_writer s)) (ws_writes (s_writer s))"
    using assms(3,4) by (simp_all add: flushable_def queues_are_def)
  with flush_loop_log [OF assms(2)] assms(5) obtain s1 fs where
    f: "flush_loop pick log_writer None rounds s w = (False, s1, w @ concat (map frame_bufs fs))"
    "s_goAwayRecv s1 = s_goAwayRecv s"
    "flushed c k (ws_ctrlQueue (s_writer s)) (ws_writes (s_writer s)) (sf_unflushed (flow_of s c)) fs" by blast
  have "snd (finalFlush pick log_writer None rounds s w) = w @ concat (map frame_bufs fs) @
      (if s_goAwayRecv s then [] else [putHeader ?go])"
    using f(1,2) assms(1) writeBatch_log [OF compact_goaway_frame, of s1 "w @ concat (map frame_bufs fs)"]
    by (auto simp: finalFlush_def goaway_bufs)
  then show ?thesis
    using f(3) finalFlush_queued by (intro exI [of _ fs]) (auto simp: flushed_def ack_ids_def)
qed

theorem finalFlush_goaway_witness:
  "\<exists>fs. snd (finalFlush (\<lambda>_. True) log_writer None 3
        (upd_ws (\<lambda>w. w\<lparr>ws_ctrlQueue := [zero_frame\<lparr>wf_flag := FLG_UPD, wf_chID := 1, wf_streamFlow := Some 0\<rparr>],
            ws_writes := [zero_frame\<lparr>wf_flag := FLG_FIN, wf_chID := 1\<rparr>]\<rparr>)
          (upd_flow 0 (\<lambda>g. g\<lparr>sf_unflushed := 300, sf_updPending := True\<rparr>) sample_session)) []) =
      concat (map frame_bufs fs) @ [putHeader (zero_frame\<lparr>wf_flag := FLG_GOAWAY\<rparr>)] \<and>
    others fs = [zero_frame\<lparr>wf_flag := FLG_FIN, wf_chID := 1\<rparr>] \<and> ack_ids fs = [] \<and> upd_sum 1 fs = 300"
proof -
  let ?cs = "[zero_frame\<lparr>wf_flag := FLG_UPD, wf_chID := 1, wf_streamFlow := Some 0\<rparr>]"
  let ?ws = "[zero_frame\<lparr>wf_flag := FLG_FIN, wf_chID := 1\<rparr>]"
  define s where "s = upd_ws (\<lambda>w. w\<lparr>ws_ctrlQueue := ?cs, ws_writes := ?ws\<rparr>)
    (upd_flow 0 (\<lambda>g. g\<lparr>sf_unflushed := 300, sf_updPending := True\<rparr>) sample_session)"
  have q: "ws_ctrlQueue (s_writer s) = ?cs" "ws_writes (s_writer s) = ?ws" "sf_unflushed (flow_of s 0) = 300"
    by (simp_all add: s_def upd_ws_def)
  have "ws_conn (s_writer s) \<noteq> None" "\<not> s_goAwayRecv s"
    by (simp_all add: s_def upd_ws_def upd_flow_def upd_ch_def sample_session_def NewSessionWithID_def
        newWriteScheduler_def Let_def)
  moreover have "queued s < 3" by (simp add: queued_def q)
  moreover have "list_all kind_ok (?cs @ ?ws)" "list_all (points_to 0 1) (?cs @ ?ws)"
    by (simp_all add: kind_ok_def points_to_def zero_frame_def flag_defs)
  moreover have "others ?cs = []" "others ?ws = ?ws" "ack_ids (?cs @ ?ws) = []"
    by (simp_all add: others_def ack_ids_def is_ctl_def flag_defs)
  ultimately show ?thesis
    using finalFlush_goaway [of s 3 0 1 "\<lambda>_. True" "[]"] unfolding q s_def [symmetric] by auto
qed

end
