(* ===== verification/Pending.thy ===== *)
theory Pending
  imports Scheduler
begin

text \<open>
  Frames for channels this side has not opened yet, and the memory of recently closed
  channels (\<^verbatim>\<open>src/session.go\<close>): \<^verbatim>\<open>releasePendingLocked\<close>, \<^verbatim>\<open>pruneLocked\<close>, \<^verbatim>\<open>markClosedLocked\<close>,
  \<^verbatim>\<open>recentlyClosedLocked\<close>, \<^verbatim>\<open>stashLocked\<close>, \<^verbatim>\<open>pruneExpiredPending\<close> and \<^verbatim>\<open>removeChannelIf\<close>.  The
  lemmas bound what a peer can make this side hold.
\<close>

section \<open>Operations\<close>

definition MaxClosedIDs :: nat where "MaxClosedIDs = 64"

definition release_pending_frame :: "pending_frame \<Rightarrow> session \<Rightarrow> session" where
  "release_pending_frame f s = creditDiscarded (pf_length f) (put_buf (map_option fst (pf_pBuf f)) s)"

definition releasePendingLocked :: "u32 \<Rightarrow> pending_queue \<Rightarrow> session \<Rightarrow> session" where
  "releasePendingLocked cid q s =
     (let s1 = fold release_pending_frame (pq_frames q) s
      in s1\<lparr>s_pendingBytes := s_pendingBytes s1 - pq_bytes q, s_pending := AList.delete cid (s_pending s1)\<rparr>)"

definition prune_pending :: "time \<Rightarrow> session \<Rightarrow> session" where
  "prune_pending now s =
     fold (\<lambda>(cid, q) s. if now > pq_expires q then releasePendingLocked cid q s else s) (s_pending s) s"

definition prune_closed :: "time \<Rightarrow> session \<Rightarrow> session" where
  "prune_closed now s =
     fold (\<lambda>(cid, t) s. if now > t then s\<lparr>s_closedIDs := AList.delete cid (s_closedIDs s)\<rparr> else s)
       (s_closedIDs s) s"

definition pruneLocked :: "time \<Rightarrow> session \<Rightarrow> session" where
  "pruneLocked now s = prune_closed now (prune_pending now s)"

text \<open>The key the eviction loop ends with: the first one with the least time.\<close>

fun oldest :: "(u32 \<times> time) option \<Rightarrow> (u32, time) gomap \<Rightarrow> u32 option" where
  "oldest best [] = map_option fst best"
| "oldest best ((k, t) # m) =
     (case best of
        None \<Rightarrow> oldest (Some (k, t)) m
      | Some (b, bt) \<Rightarrow> if t < bt then oldest (Some (k, t)) m else oldest (Some (b, bt)) m)"

definition evict_oldest :: "session \<Rightarrow> session" where
  "evict_oldest s =
     (case oldest None (s_closedIDs s) of
        None \<Rightarrow> s\<lparr>s_closedIDs := AList.delete 0 (s_closedIDs s)\<rparr>
      | Some k \<Rightarrow> s\<lparr>s_closedIDs := AList.delete k (s_closedIDs s)\<rparr>)"

definition markClosedLocked :: "u32 \<Rightarrow> session \<Rightarrow> session" where
  "markClosedLocked cid s0 =
     (let s = (case map_of (s_pending s0) cid of None \<Rightarrow> s0 | Some q \<Rightarrow> releasePendingLocked cid q s0) in
      if \<not> Reliability (s_config s) then s
      else
        let now = s_now s;
            s1 = (if length (s_closedIDs s) \<ge> MaxClosedIDs then
                    let s' = pruneLocked now s
                    in if length (s_closedIDs s') \<ge> MaxClosedIDs then evict_oldest s' else s'
                  else s)
        in s1\<lparr>s_closedIDs := AList.update cid (now + ClosedChannelFrameLingerTTL (s_config s1)) (s_closedIDs s1)\<rparr>)"

definition removeChannelIf :: "u32 \<Rightarrow> cref \<Rightarrow> session \<Rightarrow> session" where
  "removeChannelIf cid c s =
     (if map_of (s_channels s) cid = Some c
      then markClosedLocked cid (s\<lparr>s_channels := AList.delete cid (s_channels s)\<rparr>) else s)"

definition recentlyClosedLocked :: "u32 \<Rightarrow> session \<Rightarrow> bool \<times> session" where
  "recentlyClosedLocked cid s =
     (case map_of (s_closedIDs s) cid of
        None \<Rightarrow> (False, s)
      | Some t \<Rightarrow>
          if s_now s > t then (False, s\<lparr>s_closedIDs := AList.delete cid (s_closedIDs s)\<rparr>) else (True, s))"

text \<open>\<^verbatim>\<open>stashLocked\<close>; \<^verbatim>\<open>int(\<dots>)\<close> of a limit is its value as a signed 64-bit number.\<close>

definition stash_room :: "u32 \<Rightarrow> pending_frame \<Rightarrow> session \<Rightarrow> bool" where
  "stash_room cid f s \<longleftrightarrow>
     (case map_of (s_pending s) cid of
        None \<Rightarrow> int (length (s_pending s)) < sint (MaxPendingChannels (s_config s))
      | Some q \<Rightarrow> True) \<and>
     s_pendingBytes s + uint (pf_length f) \<le> sint (MaxPendingEarlyBytesPerSession (s_config s)) \<and>
     (case map_of (s_pending s) cid of
        None \<Rightarrow> True
      | Some q \<Rightarrow> int (length (pq_frames q)) < sint (MaxPendingEarlyFramesPerSession (s_config s)))"

definition stashLocked :: "u32 \<Rightarrow> pending_frame \<Rightarrow> session \<Rightarrow> bool \<times> session" where
  "stashLocked cid f s0 =
     (case recentlyClosedLocked cid s0 of
        (True, s1) \<Rightarrow> (False, s1)
      | (False, s1) \<Rightarrow>
          let now = s_now s1;
              s = pruneLocked now s1
          in if \<not> stash_room cid f s then (False, s)
             else
               let q = (case map_of (s_pending s) cid of
                          Some q \<Rightarrow> q
                        | None \<Rightarrow> \<lparr>pq_frames = [], pq_bytes = 0,
                                   pq_expires = now + PendingEarlyFramesTTL (s_config s)\<rparr>);
                   q' = q\<lparr>pq_frames := pq_frames q @ [f], pq_bytes := pq_bytes q + uint (pf_length f)\<rparr>
               in (True, s\<lparr>s_pending := AList.update cid q' (s_pending s),
                           s_pendingBytes := s_pendingBytes s + uint (pf_length f)\<rparr>))"

definition pruneExpiredPending :: "session \<Rightarrow> session" where
  "pruneExpiredPending s =
     (if length (s_pending s) > 0 \<or> length (s_closedIDs s) > 0 then pruneLocked (s_now s) s else s)"

section \<open>What can be held\<close>

definition queue_ok :: "session \<Rightarrow> pending_queue \<Rightarrow> bool" where
  "queue_ok s q \<longleftrightarrow>
     pq_bytes q = (\<Sum>f\<leftarrow>pq_frames q. uint (pf_length f)) \<and> pq_frames q \<noteq> [] \<and>
     (length (pq_frames q) = 1 \<or>
      int (length (pq_frames q)) \<le> sint (MaxPendingEarlyFramesPerSession (s_config s)))"

definition pending_ok :: "session \<Rightarrow> bool" where
  "pending_ok s \<longleftrightarrow>
     gomap_ok (s_pending s) \<and> list_all (queue_ok s \<circ> snd) (s_pending s) \<and>
     s_pendingBytes s = gsum pq_bytes (s_pending s) \<and>
     (s_pending s = [] \<or> int (length (s_pending s)) \<le> sint (MaxPendingChannels (s_config s))) \<and>
     (s_pendingBytes s = 0 \<or> s_pendingBytes s \<le> sint (MaxPendingEarlyBytesPerSession (s_config s))) \<and>
     gomap_ok (s_closedIDs s) \<and> length (s_closedIDs s) \<le> MaxClosedIDs"

text \<open>Giving credit back touches neither the stash nor the memory of closed channels.\<close>

lemma releaseFrame_pend [simp]:
  "s_pending (releaseFrame f s) = s_pending s" "s_pendingBytes (releaseFrame f s) = s_pendingBytes s"
  "s_closedIDs (releaseFrame f s) = s_closedIDs s"
  by (simp_all add: releaseFrame_def release_def put_buf_def upd_u_def Let_def split: option.split)

lemma writeControl_pend [simp]:
  "s_pending (snd (writeControlFrameNonBlocking f s)) = s_pending s"
  "s_pendingBytes (snd (writeControlFrameNonBlocking f s)) = s_pendingBytes s"
  "s_closedIDs (snd (writeControlFrameNonBlocking f s)) = s_closedIDs s"
  by (simp_all add: writeControlFrameNonBlocking_def push_ctrl_def upd_ws_def)

lemma upd_sn_pend [simp]:
  "s_pending (upd_sn g s) = s_pending s" "s_pendingBytes (upd_sn g s) = s_pendingBytes s"
  "s_closedIDs (upd_sn g s) = s_closedIDs s" "s_now (upd_sn g s) = s_now s"
  by (simp_all add: upd_sn_def)

lemma sn_OnRead_pend [simp]:
  "s_pending (sn_OnRead n s) = s_pending s" "s_pendingBytes (sn_OnRead n s) = s_pendingBytes s"
  "s_closedIDs (sn_OnRead n s) = s_closedIDs s" "s_now (sn_OnRead n s) = s_now s"
  by (simp_all add: sn_OnRead_def sn_flushUpdate_def Let_def case_prod_beta)

lemma release_pending_frame_keeps [simp]:
  "s_pending (release_pending_frame f s) = s_pending s"
  "s_pendingBytes (release_pending_frame f s) = s_pendingBytes s"
  "s_closedIDs (release_pending_frame f s) = s_closedIDs s" "s_now (release_pending_frame f s) = s_now s"
  "s_config (release_pending_frame f s) = s_config s" "s_objs (release_pending_frame f s) = s_objs s"
  "s_channels (release_pending_frame f s) = s_channels s"
  by (simp_all add: release_pending_frame_def creditDiscarded_def put_buf_def split: option.split)

lemma fold_release_pending [simp]:
  "s_pending (fold release_pending_frame fs s) = s_pending s"
  "s_pendingBytes (fold release_pending_frame fs s) = s_pendingBytes s"
  "s_closedIDs (fold release_pending_frame fs s) = s_closedIDs s"
  "s_now (fold release_pending_frame fs s) = s_now s" "s_config (fold release_pending_frame fs s) = s_config s"
  "s_objs (fold release_pending_frame fs s) = s_objs s" "s_channels (fold release_pending_frame fs s) = s_channels s"
  by (induction fs arbitrary: s) simp_all

lemma releasePending_fields [simp]:
  "s_pending (releasePendingLocked cid q s) = AList.delete cid (s_pending s)"
  "s_pendingBytes (releasePendingLocked cid q s) = s_pendingBytes s - pq_bytes q"
  "s_closedIDs (releasePendingLocked cid q s) = s_closedIDs s" "s_now (releasePendingLocked cid q s) = s_now s"
  "s_config (releasePendingLocked cid q s) = s_config s" "s_objs (releasePendingLocked cid q s) = s_objs s"
  "s_channels (releasePendingLocked cid q s) = s_channels s"
  by (simp_all add: releasePendingLocked_def Let_def)

lemma queue_ok_config: "s_config s' = s_config s \<Longrightarrow> queue_ok s' = queue_ok s"
  by (simp add: queue_ok_def fun_eq_iff)

lemma queue_bytes_nonneg: "queue_ok s q \<Longrightarrow> 0 \<le> pq_bytes q"
  by (auto simp: queue_ok_def intro!: sum_list_nonneg)

lemma pending_sum_nonneg: "list_all (queue_ok s \<circ> snd) m \<Longrightarrow> 0 \<le> gsum pq_bytes m"
  by (rule gsum_nonneg) (auto simp: list_all_iff dest!: queue_bytes_nonneg)

lemma releasePending_ok:
  assumes "pending_ok s" "map_of (s_pending s) cid = Some q"
  shows "pending_ok (releasePendingLocked cid q s)"
proof -
  let ?m = "AList.delete cid (s_pending s)"
  have m: "gomap_ok (s_pending s)" "list_all (queue_ok s \<circ> snd) (s_pending s)"
    using assms(1) by (simp_all add: pending_ok_def)
  have q: "0 \<le> pq_bytes q"
    using m(2) map_of_SomeD [OF assms(2)] by (auto simp: list_all_iff dest!: queue_bytes_nonneg)
  have l: "list_all (queue_ok s \<circ> snd) ?m"
    using m(2) by (auto simp: list_all_iff AList.delete_eq)
  have "0 \<le> gsum pq_bytes ?m" by (rule pending_sum_nonneg [OF l])
  moreover have "length ?m < length (s_pending s)" by (rule length_delete_present [OF m(1) assms(2)])
  ultimately show ?thesis
    using assms m l q gsum_delete [OF m(1) assms(2), of pq_bytes]
    by (auto simp: pending_ok_def queue_ok_config [of "releasePendingLocked cid q s" s])
qed

lemma prune_pending_fields [simp]:
  "s_closedIDs (prune_pending now s) = s_closedIDs s" "s_now (prune_pending now s) = s_now s"
  "s_config (prune_pending now s) = s_config s" "s_objs (prune_pending now s) = s_objs s"
  "s_channels (prune_pending now s) = s_channels s"
proof -
  have "s_closedIDs (fold (\<lambda>(cid, q) s. if now > pq_expires q then releasePendingLocked cid q s else s) m s) = s_closedIDs s \<and>
    s_now (fold (\<lambda>(cid, q) s. if now > pq_expires q then releasePendingLocked cid q s else s) m s) = s_now s \<and>
    s_config (fold (\<lambda>(cid, q) s. if now > pq_expires q then releasePendingLocked cid q s else s) m s) = s_config s \<and>
    s_objs (fold (\<lambda>(cid, q) s. if now > pq_expires q then releasePendingLocked cid q s else s) m s) = s_objs s \<and>
    s_channels (fold (\<lambda>(cid, q) s. if now > pq_expires q then releasePendingLocked cid q s else s) m s) = s_channels s" for m s
    by (induction m arbitrary: s) auto
  then show "s_closedIDs (prune_pending now s) = s_closedIDs s" "s_now (prune_pending now s) = s_now s"
    "s_config (prune_pending now s) = s_config s" "s_objs (prune_pending now s) = s_objs s"
    "s_channels (prune_pending now s) = s_channels s"
    by (simp_all add: prune_pending_def)
qed

lemma prune_pending_ok:
  assumes "pending_ok s"
  shows "pending_ok (prune_pending now s)"
proof -
  have "pending_ok (fold (\<lambda>(cid, q) s. if now > pq_expires q then releasePendingLocked cid q s else s) m s)"
    if "pending_ok s" "distinct (map fst m)" "\<forall>(cid, q) \<in> set m. map_of (s_pending s) cid = Some q" for m s
    using that
  proof (induction m arbitrary: s)
    case (Cons p m)
    obtain cid q where p: "p = (cid, q)" by (cases p)
    define s1 where "s1 = (if now > pq_expires q then releasePendingLocked cid q s else s)"
    have "pending_ok s1" using Cons.prems p releasePending_ok by (auto simp: s1_def)
    moreover have "\<forall>(cid', q') \<in> set m. map_of (s_pending s1) cid' = Some q'"
      using Cons.prems p by (force simp: s1_def gomap_simps)
    ultimately show ?case using Cons.IH [of s1] Cons.prems(2) p by (simp add: s1_def)
  qed simp
  moreover have "distinct (map fst (s_pending s))" using assms by (simp add: pending_ok_def gomap_ok_def)
  ultimately show ?thesis using assms by (auto simp: prune_pending_def)
qed

lemma prune_closed_keeps:
  "\<exists>m. prune_closed now s = s\<lparr>s_closedIDs := m\<rparr> \<and> length m \<le> length (s_closedIDs s) \<and>
     (gomap_ok (s_closedIDs s) \<longrightarrow> gomap_ok m)"
proof -
  have "\<exists>m. fold (\<lambda>(cid, t) s. if now > t then s\<lparr>s_closedIDs := AList.delete cid (s_closedIDs s)\<rparr> else s) xs s =
      s\<lparr>s_closedIDs := m\<rparr> \<and> length m \<le> length (s_closedIDs s) \<and> (gomap_ok (s_closedIDs s) \<longrightarrow> gomap_ok m)"
    for xs and s :: session
  proof (induction xs arbitrary: s)
    case Nil
    show ?case by (intro exI [of _ "s_closedIDs s"]) simp
  next
    case (Cons x xs)
    obtain cid t where x: "x = (cid, t)" by (cases x)
    define s1 where "s1 = (if now > t then s\<lparr>s_closedIDs := AList.delete cid (s_closedIDs s)\<rparr> else s)"
    from Cons.IH [of s1] obtain m where
      "fold (\<lambda>(cid, t) s. if now > t then s\<lparr>s_closedIDs := AList.delete cid (s_closedIDs s)\<rparr> else s) xs s1 =
      s1\<lparr>s_closedIDs := m\<rparr>" "length m \<le> length (s_closedIDs s1)" "gomap_ok (s_closedIDs s1) \<longrightarrow> gomap_ok m"
      by blast
    moreover have "length (s_closedIDs s1) \<le> length (s_closedIDs s)"
      by (simp add: s1_def AList.delete_eq)
    moreover have "s1\<lparr>s_closedIDs := m\<rparr> = s\<lparr>s_closedIDs := m\<rparr>" by (simp add: s1_def)
    moreover have "gomap_ok (s_closedIDs s) \<longrightarrow> gomap_ok (s_closedIDs s1)" by (simp add: s1_def)
    ultimately show ?case using x by (intro exI [of _ m]) (auto simp: s1_def)
  qed
  then show ?thesis by (simp add: prune_closed_def)
qed

lemma pending_ok_closedIDs:
  "pending_ok s \<Longrightarrow> gomap_ok m \<Longrightarrow> length m \<le> MaxClosedIDs \<Longrightarrow> pending_ok (s\<lparr>s_closedIDs := m\<rparr>)"
  by (auto simp: pending_ok_def queue_ok_config [of "s\<lparr>s_closedIDs := m\<rparr>" s])

lemma pruneLocked_ok:
  assumes "pending_ok s"
  shows "pending_ok (pruneLocked now s)" "s_config (pruneLocked now s) = s_config s"
    "s_now (pruneLocked now s) = s_now s" "s_channels (pruneLocked now s) = s_channels s"
proof -
  have ok: "pending_ok (prune_pending now s)" using assms by (rule prune_pending_ok)
  obtain m where m: "pruneLocked now s = (prune_pending now s)\<lparr>s_closedIDs := m\<rparr>"
    "length m \<le> length (s_closedIDs s)" "gomap_ok (s_closedIDs s) \<longrightarrow> gomap_ok m"
    using prune_closed_keeps [of now "prune_pending now s"] by (auto simp: pruneLocked_def)
  with assms ok show "pending_ok (pruneLocked now s)"
    using pending_ok_closedIDs [OF ok, of m] by (simp add: pending_ok_def)
  show "s_config (pruneLocked now s) = s_config s" "s_now (pruneLocked now s) = s_now s"
    "s_channels (pruneLocked now s) = s_channels s" using m(1) by simp_all
qed

lemma oldest_in:
  "oldest best m = Some k \<Longrightarrow> k \<in> fst ` set m \<or> (\<exists>t. best = Some (k, t))"
proof (induction m arbitrary: best)
  case (Cons p m)
  obtain a t where p: "p = (a, t)" by (cases p)
  have "oldest (Some (a, t)) m = Some k \<or> best \<noteq> None \<and> oldest best m = Some k"
    using Cons.prems p by (auto split: option.splits if_splits)
  then show ?case using Cons.IH p by fastforce
qed auto

lemma oldest_exists: "best \<noteq> None \<or> m \<noteq> [] \<Longrightarrow> \<exists>k. oldest best m = Some k"
  by (induction best m rule: oldest.induct) (auto split: option.splits)

lemma evict_oldest_ok:
  assumes "pending_ok s" "s_closedIDs s \<noteq> []"
  shows "pending_ok (evict_oldest s)" "length (s_closedIDs (evict_oldest s)) < length (s_closedIDs s)"
    "s_config (evict_oldest s) = s_config s"
proof -
  obtain k where k: "oldest None (s_closedIDs s) = Some k" using oldest_exists assms(2) by blast
  then have "k \<in> fst ` set (s_closedIDs s)" using oldest_in by fastforce
  then obtain t where t: "map_of (s_closedIDs s) k = Some t"
    by (metis map_of_eq_None_iff not_None_eq)
  have ok: "gomap_ok (s_closedIDs s)" "length (s_closedIDs s) \<le> MaxClosedIDs"
    using assms(1) by (simp_all add: pending_ok_def)
  have l: "length (AList.delete k (s_closedIDs s)) < length (s_closedIDs s)"
    by (rule length_delete_present [OF ok(1) t])
  show "pending_ok (evict_oldest s)" "length (s_closedIDs (evict_oldest s)) < length (s_closedIDs s)"
    "s_config (evict_oldest s) = s_config s"
    using k l ok pending_ok_closedIDs [OF assms(1), of "AList.delete k (s_closedIDs s)"]
    by (simp_all add: evict_oldest_def)
qed

lemma length_update_le: "length (AList.update k v m) \<le> Suc (length m)"
  by (cases "map_of m k") (simp_all add: gomap_simps)

lemma markClosedLocked_ok:
  assumes "pending_ok s0"
  shows "pending_ok (markClosedLocked cid s0)"
proof -
  define s where "s = (case map_of (s_pending s0) cid of None \<Rightarrow> s0 | Some q \<Rightarrow> releasePendingLocked cid q s0)"
  have s: "pending_ok s" using assms releasePending_ok by (auto simp: s_def split: option.splits)
  define s1 where "s1 = (if length (s_closedIDs s) \<ge> MaxClosedIDs then
      let s' = pruneLocked (s_now s) s
      in if length (s_closedIDs s') \<ge> MaxClosedIDs then evict_oldest s' else s' else s)"
  have s1: "pending_ok s1 \<and> length (s_closedIDs s1) < MaxClosedIDs"
  proof (cases "length (s_closedIDs s) \<ge> MaxClosedIDs")
    case True
    let ?p = "pruneLocked (s_now s) s"
    have p: "pending_ok ?p" by (rule pruneLocked_ok [OF s])
    show ?thesis
    proof (cases "length (s_closedIDs ?p) \<ge> MaxClosedIDs")
      case big: True
      then have "s_closedIDs ?p \<noteq> []" by (auto simp: MaxClosedIDs_def)
      moreover have "length (s_closedIDs ?p) \<le> MaxClosedIDs" using p by (simp add: pending_ok_def)
      ultimately show ?thesis using big True evict_oldest_ok [OF p] by (simp add: s1_def Let_def)
    qed (use True p in \<open>simp add: s1_def Let_def\<close>)
  qed (use s in \<open>simp add: s1_def\<close>)
  have "markClosedLocked cid s0 = (if \<not> Reliability (s_config s) then s
      else s1\<lparr>s_closedIDs := AList.update cid (s_now s + ClosedChannelFrameLingerTTL (s_config s1)) (s_closedIDs s1)\<rparr>)"
    by (simp add: markClosedLocked_def Let_def s_def s1_def)
  moreover have "gomap_ok (s_closedIDs s1)" using s1 by (simp add: pending_ok_def)
  then have "pending_ok (s1\<lparr>s_closedIDs := AList.update cid (s_now s + ClosedChannelFrameLingerTTL (s_config s1)) (s_closedIDs s1)\<rparr>)"
    using s1 length_update_le [of cid "s_now s + ClosedChannelFrameLingerTTL (s_config s1)" "s_closedIDs s1"]
    by (intro pending_ok_closedIDs) simp_all
  ultimately show ?thesis using s by simp
qed

lemma list_all_update:
  "list_all P m \<Longrightarrow> P (k, v) \<Longrightarrow> (\<And>k v. P (k, v) = Q v) \<Longrightarrow> list_all P (AList.update k v m)"
  by (induction m) auto

lemma recentlyClosed_ok:
  assumes "pending_ok s" "recentlyClosedLocked cid s = (b, s1)"
  shows "pending_ok s1" "s_config s1 = s_config s" "s_now s1 = s_now s"
proof -
  have "gomap_ok (s_closedIDs s)" "length (AList.delete cid (s_closedIDs s)) \<le> MaxClosedIDs"
    using assms(1) length_delete_le [of cid "s_closedIDs s"] by (simp_all add: pending_ok_def)
  with assms pending_ok_closedIDs [OF assms(1), of "AList.delete cid (s_closedIDs s)"]
  show "pending_ok s1" "s_config s1 = s_config s" "s_now s1 = s_now s"
    by (auto simp: recentlyClosedLocked_def split: option.splits if_splits)
qed

text \<open>Appending an admitted frame keeps the invariant.\<close>

lemma stash_frame_ok:
  assumes ok: "pending_ok s" and room: "stash_room cid f s"
    and q: "q = (case map_of (s_pending s) cid of Some q \<Rightarrow> q
                 | None \<Rightarrow> \<lparr>pq_frames = [], pq_bytes = 0, pq_expires = e\<rparr>)"
  shows "pending_ok (s\<lparr>s_pending := AList.update cid
      (q\<lparr>pq_frames := pq_frames q @ [f], pq_bytes := pq_bytes q + uint (pf_length f)\<rparr>) (s_pending s),
      s_pendingBytes := s_pendingBytes s + uint (pf_length f)\<rparr>)" (is "pending_ok ?s")
proof -
  let ?q = "q\<lparr>pq_frames := pq_frames q @ [f], pq_bytes := pq_bytes q + uint (pf_length f)\<rparr>"
  have m: "gomap_ok (s_pending s)" "list_all (queue_ok s \<circ> snd) (s_pending s)"
    "s_pendingBytes s = gsum pq_bytes (s_pending s)" using ok by (simp_all add: pending_ok_def)
  have qq: "queue_ok s ?q"
    using m(2) q room map_of_SomeD [of "s_pending s" cid]
    by (auto simp: queue_ok_def stash_room_def list_all_iff split: option.splits)
  have l: "list_all (queue_ok s \<circ> snd) (AList.update cid ?q (s_pending s))"
    by (rule list_all_update [OF m(2)]) (use qq in simp_all)
  have "gsum pq_bytes (AList.update cid ?q (s_pending s)) = gsum pq_bytes (s_pending s) + uint (pf_length f)"
    using q by (auto simp: gsum_update_absent gsum_update_present split: option.splits)
  moreover have "int (length (AList.update cid ?q (s_pending s))) \<le> sint (MaxPendingChannels (s_config s))"
    using room ok by (auto simp: stash_room_def pending_ok_def gomap_simps split: option.splits)
  moreover have "queue_ok ?s = queue_ok s" by (rule queue_ok_config) simp
  then have "list_all (queue_ok ?s \<circ> snd) (AList.update cid ?q (s_pending s))" using l by simp
  moreover have "s_pendingBytes s + uint (pf_length f) \<le> sint (MaxPendingEarlyBytesPerSession (s_config s))"
    using room by (simp add: stash_room_def)
  ultimately show ?thesis
    using ok unfolding pending_ok_def by simp
qed

lemma stashLocked_ok:
  assumes "pending_ok s0"
  shows "pending_ok (snd (stashLocked cid f s0))"
proof -
  obtain b s1 where r: "recentlyClosedLocked cid s0 = (b, s1)" by (metis surj_pair)
  note s1 = recentlyClosed_ok [OF assms r]
  let ?s = "pruneLocked (s_now s1) s1"
  have "pending_ok ?s" by (rule pruneLocked_ok [OF s1(1)])
  with r s1(1) stash_frame_ok [OF \<open>pending_ok ?s\<close> _ refl, of cid f "s_now s1 + PendingEarlyFramesTTL (s_config ?s)"]
  show ?thesis by (cases b) (simp_all add: stashLocked_def Let_def)
qed

lemma removeChannelIf_ok: "pending_ok s \<Longrightarrow> pending_ok (removeChannelIf cid c s)"
proof -
  assume "pending_ok s"
  then have "pending_ok (s\<lparr>s_channels := AList.delete cid (s_channels s)\<rparr>)"
    by (auto simp: pending_ok_def queue_ok_config [of "s\<lparr>s_channels := AList.delete cid (s_channels s)\<rparr>" s])
  with \<open>pending_ok s\<close> show ?thesis by (simp add: removeChannelIf_def markClosedLocked_ok)
qed

text \<open>C22: Whatever frames a peer sends to channels that are not open, and however channels are closed and
  queues expire, the stash stays within its limits: the byte count is the sum over the queues and
  within the session's byte budget, the number of waiting channels and the frames per channel are
  within theirs, and at most 64 closed channels are remembered.\<close>

theorem stash_bounded:
  assumes "pending_ok s"
  shows "pending_ok (snd (stashLocked cid f s)) \<and> pending_ok (markClosedLocked cid s) \<and>
    pending_ok (removeChannelIf cid c s) \<and> pending_ok (pruneExpiredPending s) \<and>
    pending_ok (snd (recentlyClosedLocked cid s))"
  using assms stashLocked_ok markClosedLocked_ok removeChannelIf_ok pruneLocked_ok(1)
    recentlyClosed_ok(1) [OF assms, of cid "fst (recentlyClosedLocked cid s)" "snd (recentlyClosedLocked cid s)"]
  by (simp add: pruneExpiredPending_def)

lemma sample_pending_ok: "pending_ok sample_session"
  by (simp add: pending_ok_def sample_session_def NewSessionWithID_def Let_def)

theorem stash_bounded_witness:
  "pending_ok (snd (stashLocked 9 \<lparr>pf_flag = FLG_DATA, pf_offset = 0, pf_pBuf = Some (0, [1, 2]), pf_length = 2\<rparr>
     sample_session))"
  using stash_bounded [OF sample_pending_ok] by blast

end
