(* ===== verification/Channel.thy ===== *)
theory Channel
  imports Pending
begin

text \<open>
  The channel (\<^verbatim>\<open>src/channel.go\<close>): creation, closing in both directions, delivery of received
  payloads, acknowledgement and retransmission, \<^verbatim>\<open>Write\<close>, \<^verbatim>\<open>Read\<close>, \<^verbatim>\<open>ReadFrom\<close> and \<^verbatim>\<open>WriteTo\<close>.
  Every operation runs until it returns or has to wait; a result says which, and the flags
  \<open>ch_readMu\<close> and \<open>ch_writeMu\<close> stay set while a reader or writer waits inside.
\<close>

section \<open>Creation\<close>

definition new_channel :: "u32 \<Rightarrow> config \<Rightarrow> channel" where
  "new_channel cid cfg =
     \<lparr>ch_id = cid, ch_ring = NewBufferRing 8, ch_notify = False, ch_waiting = False,
      ch_readMu = False, ch_writeMu = False, ch_flow = NewStreamFlow cid (InitialStreamWindow cfg),
      ch_closeOnce = False, ch_closeChan = False, ch_drainOnce = False, ch_closed = False,
      ch_readDone = False, ch_drainable = False, ch_writeClosed = False, ch_finQueued = False,
      ch_resetByPeer = False, ch_lastRst = 0, ch_closeTimer = None, ch_writeOnce = False,
      ch_finalizeOnce = False, ch_done = False, ch_writeOffset = 0, ch_readOffset = 0,
      ch_unacked = [], ch_reorderMap = Some [], ch_finOffset = 0, ch_hasFin = False,
      ch_inARQ = False, ch_ackOffset = 0, ch_ackPending = False, ch_ackTimer = None,
      ch_inOrderPackets = 0, ch_finDeferred = False, ch_finalWait = False, ch_feedMu = False\<rparr>"

definition newChannel :: "u32 \<Rightarrow> session \<Rightarrow> cref \<times> session" where
  "newChannel cid s =
     (let c = s_nextObj s
      in (c, s\<lparr>s_objs := (s_objs s)(c := new_channel cid (s_config s)), s_nextObj := Suc c\<rparr>))"

definition maxReorderBytes :: "session \<Rightarrow> u64" where
  "maxReorderBytes s = ucast (InitialStreamWindow (s_config s)) * 2"

section \<open>The retransmission set\<close>

definition arqAdd :: "cref \<Rightarrow> session \<Rightarrow> session" where
  "arqAdd c s = s\<lparr>s_arqSet := (if c \<in> set (s_arqSet s) then s_arqSet s else s_arqSet s @ [c])\<rparr>"

definition arqRemove :: "cref \<Rightarrow> session \<Rightarrow> session" where
  "arqRemove c s = s\<lparr>s_arqSet := filter (\<lambda>d. d \<noteq> c) (s_arqSet s)\<rparr>"

text \<open>\<^verbatim>\<open>c.unacked = append(c.unacked, uf)\<close> with the registration that goes with it.\<close>

definition add_unacked :: "cref \<Rightarrow> uref \<Rightarrow> session \<Rightarrow> session" where
  "add_unacked c u s =
     (let s1 = upd_ch c (\<lambda>ch. ch\<lparr>ch_unacked := ch_unacked ch @ [u]\<rparr>) s
      in if \<not> ch_inARQ (s_objs s1 c) then arqAdd c (upd_ch c (\<lambda>ch. ch\<lparr>ch_inARQ := True\<rparr>) s1) else s1)"

definition leave_arq :: "cref \<Rightarrow> session \<Rightarrow> session" where
  "leave_arq c s =
     (if ch_inARQ (s_objs s c) then arqRemove c (upd_ch c (\<lambda>ch. ch\<lparr>ch_inARQ := False\<rparr>) s) else s)"

section \<open>Finalizing\<close>

definition wakeReader :: "cref \<Rightarrow> session \<Rightarrow> session" where
  "wakeReader c = upd_ch c (\<lambda>ch. ch\<lparr>ch_notify := True\<rparr>)"

definition readAborted :: "cref \<Rightarrow> session \<Rightarrow> bool" where
  "readAborted c s \<longleftrightarrow> ch_closed (s_objs s c) \<or> s_closed s \<and> \<not> ch_drainable (s_objs s c)"

definition close_ring :: "cref \<Rightarrow> session \<Rightarrow> session" where
  "close_ring c = upd_ch c (\<lambda>ch. ch\<lparr>ch_ring := fst (ring_Close (ch_ring ch))\<rparr>)"

definition cleanupReliability :: "cref \<Rightarrow> session \<Rightarrow> session" where
  "cleanupReliability c s =
     (let s1 = upd_ch c (\<lambda>ch. ch\<lparr>ch_ackTimer := None, ch_closeTimer := None\<rparr>) s;
          unacked = ch_unacked (s_objs s1 c);
          s2 = leave_arq c (upd_ch c (\<lambda>ch. ch\<lparr>ch_unacked := []\<rparr>) s1);
          s3 = fold release unacked s2;
          rm = (case ch_reorderMap (s_objs s3 c) of None \<Rightarrow> [] | Some m \<Rightarrow> m);
          s4 = fold (\<lambda>kf. put_buf (rf_head (snd kf))) rm s3
      in upd_ch c (\<lambda>ch. ch\<lparr>ch_reorderMap := None\<rparr>) s4)"

text \<open>\<^verbatim>\<open>finalize\<close> from \<^verbatim>\<open>c.readMu.Lock()\<close> on.\<close>

definition finalize_rest :: "cref \<Rightarrow> session \<Rightarrow> session" where
  "finalize_rest c s =
     (let s1 = (if \<not> ch_drainable (s_objs s c) \<or> ring_Length (ch_ring (s_objs s c)) = 0
                then close_ring c s else s);
          s2 = removeChannelIf (ch_id (s_objs s1 c)) c s1
      in upd_ch c (\<lambda>ch. ch\<lparr>ch_done := True\<rparr>) s2)"

definition finalize :: "cref \<Rightarrow> session \<Rightarrow> session" where
  "finalize c s =
     (if ch_finalizeOnce (s_objs s c) then s
      else
        let s1 = upd_ch c (\<lambda>ch. ch\<lparr>ch_finalizeOnce := True, ch_closeTimer := None, ch_ackTimer := None\<rparr>) s;
            s2 = cleanupReliability c s1
        in if ch_readMu (s_objs s2 c) then upd_ch c (\<lambda>ch. ch\<lparr>ch_finalWait := True\<rparr>) s2
           else finalize_rest c s2)"

definition maybeFinalize :: "cref \<Rightarrow> session \<Rightarrow> session" where
  "maybeFinalize c s =
     (let ch = s_objs s c in
      if \<not> ch_finQueued ch \<or> \<not> ch_readDone ch then s
      else if length (ch_unacked ch) > 0 then s
      else finalize c s)"

section \<open>Closing\<close>

definition writeErr :: "cref \<Rightarrow> session \<Rightarrow> go_error" where
  "writeErr c s = (if ch_resetByPeer (s_objs s c) then ErrChannelReset else ErrClosedPipe)"

definition resetPeer :: "bool \<Rightarrow> cref \<Rightarrow> session \<Rightarrow> session" where
  "resetPeer force c s =
     (let ch = s_objs s c; now = s_now s in
      if ch_readDone ch then s
      else if \<not> force \<and> now - ch_lastRst ch < RetransmitTimeout (s_config s) then s
      else sendReset (ch_id ch) (ch_writeOffset ch) (upd_ch c (\<lambda>ch. ch\<lparr>ch_lastRst := now\<rparr>) s))"

definition armCloseTimer :: "cref \<Rightarrow> session \<Rightarrow> session" where
  "armCloseTimer c s =
     (let d = ChannelCloseTimeout (s_config s) in
      if d \<le> 0 then s
      else if ch_done (s_objs s c) then s
      else upd_ch c (\<lambda>ch. ch\<lparr>ch_closeTimer := Some (s_now s + d)\<rparr>) s)"

definition sendFinLocked :: "cref \<Rightarrow> session \<Rightarrow> session" where
  "sendFinLocked c s =
     (let ch = s_objs s c;
          frame = zero_frame\<lparr>wf_flag := FLG_FIN, wf_chID := ch_id ch, wf_offset := ch_writeOffset ch\<rparr>;
          (frame1, s1) =
            (if Reliability (s_config s) then
               case newUnackedFrame None (wf_offset frame) 0 True 2 s of
                 (u, s') \<Rightarrow> (frame\<lparr>wf_ack := Some u\<rparr>, add_unacked c u s')
             else (frame, s));
          s2 = upd_ch c (\<lambda>ch. ch\<lparr>ch_finQueued := True\<rparr>) s1;
          (ok, s3) = writeDataFrameNonBlocking frame1 s2
      in if ok then s3
         else upd_ws (\<lambda>w. w\<lparr>ws_asyncData := ws_asyncData w @ [frame1]\<rparr>) s3)"

definition closeWrite :: "cref \<Rightarrow> session \<Rightarrow> session" where
  "closeWrite c s =
     (if ch_writeOnce (s_objs s c) then s
      else
        let s1 = WakeWriter c (upd_ch c (\<lambda>ch. ch\<lparr>ch_writeOnce := True, ch_writeClosed := True\<rparr>) s)
        in if \<not> ch_writeMu (s_objs s1 c) then sendFinLocked c s1
           else upd_ch c (\<lambda>ch. ch\<lparr>ch_finDeferred := True\<rparr>) s1)"

text \<open>The goroutine of \<^verbatim>\<open>closeWrite\<close>, once \<^verbatim>\<open>writeMu\<close> is free, and a waiting \<^verbatim>\<open>finalize\<close>, once \<^verbatim>\<open>readMu\<close> is.\<close>

definition fin_deferred_step :: "cref \<Rightarrow> session \<Rightarrow> session" where
  "fin_deferred_step c s =
     (if ch_finDeferred (s_objs s c) \<and> \<not> ch_writeMu (s_objs s c)
      then maybeFinalize c (sendFinLocked c (upd_ch c (\<lambda>ch. ch\<lparr>ch_finDeferred := False\<rparr>) s))
      else s)"

definition final_wait_step :: "cref \<Rightarrow> session \<Rightarrow> session" where
  "final_wait_step c s =
     (if ch_finalWait (s_objs s c) \<and> \<not> ch_readMu (s_objs s c)
      then finalize_rest c (upd_ch c (\<lambda>ch. ch\<lparr>ch_finalWait := False\<rparr>) s)
      else s)"

definition CloseWrite :: "cref \<Rightarrow> session \<Rightarrow> go_error option \<times> session" where
  "CloseWrite c s =
     (if s_closed s then (Some ErrSessionClosed, s) else (None, maybeFinalize c (closeWrite c s)))"

text \<open>\<^verbatim>\<open>drainRing\<close>: the loop pops until the ring is empty, which takes one step more than it has items.\<close>

definition drainRing :: "cref \<Rightarrow> session \<Rightarrow> session" where
  "drainRing c s =
     (if ch_drainOnce (s_objs s c) then s
      else
        let s1 = upd_ch c (\<lambda>ch. ch\<lparr>ch_drainOnce := True\<rparr>) s;
            r = ch_ring (s_objs s1 c)
        in case drain Pop (Suc (length (ring_items r))) r of
             None \<Rightarrow> s1\<lparr>s_panic := True\<rparr>
           | Some (xs, r') \<Rightarrow>
               let s2 = fold (\<lambda>x. put_buf (snd x)) xs (upd_ch c (\<lambda>ch. ch\<lparr>ch_ring := r'\<rparr>) s1);
                   discarded = (word_of_int (\<Sum>x\<leftarrow>xs. int (length (case fst x of None \<Rightarrow> [] | Some d \<Rightarrow> d))) :: i32);
                   s3 = (if sint discarded > 0 \<and> sn_enabled (s_flow s2) then sn_OnRead discarded s2 else s2)
               in close_ring c s3)"

definition tryDrainRing :: "cref \<Rightarrow> session \<Rightarrow> session" where
  "tryDrainRing c s = (if ch_readMu (s_objs s c) then s else drainRing c s)"

definition channel_Close :: "cref \<Rightarrow> session \<Rightarrow> session" where
  "channel_Close c s0 =
     (let s = closeWrite c s0;
          s1 = (if ch_closeOnce (s_objs s c) then s
                else
                  let t1 = upd_ch c (\<lambda>ch. ch\<lparr>ch_closeOnce := True, ch_closed := True, ch_closeChan := True\<rparr>) s;
                      t2 = tryDrainRing c (WakeWriter c (wakeReader c t1))
                  in if \<not> ch_readDone (s_objs t2 c) then armCloseTimer c (resetPeer True c t2) else t2)
      in maybeFinalize c s1)"

definition remoteClose :: "cref \<Rightarrow> session \<Rightarrow> session" where
  "remoteClose c s =
     maybeFinalize c (WakeWriter c (wakeReader c
       (upd_ch c (\<lambda>ch. ch\<lparr>ch_drainable := True, ch_readDone := True\<rparr>) s)))"

definition localClose :: "cref \<Rightarrow> session \<Rightarrow> session" where
  "localClose c s =
     (let s1 = upd_ch c (\<lambda>ch. (if ch_writeOnce ch then ch else ch\<lparr>ch_writeOnce := True, ch_writeClosed := True\<rparr>)
                               \<lparr>ch_finQueued := True\<rparr>) s;
          s2 = upd_ch c (\<lambda>ch. (if ch_closeOnce ch then ch
                                else ch\<lparr>ch_closeOnce := True, ch_closed := True, ch_closeChan := True\<rparr>)
                               \<lparr>ch_readDone := True\<rparr>) s1;
          s3 = WakeWriter c (wakeReader c s2);
          s4 = (if \<not> ch_drainable (s_objs s3 c) then tryDrainRing c s3 else s3)
      in finalize c s4)"

definition peerGone :: "cref \<Rightarrow> session \<Rightarrow> session" where
  "peerGone c s =
     (let s1 = upd_ch c (\<lambda>ch. (if ch_writeOnce ch then ch else ch\<lparr>ch_writeOnce := True, ch_writeClosed := True\<rparr>)
                               \<lparr>ch_finQueued := True, ch_drainable := True, ch_readDone := True\<rparr>) s
      in finalize c (WakeWriter c (wakeReader c s1)))"

definition peerReset :: "cref \<Rightarrow> session \<Rightarrow> session" where
  "peerReset c s = maybeFinalize c (closeWrite c (upd_ch c (\<lambda>ch. ch\<lparr>ch_resetByPeer := True\<rparr>) s))"

text \<open>The close timer's function, when it fires.\<close>

definition close_timer_fires :: "cref \<Rightarrow> session \<Rightarrow> session" where
  "close_timer_fires c s =
     (case ch_closeTimer (s_objs s c) of
        Some t \<Rightarrow>
          if s_now s \<ge> t then
            let s1 = upd_ch c (\<lambda>ch. ch\<lparr>ch_closeTimer := None\<rparr>) s
            in if ch_done (s_objs s1 c) then s1 else localClose c s1
          else s
      | None \<Rightarrow> s)"

section \<open>Acknowledging\<close>

definition cumulativeAckLocked :: "cref \<Rightarrow> session \<Rightarrow> u64" where
  "cumulativeAckLocked c s =
     (let ch = s_objs s c in
      if ch_hasFin ch \<and> ch_readOffset ch \<ge> ch_finOffset ch then ch_finOffset ch + 1 else ch_readOffset ch)"

definition creditSession :: "u32 \<Rightarrow> session \<Rightarrow> session" where
  "creditSession n s = (if sn_enabled (s_flow s) \<and> n > 0 then sn_OnRead n s else s)"

definition sendAck :: "u64 \<Rightarrow> cref \<Rightarrow> session \<Rightarrow> session" where
  "sendAck cumulativeOffset c s =
     (let s1 = upd_ch c (\<lambda>ch. ch\<lparr>ch_ackTimer := None, ch_ackOffset := cumulativeOffset\<rparr>) s in
      if ch_ackPending (s_objs s1 c) then s1
      else
        let s2 = upd_ch c (\<lambda>ch. ch\<lparr>ch_ackPending := True\<rparr>) s1;
            frame = zero_frame\<lparr>wf_flag := FLG_ACK, wf_chID := ch_id (s_objs s2 c), wf_ackCh := Some c\<rparr>;
            (ok, s3) = writeControlFrameNonBlocking frame s2
        in if \<not> ok then upd_ch c (\<lambda>ch. ch\<lparr>ch_ackPending := False\<rparr>) s3 else s3)"

definition scheduleDelayedAck :: "u64 \<Rightarrow> cref \<Rightarrow> session \<Rightarrow> session" where
  "scheduleDelayedAck offset c s =
     (let s1 = upd_ch c (\<lambda>ch. ch\<lparr>ch_ackOffset := offset\<rparr>) s in
      if ch_ackPending (s_objs s1 c) then s1
      else
        let interval = AckInterval (s_config s1) in
        if interval \<le> 0 then sendAck offset c s1
        else if ring_Length (ch_ring (s_objs s1 c)) > 0 then s1
        else upd_ch c (\<lambda>ch. ch\<lparr>ch_ackTimer := Some (s_now s1 + interval)\<rparr>) s1)"

definition ack_timer_fires :: "cref \<Rightarrow> session \<Rightarrow> session" where
  "ack_timer_fires c s =
     (case ch_ackTimer (s_objs s c) of
        Some t \<Rightarrow>
          if s_now s \<ge> t then
            let s1 = upd_ch c (\<lambda>ch. ch\<lparr>ch_ackTimer := None\<rparr>) s
            in sendAck (cumulativeAckLocked c s1) c s1
          else s
      | None \<Rightarrow> s)"

text \<open>\<^verbatim>\<open>onAck\<close>: the frames at the front that the peer has are released.\<close>

definition acked :: "u64 \<Rightarrow> session \<Rightarrow> uref \<Rightarrow> bool" where
  "acked ackOffset s u \<longleftrightarrow> u_end (s_uobjs s u) \<le> ackOffset"

fun ack_prefix :: "u64 \<Rightarrow> uref list \<Rightarrow> session \<Rightarrow> uref list \<times> session" where
  "ack_prefix ackOffset [] s = ([], s)"
| "ack_prefix ackOffset (u # us) s =
     (if acked ackOffset s u then ack_prefix ackOffset us (release u s) else (u # us, s))"

definition onAck :: "u64 \<Rightarrow> cref \<Rightarrow> session \<Rightarrow> session" where
  "onAck ackOffset c s =
     (let us = ch_unacked (s_objs s c);
          (rest, s1) = ack_prefix ackOffset us s
      in if length rest < length us then
           let s2 = upd_ch c (\<lambda>ch. ch\<lparr>ch_unacked := rest\<rparr>) s1
           in if rest = [] then maybeFinalize c (leave_arq c s2) else s2
         else s1)"

section \<open>Retransmitting\<close>

fun retransmit_scan :: "time \<Rightarrow> time \<Rightarrow> int \<Rightarrow> uref list \<Rightarrow> session \<Rightarrow> uref list \<times> bool \<times> session" where
  "retransmit_scan now rto maxr [] s = ([], False, s)"
| "retransmit_scan now rto maxr (u # us) s =
     (let f = s_uobjs s u;
          shift = (if uf_retransmits f > 6 then 6 else uf_retransmits f)
      in if now - uf_sentAt f < rto * 2 ^ nat shift then retransmit_scan now rto maxr us s
         else
           let s1 = upd_u u (\<lambda>f. f\<lparr>uf_sentAt := now, uf_retransmits := uf_retransmits f + 1\<rparr>) s in
           if uf_retransmits (s_uobjs s1 u) > maxr then ([], True, s1)
           else
             (case retransmit_scan now rto maxr us (retain u s1) of
                (due, giveUp, s2) \<Rightarrow> (u # due, giveUp, s2)))"

definition retransmission :: "cref \<Rightarrow> session \<Rightarrow> uref \<Rightarrow> write_frame" where
  "retransmission c s u =
     (let f = s_uobjs s u in
      zero_frame\<lparr>wf_flag := (if uf_fin f then FLG_FIN else FLG_DATA), wf_chID := ch_id (s_objs s c),
        wf_pBuf := uf_pBuf f, wf_length := uf_length f, wf_offset := uf_offset f, wf_ack := Some u\<rparr>)"

text \<open>The list returned is what is left when the data queue is full and the sender has to wait.\<close>

fun sendRetransmissions :: "cref \<Rightarrow> uref list \<Rightarrow> session \<Rightarrow> uref list \<times> session" where
  "sendRetransmissions c [] s = ([], s)"
| "sendRetransmissions c (u # us) s =
     (case writeDataFrame (retransmission c s u) s of
        (SendOK, s1) \<Rightarrow> sendRetransmissions c us s1
      | (SendErr e, s1) \<Rightarrow> ([], fold release (u # us) s1)
      | (SendBlock, s1) \<Rightarrow> (u # us, s1))"

text \<open>The flag says whether the channel is to be given up once the frames left have gone out.\<close>

definition give_up :: "cref \<Rightarrow> session \<Rightarrow> session" where
  "give_up c s = s\<lparr>s_goLocalClose := s_goLocalClose s @ [c]\<rparr>"

definition checkRetransmissions :: "time \<Rightarrow> cref \<Rightarrow> session \<Rightarrow> uref list \<times> bool \<times> session" where
  "checkRetransmissions rto c s =
     (case retransmit_scan (s_now s) rto (MaxRetransmit (s_config s)) (ch_unacked (s_objs s c)) s of
        (due, giveUp, s1) \<Rightarrow>
          (case sendRetransmissions c due s1 of
             (left, s2) \<Rightarrow>
               if left = [] \<and> giveUp then (left, False, give_up c s2) else (left, giveUp, s2)))"

definition retransmitAllUnacked :: "cref \<Rightarrow> session \<Rightarrow> uref list \<times> session" where
  "retransmitAllUnacked c s =
     (let due = ch_unacked (s_objs s c);
          s1 = fold (\<lambda>u s. retain u (upd_u u (\<lambda>f. f\<lparr>uf_sentAt := s_now s\<rparr>) s)) due s
      in sendRetransmissions c due s1)"

section \<open>Delivering\<close>

definition ring_push :: "bytes \<Rightarrow> bref option \<Rightarrow> cref \<Rightarrow> session \<Rightarrow> session" where
  "ring_push d head c s =
     (case Push (Some d) head (ch_ring (s_objs s c)) of
        Panic \<Rightarrow> s\<lparr>s_panic := True\<rparr>
      | Ret (r, bk) \<Rightarrow> put_buf bk (upd_ch c (\<lambda>ch. ch\<lparr>ch_ring := r\<rparr>) s))"

definition wake_if_waiting :: "cref \<Rightarrow> session \<Rightarrow> session" where
  "wake_if_waiting c s = (if ch_waiting (s_objs s c) then wakeReader c s else s)"

definition feed_closed :: "cref \<Rightarrow> session \<Rightarrow> session" where
  "feed_closed c s =
     (if ch_closed (s_objs s c) \<and> \<not> Reliability (s_config s) then resetPeer False c s else s)"

definition feed :: "pbuf \<Rightarrow> cref \<Rightarrow> session \<Rightarrow> go_error option \<times> session" where
  "feed buffer c s =
     (if ch_closed (s_objs s c) \<or> s_closed s then (Some ErrClosedPipe, feed_closed c s)
      else (None, wake_if_waiting c (ring_push (snd buffer) (Some (fst buffer)) c s)))"

definition feedPayload :: "bytes \<Rightarrow> bref option \<Rightarrow> cref \<Rightarrow> session \<Rightarrow> go_error option \<times> session" where
  "feedPayload d head c s =
     (if ch_closed (s_objs s c) \<or> s_closed s then (Some ErrClosedPipe, put_buf head (feed_closed c s))
      else (None, wake_if_waiting c (ring_push d head c s)))"

text \<open>One turn of the loop over \<^verbatim>\<open>reorderMap\<close>, and the loop; it takes a map entry out each time, so as
  many turns as the map has entries are enough.\<close>

fun reorder_loop :: "nat \<Rightarrow> cref \<Rightarrow> session \<Rightarrow> session" where
  "reorder_loop 0 c s = s"
| "reorder_loop (Suc k) c s =
     (case ch_reorderMap (s_objs s c) of
        None \<Rightarrow> s
      | Some m \<Rightarrow>
          (case map_of m (ch_readOffset (s_objs s c)) of
             None \<Rightarrow> s
           | Some nf \<Rightarrow>
               let s1 = upd_ch c (\<lambda>ch. ch\<lparr>ch_reorderMap := Some (AList.delete (ch_readOffset ch) m)\<rparr>) s;
                   (e, s2) = feedPayload (rf_payload nf) (rf_head nf) c s1;
                   s3 = (if e \<noteq> None then creditSession (rf_length nf) s2 else s2)
               in reorder_loop k c (upd_ch c (\<lambda>ch. ch\<lparr>ch_readOffset := ch_readOffset ch + ucast (rf_length nf)\<rparr>) s3)))"

definition ack_now :: "bool \<Rightarrow> u32 \<Rightarrow> cref \<Rightarrow> session \<Rightarrow> session" where
  "ack_now shouldClose len c s =
     (let cfg = s_config s;
          ratio = StreamingAckRatio cfg;
          big = (len \<ge> MaxFrameDataSize cfg \<and> ImmediateACKForLargePackets cfg)
      in if shouldClose \<or> ratio \<le> 1 then sendAck (cumulativeAckLocked c s) c s
         else
           let s1 = upd_ch c (\<lambda>ch. ch\<lparr>ch_inOrderPackets := ch_inOrderPackets ch + 1\<rparr>) s
           in if ch_inOrderPackets (s_objs s1 c) mod ratio = 0 \<or> big
              then sendAck (cumulativeAckLocked c s1) c s1
              else scheduleDelayedAck (cumulativeAckLocked c s1) c s1)"

definition feed_in_order :: "bytes \<Rightarrow> bref option \<Rightarrow> u32 \<Rightarrow> cref \<Rightarrow> session \<Rightarrow> bool \<times> session" where
  "feed_in_order d head len c s =
     (let (e, s1) = feedPayload d head c s;
          s2 = (if e \<noteq> None then resetPeer False c (creditSession len s1) else s1);
          s3 = upd_ch c (\<lambda>ch. ch\<lparr>ch_readOffset := ch_readOffset ch + ucast len\<rparr>) s2;
          s4 = reorder_loop (case ch_reorderMap (s_objs s3 c) of None \<Rightarrow> 0 | Some m \<Rightarrow> length m) c s3;
          shouldClose = (ch_hasFin (s_objs s4 c) \<and> ch_readOffset (s_objs s4 c) \<ge> ch_finOffset (s_objs s4 c))
      in (shouldClose, ack_now shouldClose len c s4))"

definition feed_early :: "u64 \<Rightarrow> bytes \<Rightarrow> bref option \<Rightarrow> u32 \<Rightarrow> (u64, reorder_frame) gomap \<Rightarrow> cref \<Rightarrow> session \<Rightarrow> session" where
  "feed_early offset d head len m c s =
     (let s1 =
        (if offset - ch_readOffset (s_objs s c) > maxReorderBytes s then put_buf head s
         else if map_of m offset = None then
           upd_ch c (\<lambda>ch. ch\<lparr>ch_reorderMap := Some (AList.update offset
             \<lparr>rf_payload = d, rf_head = head, rf_offset = offset, rf_length = len\<rparr> m)\<rparr>) s
         else put_buf head s)
      in sendAck (cumulativeAckLocked c s1) c s1)"

definition feedReliablePayload :: "u64 \<Rightarrow> bytes \<Rightarrow> bref option \<Rightarrow> u32 \<Rightarrow> cref \<Rightarrow> session \<Rightarrow> session" where
  "feedReliablePayload offset d head len c s =
     (case ch_reorderMap (s_objs s c) of
        None \<Rightarrow> creditSession len (put_buf head s)
      | Some m \<Rightarrow>
          let ro = ch_readOffset (s_objs s c) in
          if offset + ucast len \<le> ro then
            let s1 = put_buf head s in sendAck (cumulativeAckLocked c s1) c s1
          else if offset = ro then
            (case feed_in_order d head len c s of
               (shouldClose, s1) \<Rightarrow> if shouldClose then remoteClose c s1 else s1)
          else if offset > ro then feed_early offset d head len m c s
          else let s1 = put_buf head s in sendAck (cumulativeAckLocked c s1) c s1)"

definition feedReliable :: "u64 \<Rightarrow> pbuf \<Rightarrow> u32 \<Rightarrow> cref \<Rightarrow> session \<Rightarrow> session" where
  "feedReliable offset p len c s =
     feedReliablePayload offset (take (unat len) (snd p)) (Some (fst p)) len c s"

definition handleFinReliable :: "u64 \<Rightarrow> cref \<Rightarrow> session \<Rightarrow> session" where
  "handleFinReliable finOffset c s =
     (if ch_reorderMap (s_objs s c) = None then s
      else
        let s1 = upd_ch c (\<lambda>ch. ch\<lparr>ch_hasFin := True, ch_finOffset := finOffset\<rparr>) s;
            shouldClose = ch_readOffset (s_objs s1 c) \<ge> finOffset;
            s2 = sendAck (cumulativeAckLocked c s1) c s1
        in if shouldClose then remoteClose c s2 else s2)"

end
