(* ===== verification/Channel_IO.thy ===== *)
theory Channel_IO
  imports Channel
begin

text \<open>
  The application's side of a channel (\<^verbatim>\<open>src/channel.go\<close>): \<^verbatim>\<open>Write\<close>, \<^verbatim>\<open>queueDataLocked\<close>, \<^verbatim>\<open>Read\<close>,
  \<^verbatim>\<open>ReadFrom\<close> with \<^verbatim>\<open>sendFromRead\<close>, and \<^verbatim>\<open>WriteTo\<close>.  A call that has to wait returns what it still has
  to do; the lock it holds stays set and the call is continued by the matching \<open>_resume\<close>.
\<close>

section \<open>Writing\<close>

text \<open>\<^verbatim>\<open>queueDataLocked\<close> up to the send, what follows it, and the whole; \<open>SendBlock\<close> leaves the frame in
  the writer's hands.\<close>

definition data_frame :: "pbuf \<Rightarrow> i32 \<Rightarrow> cref \<Rightarrow> session \<Rightarrow> write_frame \<times> session" where
  "data_frame p sz c s =
     (let currOffset = ch_writeOffset (s_objs s c);
          s1 = upd_ch c (\<lambda>ch. ch\<lparr>ch_writeOffset := ch_writeOffset ch + scast sz\<rparr>) s;
          frame = zero_frame\<lparr>wf_flag := FLG_DATA, wf_chID := ch_id (s_objs s c), wf_pBuf := Some p,
                    wf_length := sz, wf_offset := currOffset\<rparr>
      in if Reliability (s_config s1) then
           (case newUnackedFrame (Some p) currOffset sz False 2 s1 of
              (u, s2) \<Rightarrow> (frame\<lparr>wf_ack := Some u\<rparr>, add_unacked c u s2))
         else (frame, s1))"

definition send_data :: "write_frame \<Rightarrow> i32 \<Rightarrow> cref \<Rightarrow> session \<Rightarrow> send_result \<times> session" where
  "send_data frame sz c s =
     (case writeDataFrame frame s of
        (SendErr e, s1) \<Rightarrow>
          let s2 = (case wf_ack frame of
                      Some u \<Rightarrow> release u s1
                    | None \<Rightarrow> put_buf (map_option fst (wf_pBuf frame)) s1)
          in (SendErr e, sf_Refund c sz s2)
      | r \<Rightarrow> r)"

definition queueDataLocked :: "pbuf \<Rightarrow> i32 \<Rightarrow> cref \<Rightarrow> session \<Rightarrow> send_result \<times> write_frame \<times> session" where
  "queueDataLocked p sz c s =
     (case data_frame p sz c s of
        (frame, s1) \<Rightarrow> (case send_data frame sz c s1 of (r, s2) \<Rightarrow> (r, frame, s2)))"

text \<open>What a write ends with: done with a count and an error or none; waiting for credit with the
  bytes left; waiting for room in the queue with its frame and the bytes behind it; a panic.\<close>

datatype write_end =
    W_Done nat "go_error option"
  | W_Credit nat bytes
  | W_Queue nat write_frame i32 bytes
  | W_Panic

function write_loop :: "nat \<Rightarrow> bytes \<Rightarrow> cref \<Rightarrow> session \<Rightarrow> write_end \<times> session" where
  "write_loop tot b c s =
     (if b = [] then (W_Done tot None, s)
      else
        let desired = min (length b) (unat (MaxFrameDataSize (s_config s))) in
        case AcquireCredits c (word_of_int (int desired)) s of
          (AcqErr e, s1) \<Rightarrow> (W_Done tot (Some (if e = ErrClosedPipe then writeErr c s1 else e)), s1)
        | (AcqBlock, s1) \<Rightarrow> (W_Credit tot b, s1)
        | (AcqRetry, s1) \<Rightarrow> (W_Credit tot b, s1)
        | (AcqOK sz, s1) \<Rightarrow>
            (case get_buf (nat (sint sz)) s1 of
               (None, s2) \<Rightarrow> (W_Panic, s2\<lparr>s_panic := True\<rparr>)
             | (Some a, s2) \<Rightarrow>
                 let n = nat (sint sz) in
                 case queueDataLocked (a, take n b) sz c s2 of
                   (SendOK, _, s3) \<Rightarrow> write_loop (tot + n) (drop n b) c s3
                 | (SendErr e, _, s3) \<Rightarrow> (W_Done tot (Some e), s3)
                 | (SendBlock, frame, s3) \<Rightarrow> (W_Queue tot frame sz (drop n b), s3)))"
  by pat_completeness auto
termination
  by (relation "measure (\<lambda>(tot, b, c, s). length b)") (auto simp: get_buf_def split: if_splits)

declare write_loop.simps [simp del]

definition unlock_write :: "cref \<Rightarrow> write_end \<times> session \<Rightarrow> write_end \<times> session" where
  "unlock_write c r =
     (case r of
        (W_Done n e, s) \<Rightarrow> (W_Done n e, upd_ch c (\<lambda>ch. ch\<lparr>ch_writeMu := False\<rparr>) s)
      | (w, s) \<Rightarrow> (w, s))"

text \<open>\<open>None\<close>: another writer holds \<^verbatim>\<open>writeMu\<close>.\<close>

definition channel_Write :: "bytes \<Rightarrow> cref \<Rightarrow> session \<Rightarrow> (write_end \<times> session) option" where
  "channel_Write b c s =
     (if b = [] then Some (W_Done 0 None, s)
      else if ch_closed (s_objs s c) \<or> ch_writeClosed (s_objs s c) \<or> s_closed s
      then Some (W_Done 0 (Some (writeErr c s)), s)
      else if ch_writeMu (s_objs s c) then None
      else
        let s1 = upd_ch c (\<lambda>ch. ch\<lparr>ch_writeMu := True\<rparr>) s in
        if ch_writeClosed (s_objs s1 c) then Some (unlock_write c (W_Done 0 (Some (writeErr c s1)), s1))
        else Some (unlock_write c (write_loop 0 b c s1)))"

definition Write_resume :: "write_end \<Rightarrow> cref \<Rightarrow> session \<Rightarrow> write_end \<times> session" where
  "Write_resume w c s =
     (case w of
        W_Credit tot b \<Rightarrow> unlock_write c (write_loop tot b c s)
      | W_Queue tot frame sz b \<Rightarrow>
          (case send_data frame sz c s of
             (SendOK, s1) \<Rightarrow> unlock_write c (write_loop (tot + nat (sint sz)) b c s1)
           | (SendErr e, s1) \<Rightarrow> unlock_write c (W_Done tot (Some e), s1)
           | (SendBlock, s1) \<Rightarrow> (w, s1))
      | _ \<Rightarrow> (w, s))"

section \<open>Reading\<close>

definition ring_partial :: "nat \<Rightarrow> cref \<Rightarrow> session \<Rightarrow> bytes \<times> session" where
  "ring_partial k c s =
     (case PartialRead k (ch_ring (s_objs s c)) of
        Panic \<Rightarrow> ([], s\<lparr>s_panic := True\<rparr>)
      | Ret (d, bk, r) \<Rightarrow> (d, put_buf bk (upd_ch c (\<lambda>ch. ch\<lparr>ch_ring := r\<rparr>) s)))"

text \<open>\<^verbatim>\<open>for len(b) > 0 { \<dots> PartialRead \<dots> }\<close>\<close>

function read_fill :: "nat \<Rightarrow> cref \<Rightarrow> session \<Rightarrow> bytes \<times> session" where
  "read_fill k c s =
     (if k = 0 then ([], s)
      else
        case ring_partial k c s of
          (d, s1) \<Rightarrow>
            if d = [] then ([], s1)
            else (case read_fill (k - length d) c s1 of (e, s2) \<Rightarrow> (d @ e, s2)))"
  by pat_completeness auto
termination by (relation "measure fst") auto

declare read_fill.simps [simp del]

datatype read_end = RR_Data bytes | RR_Err go_error | RR_Again bool | RR_Wait

text \<open>One round of the outer loop; \<open>RR_Again\<close> carries \<^verbatim>\<open>sawDone\<close>.\<close>

definition read_round :: "nat \<Rightarrow> bool \<Rightarrow> cref \<Rightarrow> session \<Rightarrow> read_end \<times> session" where
  "read_round k sawDone c s =
     (case read_fill k c s of
        (d, s1) \<Rightarrow>
          if d \<noteq> [] then (RR_Data d, sf_OnRead c (int (length d)) s1)
          else if readAborted c s1 then (RR_Err ErrClosedPipe, s1)
          else if ch_readDone (s_objs s1 c) then
            if sawDone then (RR_Err ErrEOF, close_ring c s1) else (RR_Again True, s1)
          else
            (case ring_partial k c (upd_ch c (\<lambda>ch. ch\<lparr>ch_waiting := True\<rparr>) s1) of
               (d1, s2) \<Rightarrow>
                 if d1 \<noteq> [] then
                   (case read_fill (k - length d1) c
                           (upd_ch c (\<lambda>ch. ch\<lparr>ch_waiting := False, ch_notify := False\<rparr>) s2) of
                      (d2, s3) \<Rightarrow> (RR_Data (d1 @ d2), sf_OnRead c (int (length (d1 @ d2))) s3))
                 else if readAborted c s2 then
                   (RR_Err ErrClosedPipe, upd_ch c (\<lambda>ch. ch\<lparr>ch_waiting := False\<rparr>) s2)
                 else if ch_readDone (s_objs s2 c) then
                   let s3 = upd_ch c (\<lambda>ch. ch\<lparr>ch_waiting := False\<rparr>) s2
                   in if sawDone then (RR_Err ErrEOF, close_ring c s3) else (RR_Again True, s3)
                 else if ch_notify (s_objs s2 c) then
                   (RR_Again sawDone, upd_ch c (\<lambda>ch. ch\<lparr>ch_notify := False, ch_waiting := False\<rparr>) s2)
                 else if ch_closeChan (s_objs s2 c) then (RR_Err ErrClosedPipe, s2)
                 else (RR_Wait, s2)))"

fun read_loop :: "nat \<Rightarrow> nat \<Rightarrow> bool \<Rightarrow> cref \<Rightarrow> session \<Rightarrow> read_end \<times> session" where
  "read_loop 0 k sawDone c s = (RR_Again sawDone, s)"
| "read_loop (Suc fuel) k sawDone c s =
     (case read_round k sawDone c s of
        (RR_Again d, s1) \<Rightarrow> read_loop fuel k d c s1
      | r \<Rightarrow> r)"

text \<open>The deferred part, and the call.  Four rounds are enough when nothing interferes
  (\<open>channel_Read_ends\<close>).\<close>

definition unlock_read :: "cref \<Rightarrow> read_end \<times> session \<Rightarrow> read_end \<times> session" where
  "unlock_read c r =
     (case r of
        (RR_Wait, s) \<Rightarrow> (RR_Wait, s)
      | (x, s) \<Rightarrow>
          let s1 = upd_ch c (\<lambda>ch. ch\<lparr>ch_readMu := False\<rparr>) s
          in (x, if readAborted c s1 then tryDrainRing c s1 else s1))"

definition channel_Read :: "nat \<Rightarrow> cref \<Rightarrow> session \<Rightarrow> (read_end \<times> session) option" where
  "channel_Read k c s =
     (if k = 0 then Some (RR_Data [], s)
      else if readAborted c s then Some (RR_Err ErrClosedPipe, s)
      else if ch_readMu (s_objs s c) then None
      else Some (unlock_read c (read_loop 4 k False c (upd_ch c (\<lambda>ch. ch\<lparr>ch_readMu := True\<rparr>) s))))"

text \<open>A waiting reader goes on after a wake-up or after \<^verbatim>\<open>closeChan\<close> was closed.\<close>

definition Read_resume :: "nat \<Rightarrow> cref \<Rightarrow> session \<Rightarrow> read_end \<times> session" where
  "Read_resume k c s =
     (if ch_notify (s_objs s c) then
        unlock_read c (read_loop 4 k False c
          (upd_ch c (\<lambda>ch. ch\<lparr>ch_notify := False, ch_waiting := False\<rparr>) s))
      else if ch_closeChan (s_objs s c) then unlock_read c (RR_Err ErrClosedPipe, s)
      else (RR_Wait, s))"

text \<open>The bound on the rounds is never reached: a round that asks for another one has either seen the end
  of the stream for the first time or used up the wake-up token.\<close>

lemma ring_partial_notify: "ring_partial k c s = (d, s1) \<Longrightarrow> ch_notify (s_objs s1 c) = ch_notify (s_objs s c)"
  by (auto simp: ring_partial_def upd_ch_def split: outcome.splits prod.splits)

lemma read_fill_notify: "read_fill k c s = (d, s1) \<Longrightarrow> ch_notify (s_objs s1 c) = ch_notify (s_objs s c)"
proof (induction k c s arbitrary: d s1 rule: read_fill.induct)
  case (1 k c s)
  obtain e s2 where p: "ring_partial k c s = (e, s2)" by (metis surj_pair)
  obtain e2 s3 where r: "read_fill (k - length e) c s2 = (e2, s3)" by (metis surj_pair)
  show ?case
    using "1.prems" "1.IH" [OF _ p [symmetric] _ r] ring_partial_notify [OF p] p r
    by (subst (asm) read_fill.simps) (auto split: if_splits)
qed

definition rounds_left :: "bool \<Rightarrow> cref \<Rightarrow> session \<Rightarrow> nat" where
  "rounds_left sawDone c s = (if sawDone then 0 else 1) + (if ch_notify (s_objs s c) then 1 else 0)"

lemma read_round_again:
  assumes "read_round k sd c s = (RR_Again d, s')"
  shows "rounds_left d c s' < rounds_left sd c s"
proof -
  obtain e s1 where f: "read_fill k c s = (e, s1)" by (metis surj_pair)
  obtain e1 s2 where p: "ring_partial k c (upd_ch c (\<lambda>ch. ch\<lparr>ch_waiting := True\<rparr>) s1) = (e1, s2)" by (metis surj_pair)
  have "ch_notify (s_objs s2 c) = ch_notify (s_objs s c)" "ch_notify (s_objs s1 c) = ch_notify (s_objs s c)"
    using ring_partial_notify [OF p] read_fill_notify [OF f] by (simp_all add: upd_ch_def)
  then show ?thesis
    using assms unfolding read_round_def f p prod.case Let_def
    by (auto simp: rounds_left_def upd_ch_def split: if_splits prod.splits)
qed

lemma read_loop_ends: "rounds_left sd c s < fuel \<Longrightarrow> fst (read_loop fuel k sd c s) \<noteq> RR_Again d"
proof (induction fuel arbitrary: sd s)
  case (Suc fuel)
  obtain x s1 where r: "read_round k sd c s = (x, s1)" by (metis surj_pair)
  show ?case
  proof (cases x)
    case (RR_Again e)
    with read_round_again [of k sd c s e s1] r Suc.prems have "rounds_left e c s1 < fuel" by simp
    from Suc.IH [OF this] RR_Again r show ?thesis by simp
  qed (simp_all add: r)
qed simp

lemma channel_Read_ends: "channel_Read k c s = Some (x, s') \<Longrightarrow> x \<noteq> RR_Again d"
proof -
  have "read_loop 4 k False c t \<noteq> (RR_Again d, u)" for t u
  proof -
    have "rounds_left False c t < 4" by (simp add: rounds_left_def)
    from read_loop_ends [OF this, of k d] show ?thesis by auto
  qed
  moreover assume "channel_Read k c s = Some (x, s')"
  ultimately show ?thesis
    by (auto simp: channel_Read_def unlock_read_def Let_def split: if_splits prod.splits read_end.splits)
qed

section \<open>ReadFrom\<close>

text \<open>\<^verbatim>\<open>sendFromRead\<close> sends the \<open>n\<close> bytes in \<open>data\<close>, which lie in the buffer at \<open>pb\<close>; \<open>keep\<close> tells whether
  the caller still owns that buffer.\<close>

datatype sfr_end =
    S_Done nat bool "go_error option"
  | S_Credit nat bool
  | S_Queue nat bool write_frame i32
  | S_Panic

function sfr_loop :: "bref \<Rightarrow> bytes \<Rightarrow> bool \<Rightarrow> nat \<Rightarrow> bool \<Rightarrow> cref \<Rightarrow> session \<Rightarrow> sfr_end \<times> session" where
  "sfr_loop pb data copySmall snt keep c s =
     (if snt \<ge> length data then (S_Done snt keep None, s)
      else
        case AcquireCredits c (word_of_int (int (length data - snt))) s of
          (AcqErr e, s1) \<Rightarrow> (S_Done snt keep (Some e), s1)
        | (AcqBlock, s1) \<Rightarrow> (S_Credit snt keep, s1)
        | (AcqRetry, s1) \<Rightarrow> (S_Credit snt keep, s1)
        | (AcqOK sz, s1) \<Rightarrow>
            let n = nat (sint sz);
                whole = (snt = 0 \<and> sint sz = int (length data) \<and> \<not> copySmall);
                (fb, s2) = (if whole then (Some (pb, data), s1)
                            else case get_buf n s1 of
                                   (Some a, s') \<Rightarrow> (Some (a, take n (drop snt data)), s')
                                 | (None, s') \<Rightarrow> (None, s'));
                keep1 = (keep \<and> \<not> whole)
            in case fb of
                 None \<Rightarrow> (S_Panic, s2\<lparr>s_panic := True\<rparr>)
               | Some p \<Rightarrow>
                   (case queueDataLocked p sz c s2 of
                      (SendOK, _, s3) \<Rightarrow> sfr_loop pb data copySmall (snt + n) keep1 c s3
                    | (SendErr e, _, s3) \<Rightarrow> (S_Done snt keep1 (Some e), s3)
                    | (SendBlock, frame, s3) \<Rightarrow> (S_Queue snt keep1 frame sz, s3)))"
  by pat_completeness auto
termination
  by (relation "measure (\<lambda>(pb, data, cs, snt, keep, c, s). length data - snt)")
    (auto simp: get_buf_def split: if_splits prod.splits option.splits)

declare sfr_loop.simps [simp del]

text \<open>\<open>None\<close>: another writer holds \<^verbatim>\<open>writeMu\<close>.\<close>

definition sendFromRead :: "bref \<Rightarrow> bytes \<Rightarrow> cref \<Rightarrow> session \<Rightarrow> (sfr_end \<times> session) option" where
  "sendFromRead pb data c s =
     (if ch_writeMu (s_objs s c) then None
      else if ch_closed (s_objs s c) \<or> ch_writeClosed (s_objs s c)
      then Some (S_Done 0 True (Some (writeErr c s)), s)
      else
        let copySmall = (Reliability (s_config s) \<and> length data \<le> unat (MaxFrameDataSize (s_config s)) div 2);
            (r, s1) = sfr_loop pb data copySmall 0 True c (upd_ch c (\<lambda>ch. ch\<lparr>ch_writeMu := True\<rparr>) s)
        in case r of
             S_Done n k e \<Rightarrow> Some (S_Done n k e, upd_ch c (\<lambda>ch. ch\<lparr>ch_writeMu := False\<rparr>) s1)
           | _ \<Rightarrow> Some (r, s1))"

text \<open>The source reader is a parameter: from its state and a buffer size, the bytes it put into
  the buffer, its error or none, and the next state.  A reader may never end, so the loop may not:
  it is \<open>None\<close> then.\<close>

type_synonym 'r src_reader = "'r \<Rightarrow> nat \<Rightarrow> bytes \<times> go_error option \<times> 'r"

datatype rf_end = RF_Done nat "go_error option" | RF_Blocked nat sfr_end | RF_Locked nat | RF_Panic

text \<open>One iteration: \<open>Inl\<close> is a return, \<open>Inr\<close> the next iteration's spare buffer and total.\<close>

definition read_from_iter ::
  "'r src_reader \<Rightarrow> bref option \<Rightarrow> nat \<Rightarrow> cref \<Rightarrow> session \<Rightarrow> 'r \<Rightarrow>
   (rf_end + (bref option \<times> nat)) \<times> session \<times> 'r" where
  "read_from_iter rd spare tot c s r =
     (let maxChunk = unat (MaxFrameDataSize (s_config s));
          (pb, s1) = (case spare of Some a \<Rightarrow> (Some a, s) | None \<Rightarrow> get_buf maxChunk s)
      in case pb of
           None \<Rightarrow> (Inl RF_Panic, s1\<lparr>s_panic := True\<rparr>, r)
         | Some a \<Rightarrow>
             (case rd r maxChunk of
                (d, rerr, r1) \<Rightarrow>
                  let stop = (\<lambda>spare tot s2.
                        case rerr of
                          None \<Rightarrow> (Inr (spare, tot), s2, r1)
                        | Some ErrEOF \<Rightarrow> (Inl (RF_Done tot None), put_buf spare s2, r1)
                        | Some e \<Rightarrow> (Inl (RF_Done tot (Some e)), put_buf spare s2, r1))
                  in if d = [] then stop (Some a) tot s1
                     else
                       (case sendFromRead a d c s1 of
                          None \<Rightarrow> (Inl (RF_Locked tot), s1, r1)
                        | Some (S_Done n keep e, s2) \<Rightarrow>
                            let spare1 = (if keep then Some a else None) in
                            (case e of
                               Some err \<Rightarrow> (Inl (RF_Done (tot + n) (Some err)), put_buf spare1 s2, r1)
                             | None \<Rightarrow> stop spare1 (tot + n) s2)
                        | Some (S_Panic, s2) \<Rightarrow> (Inl RF_Panic, s2, r1)
                        | Some (b, s2) \<Rightarrow> (Inl (RF_Blocked tot b), s2, r1))))"

partial_function (option) read_from_loop ::
  "'r src_reader \<Rightarrow> bref option \<Rightarrow> nat \<Rightarrow> cref \<Rightarrow> session \<Rightarrow> 'r \<Rightarrow> (rf_end \<times> session \<times> 'r) option" where
  "read_from_loop rd spare tot c s r =
     (case read_from_iter rd spare tot c s r of
        (Inl e, s1, r1) \<Rightarrow> Some (e, s1, r1)
      | (Inr (spare1, tot1), s1, r1) \<Rightarrow> read_from_loop rd spare1 tot1 c s1 r1)"

definition ReadFrom :: "'r src_reader \<Rightarrow> cref \<Rightarrow> session \<Rightarrow> 'r \<Rightarrow> (rf_end \<times> session \<times> 'r) option" where
  "ReadFrom rd c s r =
     (if ch_closed (s_objs s c) \<or> ch_writeClosed (s_objs s c) \<or> s_closed s
      then Some (RF_Done 0 (Some (writeErr c s)), s, r)
      else read_from_loop rd None 0 c s r)"

section \<open>WriteTo\<close>

text \<open>The destination's \<^verbatim>\<open>Write\<close> is a parameter: bytes taken, error or none.\<close>

type_synonym 'w dst_writer = "'w \<Rightarrow> bytes \<Rightarrow> nat \<times> go_error option \<times> 'w"

definition ring_peek :: "cref \<Rightarrow> session \<Rightarrow> (bytes option \<times> bref option) option \<times> session" where
  "ring_peek c s =
     (case Peek (ch_ring (s_objs s c)) of
        Panic \<Rightarrow> (None, s\<lparr>s_panic := True\<rparr>)
      | Ret (x, r) \<Rightarrow> (x, upd_ch c (\<lambda>ch. ch\<lparr>ch_ring := r\<rparr>) s))"

definition ring_advance :: "nat \<Rightarrow> cref \<Rightarrow> session \<Rightarrow> session" where
  "ring_advance n c s =
     (case Advance n (ch_ring (s_objs s c)) of
        Panic \<Rightarrow> s\<lparr>s_panic := True\<rparr>
      | Ret (bk, r) \<Rightarrow> put_buf bk (upd_ch c (\<lambda>ch. ch\<lparr>ch_ring := r\<rparr>) s))"

text \<open>The inner loop: \<open>Inl\<close> is a return with an error or none, \<open>Inr\<close> an empty ring.  Every turn that
  does not return removes a buffer, so one turn more than there are buffers is enough.\<close>

fun write_to_drain ::
  "nat \<Rightarrow> 'w dst_writer \<Rightarrow> nat \<Rightarrow> cref \<Rightarrow> session \<Rightarrow> 'w \<Rightarrow> (nat \<times> go_error option + nat) \<times> session \<times> 'w" where
  "write_to_drain 0 wr tot c s w = (Inr tot, s, w)"
| "write_to_drain (Suc fuel) wr tot c s w =
     (case ring_peek c s of
        (None, s1) \<Rightarrow> (Inr tot, s1, w)
      | (Some (_, Some h), s1) \<Rightarrow> write_to_drain fuel wr tot c (put_buf (Some h) s1) w
      | (Some (buf, None), s1) \<Rightarrow>
          let b = (case buf of None \<Rightarrow> [] | Some d \<Rightarrow> d) in
          (case wr w b of
             (n, e, w1) \<Rightarrow>
               let s2 = (if n > 0 then sf_OnRead c (int n) (ring_advance n c s1) else s1);
                   tot1 = tot + n
               in case e of
                    Some err \<Rightarrow> (Inl (tot1, Some err), s2, w1)
                  | None \<Rightarrow> if n < length b then (Inl (tot1, Some ErrShortWrite), s2, w1)
                            else write_to_drain fuel wr tot1 c s2 w1))"

datatype wt_round = WT_Ret nat "go_error option" | WT_Again nat bool | WT_Wait nat

definition write_to_round ::
  "'w dst_writer \<Rightarrow> nat \<Rightarrow> bool \<Rightarrow> cref \<Rightarrow> session \<Rightarrow> 'w \<Rightarrow> wt_round \<times> session \<times> 'w" where
  "write_to_round wr tot sawDone c s w =
     (case write_to_drain (Suc (length (ring_items (ch_ring (s_objs s c))))) wr tot c s w of
        (Inl (n, e), s1, w1) \<Rightarrow> (WT_Ret n e, s1, w1)
      | (Inr n, s1, w1) \<Rightarrow>
          if readAborted c s1 then (WT_Ret n (Some ErrClosedPipe), s1, w1)
          else if ch_readDone (s_objs s1 c) then
            if sawDone then (WT_Ret n None, close_ring c s1, w1) else (WT_Again n True, s1, w1)
          else
            let s2 = upd_ch c (\<lambda>ch. ch\<lparr>ch_waiting := True\<rparr>) s1 in
            (case ring_peek c s2 of
               (Some _, s3) \<Rightarrow> (WT_Again n sawDone, upd_ch c (\<lambda>ch. ch\<lparr>ch_waiting := False, ch_notify := False\<rparr>) s3, w1)
             | (None, s3) \<Rightarrow>
                 if readAborted c s3
                 then (WT_Ret n (Some ErrClosedPipe), upd_ch c (\<lambda>ch. ch\<lparr>ch_waiting := False\<rparr>) s3, w1)
                 else if ch_readDone (s_objs s3 c)
                 then (WT_Again n sawDone, upd_ch c (\<lambda>ch. ch\<lparr>ch_waiting := False\<rparr>) s3, w1)
                 else if ch_notify (s_objs s3 c)
                 then (WT_Again n sawDone, upd_ch c (\<lambda>ch. ch\<lparr>ch_waiting := False, ch_notify := False\<rparr>) s3, w1)
                 else if ch_closeChan (s_objs s3 c)
                 then (WT_Ret n (Some ErrClosedPipe), upd_ch c (\<lambda>ch. ch\<lparr>ch_waiting := False\<rparr>) s3, w1)
                 else (WT_Wait n, s3, w1)))"

fun write_to_loop ::
  "nat \<Rightarrow> 'w dst_writer \<Rightarrow> nat \<Rightarrow> bool \<Rightarrow> cref \<Rightarrow> session \<Rightarrow> 'w \<Rightarrow> wt_round \<times> session \<times> 'w" where
  "write_to_loop 0 wr tot sawDone c s w = (WT_Again tot sawDone, s, w)"
| "write_to_loop (Suc fuel) wr tot sawDone c s w =
     (case write_to_round wr tot sawDone c s w of
        (WT_Again n d, s1, w1) \<Rightarrow> write_to_loop fuel wr n d c s1 w1
      | r \<Rightarrow> r)"

definition channel_WriteTo :: "'w dst_writer \<Rightarrow> cref \<Rightarrow> session \<Rightarrow> 'w \<Rightarrow> (wt_round \<times> session \<times> 'w) option" where
  "channel_WriteTo wr c s w =
     (if readAborted c s then Some (WT_Ret 0 (Some ErrClosedPipe), s, w)
      else if ch_readMu (s_objs s c) then None
      else
        case write_to_loop 4 wr 0 False c (upd_ch c (\<lambda>ch. ch\<lparr>ch_readMu := True\<rparr>) s) w of
          (WT_Wait n, s1, w1) \<Rightarrow> Some (WT_Wait n, s1, w1)
        | (r, s1, w1) \<Rightarrow>
            let s2 = upd_ch c (\<lambda>ch. ch\<lparr>ch_readMu := False\<rparr>) s1
            in Some (r, if readAborted c s2 then tryDrainRing c s2 else s2, w1))"

end
