(* ===== verification/Delivery.thy ===== *)
theory Delivery
  imports Channel_IO
begin

text \<open>
  In-order reassembly (\<^verbatim>\<open>feedReliablePayload\<close>, \<^verbatim>\<open>Read\<close> of \<^verbatim>\<open>src/channel.go\<close>): a stream cut into
  segments, whose frames arrive in any order, any number of times, is handed to the
  application as it was written.  Offsets are 64-bit words; the stream is shorter than
  \<open>2 ^ 64\<close> bytes.
\<close>

section \<open>What the operations leave alone\<close>

text \<open>The part of a channel that delivery depends on.\<close>

definition rx_view :: "channel \<Rightarrow> ring \<times> u64 \<times> (u64, reorder_frame) gomap option \<times> bool \<times> bool \<times> bool \<times> bool" where
  "rx_view ch = (ch_ring ch, ch_readOffset ch, ch_reorderMap ch, ch_closed ch, ch_hasFin ch,
     ch_readDone ch, ch_closeChan ch)"

definition env_view :: "session \<Rightarrow> config \<times> bool \<times> bool" where
  "env_view s = (s_config s, s_closed s, s_panic s)"

definition same_rx :: "cref \<Rightarrow> session \<Rightarrow> session \<Rightarrow> bool" where
  "same_rx c s s' \<longleftrightarrow> rx_view (s_objs s' c) = rx_view (s_objs s c) \<and> env_view s' = env_view s"

lemma same_rx_refl [simp]: "same_rx c s s"
  by (simp add: same_rx_def)

lemma same_rx_trans: "same_rx c s s' \<Longrightarrow> same_rx c s' s'' \<Longrightarrow> same_rx c s s''"
  by (simp add: same_rx_def)

lemmas rx_defs = same_rx_def rx_view_def env_view_def

lemma same_rx_put_buf [simp]: "same_rx c s (put_buf h s)"
  by (simp add: rx_defs)

lemma same_rx_writeControl: "same_rx c s (snd (writeControlFrameNonBlocking f s))"
  by (simp add: rx_defs)

lemma same_rx_sendAck: "same_rx c s (sendAck k c s)"
  by (simp add: rx_defs sendAck_def upd_ch_def Let_def case_prod_beta)

lemma same_rx_scheduleDelayedAck: "same_rx c s (scheduleDelayedAck k c s)"
  using same_rx_sendAck [of c "upd_ch c (\<lambda>ch. ch\<lparr>ch_ackOffset := k\<rparr>) s" k]
  by (simp add: scheduleDelayedAck_def rx_defs upd_ch_def Let_def)

lemma same_rx_upd:
  "(\<And>ch. rx_view (f ch) = rx_view ch) \<Longrightarrow> same_rx c s (upd_ch d f s)"
  by (simp add: same_rx_def upd_ch_def env_view_def)

lemma same_rx_ack_now: "same_rx c s (ack_now b len c s)"
proof -
  let ?t = "upd_ch c (\<lambda>ch. ch\<lparr>ch_inOrderPackets := ch_inOrderPackets ch + 1\<rparr>) s"
  have "same_rx c s ?t" by (rule same_rx_upd) (simp add: rx_view_def)
  then show ?thesis
    using same_rx_sendAck [of c s] same_rx_trans [OF _ same_rx_sendAck [of c ?t]]
      same_rx_trans [OF _ same_rx_scheduleDelayedAck [of c ?t]]
    by (simp add: ack_now_def Let_def)
qed

lemma same_rx_wake: "same_rx c s (wake_if_waiting c s)"
  by (auto simp: wake_if_waiting_def wakeReader_def rx_view_def intro!: same_rx_upd)

lemma same_rx_flush: "same_rx c s (sf_flushUpdate c s)"
  by (simp add: sf_flushUpdate_def rx_defs upd_flow_def upd_ch_def Let_def case_prod_beta)

lemma same_rx_sn_OnRead: "same_rx c s (sn_OnRead k s)"
  by (simp add: sn_OnRead_def sn_flushUpdate_def rx_defs Let_def case_prod_beta upd_sn_def)

lemma same_rx_upd_flow: "same_rx c s (upd_flow c g s)"
  by (simp add: upd_flow_def rx_defs upd_ch_def)

lemma same_rx_if: "same_rx c s s1 \<Longrightarrow> same_rx c s s2 \<Longrightarrow> same_rx c s (if P then s1 else s2)"
  by simp

lemma same_rx_OnRead: "same_rx c s (sf_OnRead c n s)"
  unfolding sf_OnRead_def Let_def
  by (intro same_rx_if same_rx_refl same_rx_trans [OF _ same_rx_sn_OnRead] same_rx_trans [OF _ same_rx_flush]
      same_rx_upd_flow)

section \<open>The open receiver\<close>

definition rx_open :: "cref \<Rightarrow> session \<Rightarrow> bool" where
  "rx_open c s \<longleftrightarrow>
     \<not> ch_closed (s_objs s c) \<and> \<not> s_closed s \<and> \<not> s_panic s \<and> \<not> ch_readDone (s_objs s c) \<and>
     \<not> ch_hasFin (s_objs s c) \<and> \<not> ch_closeChan (s_objs s c) \<and> ring_live (ch_ring (s_objs s c))"

lemma same_rx_open: "same_rx c s s' \<Longrightarrow> rx_open c s' = rx_open c s"
  by (auto simp: rx_defs rx_open_def)

abbreviation items :: "cref \<Rightarrow> session \<Rightarrow> slot list" where
  "items c s \<equiv> ring_items (ch_ring (s_objs s c))"

lemma ring_push_open:
  assumes "rx_open c s"
  shows "rx_open c (ring_push d h c s)" "items c (ring_push d h c s) = items c s @ [\<lparr>sbuf = Some d, shead = h\<rparr>]"
    "ch_readOffset (s_objs (ring_push d h c s) c) = ch_readOffset (s_objs s c)"
    "ch_reorderMap (s_objs (ring_push d h c s) c) = ch_reorderMap (s_objs s c)"
    "s_config (ring_push d h c s) = s_config s"
proof -
  obtain r where "Push (Some d) h (ch_ring (s_objs s c)) = Ret (r, None)" "ring_live r"
    "ring_items r = items c s @ [\<lparr>sbuf = Some d, shead = h\<rparr>]"
    using rb.push_law [of "ch_ring (s_objs s c)" "Some d" h] assms by (auto simp: rx_open_def)
  with assms show "rx_open c (ring_push d h c s)" "items c (ring_push d h c s) = items c s @ [\<lparr>sbuf = Some d, shead = h\<rparr>]"
    "ch_readOffset (s_objs (ring_push d h c s) c) = ch_readOffset (s_objs s c)"
    "ch_reorderMap (s_objs (ring_push d h c s) c) = ch_reorderMap (s_objs s c)"
    "s_config (ring_push d h c s) = s_config s"
    by (simp_all add: ring_push_def rx_open_def upd_ch_def)
qed

lemma feedPayload_open:
  assumes "rx_open c s"
  shows "\<exists>s'. feedPayload d h c s = (None, s') \<and> rx_open c s' \<and>
    items c s' = items c s @ [\<lparr>sbuf = Some d, shead = h\<rparr>] \<and>
    ch_readOffset (s_objs s' c) = ch_readOffset (s_objs s c) \<and>
    ch_reorderMap (s_objs s' c) = ch_reorderMap (s_objs s c) \<and> s_config s' = s_config s"
proof -
  let ?t = "ring_push d h c s"
  have w: "same_rx c ?t (wake_if_waiting c ?t)" by (rule same_rx_wake)
  have "feedPayload d h c s = (None, wake_if_waiting c ?t)"
    using assms by (simp add: feedPayload_def rx_open_def)
  with ring_push_open [OF assms, of d h] w same_rx_open [OF w] show ?thesis
    by (auto simp: rx_defs)
qed

section \<open>Segments\<close>

definition seg_off :: "bytes list \<Rightarrow> nat \<Rightarrow> nat" where
  "seg_off segs i = length (concat (take i segs))"

definition segs_ok :: "bytes list \<Rightarrow> bool" where
  "segs_ok segs \<longleftrightarrow> list_all (\<lambda>d. 0 < length d \<and> length d < 2 ^ 32) segs \<and> length (concat segs) < 2 ^ 64"

definition soff :: "bytes list \<Rightarrow> nat \<Rightarrow> u64" where
  "soff segs i = of_nat (seg_off segs i)"

definition slen :: "bytes list \<Rightarrow> nat \<Rightarrow> u32" where
  "slen segs i = of_nat (length (segs ! i))"

lemma take_Suc_concat: "i < length segs \<Longrightarrow> concat (take (Suc i) segs) = concat (take i segs) @ segs ! i"
  by (simp add: take_Suc_conv_app_nth)

lemma seg_off_Suc: "i < length segs \<Longrightarrow> seg_off segs (Suc i) = seg_off segs i + length (segs ! i)"
  by (simp add: seg_off_def take_Suc_concat)

lemma seg_off_less:
  assumes "segs_ok segs" "i < j" "j \<le> length segs"
  shows "seg_off segs i < seg_off segs j"
  using assms(2,3)
proof (induction j)
  case (Suc j)
  have "0 < length (segs ! j)" using assms(1) Suc.prems by (simp add: segs_ok_def list_all_length)
  with Suc seg_off_Suc [of j segs] show ?case by (cases "i = j") auto
qed simp

lemma seg_off_le: "segs_ok segs \<Longrightarrow> i \<le> j \<Longrightarrow> j \<le> length segs \<Longrightarrow> seg_off segs i \<le> seg_off segs j"
  using seg_off_less by (cases "i = j") (auto simp: less_imp_le)

lemma seg_off_all: "seg_off segs (length segs) = length (concat segs)"
  by (simp add: seg_off_def)

lemma unat_soff:
  assumes "segs_ok segs" "i \<le> length segs"
  shows "unat (soff segs i) = seg_off segs i"
proof -
  have "seg_off segs i < 2 ^ 64"
    using seg_off_le [OF assms(1), of i "length segs"] assms seg_off_all [of segs]
    by (simp add: segs_ok_def del: length_concat)
  then show ?thesis by (simp add: soff_def unsigned_of_nat take_bit_nat_eq_self)
qed

lemma soff_less:
  "segs_ok segs \<Longrightarrow> i \<le> length segs \<Longrightarrow> j \<le> length segs \<Longrightarrow> soff segs i < soff segs j \<longleftrightarrow> i < j"
  using seg_off_less [of segs i j] seg_off_le [of segs j i]
  by (simp add: word_less_nat_alt unat_soff) (meson not_less)

lemma soff_inj:
  "segs_ok segs \<Longrightarrow> i \<le> length segs \<Longrightarrow> j \<le> length segs \<Longrightarrow> soff segs i = soff segs j \<longleftrightarrow> i = j"
  using soff_less [of segs i j] soff_less [of segs j i] by (metis less_irrefl linorder_neqE_nat)

lemma soff_le:
  "segs_ok segs \<Longrightarrow> i \<le> length segs \<Longrightarrow> j \<le> length segs \<Longrightarrow> soff segs i \<le> soff segs j \<longleftrightarrow> i \<le> j"
  using soff_less [of segs j i] by (simp add: not_less [symmetric])

lemma soff_Suc:
  assumes "segs_ok segs" "i < length segs"
  shows "soff segs i + ucast (slen segs i) = soff segs (Suc i)"
proof -
  have "length (segs ! i) < 2 ^ 32" using assms by (simp add: segs_ok_def list_all_length)
  then have "unat (slen segs i) = length (segs ! i)"
    by (simp add: slen_def unsigned_of_nat take_bit_nat_eq_self)
  then have "ucast (slen segs i) = (of_nat (length (segs ! i)) :: u64)"
    by (metis of_nat_unat)
  then show ?thesis using assms by (simp add: soff_def seg_off_Suc)
qed

section \<open>The invariant of reassembly\<close>

text \<open>\<open>D\<close> is what the application has read so far, \<open>j\<close> the number of segments delivered.  Every entry of
  the map is a later segment under its own offset.\<close>

definition early_ok :: "bytes list \<Rightarrow> nat \<Rightarrow> (u64, reorder_frame) gomap \<Rightarrow> bool" where
  "early_ok segs j m \<longleftrightarrow> gomap_ok m \<and>
     (\<forall>k f. map_of m k = Some f \<longrightarrow>
        (\<exists>i. j \<le> i \<and> i < length segs \<and> k = soff segs i \<and> rf_payload f = segs ! i \<and> rf_length f = slen segs i))"

definition rx_inv :: "bytes list \<Rightarrow> nat \<Rightarrow> bytes \<Rightarrow> (u64, reorder_frame) gomap \<Rightarrow> cref \<Rightarrow> session \<Rightarrow> bool" where
  "rx_inv segs j D m c s \<longleftrightarrow>
     rx_open c s \<and> j \<le> length segs \<and> ch_readOffset (s_objs s c) = soff segs j \<and>
     D @ bytes_of (items c s) = concat (take j segs) \<and> full_slots (items c s) \<and>
     ch_reorderMap (s_objs s c) = Some m \<and> early_ok segs j m"

text \<open>Segment \<open>i\<close> has arrived.\<close>

definition arrived :: "bytes list \<Rightarrow> nat \<Rightarrow> (u64, reorder_frame) gomap \<Rightarrow> nat \<Rightarrow> bool" where
  "arrived segs j m i \<longleftrightarrow> i < j \<or> map_of m (soff segs i) \<noteq> None"

lemma rx_inv_same:
  "rx_inv segs j D m c s \<Longrightarrow> same_rx c s s' \<Longrightarrow> rx_inv segs j D m c s'"
  using same_rx_open [of c s s'] by (simp add: rx_inv_def rx_defs)

text \<open>Delivering the segment that is due.\<close>

lemma deliver_due:
  assumes "segs_ok segs" "rx_inv segs j D m c s" "j < length segs"
    and "feedPayload (segs ! j) h c s = (e, s1)"
  shows "e = None \<and> s_config s1 = s_config s \<and> ch_reorderMap (s_objs s1 c) = Some m \<and>
    rx_open c s1 \<and> ch_readOffset (s_objs s1 c) = soff segs j \<and>
    D @ bytes_of (items c s1) = concat (take (Suc j) segs) \<and> full_slots (items c s1)"
proof -
  have "segs ! j \<noteq> []" using assms(1,3) by (auto simp: segs_ok_def list_all_length)
  then show ?thesis
    using feedPayload_open [of c s "segs ! j" h] assms take_Suc_concat [OF assms(3)]
    by (auto simp: rx_inv_def append_assoc [symmetric] slot_bytes_def simp del: append_assoc)
qed

lemma early_ok_next:
  assumes "segs_ok segs" "early_ok segs j m" "j < length segs"
  shows "early_ok segs (Suc j) (AList.delete (soff segs j) m)"
  unfolding early_ok_def
proof (intro conjI allI impI)
  show "gomap_ok (AList.delete (soff segs j) m)" using assms(2) by (simp add: early_ok_def)
next
  fix k f
  assume k: "map_of (AList.delete (soff segs j) m) k = Some f"
  then have "map_of m k = Some f" "k \<noteq> soff segs j" by (auto simp: gomap_simps split: if_splits)
  with assms(2) obtain i where "j \<le> i" "i < length segs" "k = soff segs i" "rf_payload f = segs ! i"
    "rf_length f = slen segs i" by (auto simp: early_ok_def)
  moreover from this \<open>k \<noteq> soff segs j\<close> have "i \<noteq> j" by blast
  ultimately show "\<exists>i. Suc j \<le> i \<and> i < length segs \<and> k = soff segs i \<and> rf_payload f = segs ! i \<and> rf_length f = slen segs i"
    by (intro exI [of _ i]) simp
qed

definition set_reorder :: "(u64, reorder_frame) gomap \<Rightarrow> cref \<Rightarrow> session \<Rightarrow> session" where
  "set_reorder m c s = upd_ch c (\<lambda>ch. ch\<lparr>ch_reorderMap := Some m\<rparr>) s"

definition bump_offset :: "u32 \<Rightarrow> cref \<Rightarrow> session \<Rightarrow> session" where
  "bump_offset n c s = upd_ch c (\<lambda>ch. ch\<lparr>ch_readOffset := ch_readOffset ch + ucast n\<rparr>) s"

lemma set_reorder_inv:
  "rx_inv segs j D m c s \<Longrightarrow> early_ok segs j m' \<Longrightarrow> rx_inv segs j D m' c (set_reorder m' c s)"
  by (simp add: rx_inv_def rx_open_def set_reorder_def upd_ch_def)

lemma bump_offset_fields:
  "rx_open c (bump_offset n c s) = rx_open c s" "items c (bump_offset n c s) = items c s"
  "ch_readOffset (s_objs (bump_offset n c s) c) = ch_readOffset (s_objs s c) + ucast n"
  "ch_reorderMap (s_objs (bump_offset n c s) c) = ch_reorderMap (s_objs s c)"
  "s_config (bump_offset n c s) = s_config s"
  by (simp_all add: bump_offset_def upd_ch_def rx_open_def)

text \<open>One segment delivered: from a state in which the due segment is not in the map.\<close>

lemma deliver_step:
  assumes ok: "segs_ok segs" and inv: "rx_inv segs j D m c s" and j: "j < length segs"
    and m: "map_of m (soff segs j) = None" and f: "feedPayload (segs ! j) h c s = (e, s1)"
  shows "e = None \<and> s_config s1 = s_config s \<and> rx_inv segs (Suc j) D m c (bump_offset (slen segs j) c s1)"
proof -
  note d = deliver_due [OF ok inv j f]
  have "early_ok segs j m" using inv by (simp add: rx_inv_def)
  from early_ok_next [OF ok this j] m have "early_ok segs (Suc j) m" by (simp add: delete_absent)
  with d j ok show ?thesis by (simp add: rx_inv_def bump_offset_fields soff_Suc)
qed

lemma arrived_next:
  assumes "arrived segs j m i" "segs_ok segs" "j < length segs" "i < length segs"
  shows "arrived segs (Suc j) (AList.delete (soff segs j) m) i"
  using assms soff_inj [OF assms(2), of i j] by (auto simp: arrived_def gomap_simps)

lemma early_ok_delete: "early_ok segs j m \<Longrightarrow> early_ok segs j (AList.delete k m)"
  by (auto simp: early_ok_def gomap_simps split: if_splits)

lemma reorder_loop_inv:
  assumes "segs_ok segs"
  shows "rx_inv segs j D m c s \<Longrightarrow> length m \<le> k \<Longrightarrow>
    \<exists>j' m'. j \<le> j' \<and> rx_inv segs j' D m' c (reorder_loop k c s) \<and> map_of m' (soff segs j') = None \<and>
      s_config (reorder_loop k c s) = s_config s \<and>
      (\<forall>i < length segs. arrived segs j m i \<longrightarrow> arrived segs j' m' i)"
proof (induction k arbitrary: j m s)
  case 0
  then show ?case by (intro exI [of _ j] exI [of _ m]) simp
next
  case (Suc k)
  have rm: "ch_reorderMap (s_objs s c) = Some m" "ch_readOffset (s_objs s c) = soff segs j" "early_ok segs j m"
    using Suc.prems(1) by (simp_all add: rx_inv_def)
  show ?case
  proof (cases "map_of m (soff segs j)")
    case None
    with rm Suc.prems(1) show ?thesis by (intro exI [of _ j] exI [of _ m]) simp
  next
    case (Some nf)
    with rm(3) obtain i where i: "j \<le> i" "i < length segs" "soff segs j = soff segs i" "rf_payload nf = segs ! i"
      "rf_length nf = slen segs i" by (auto simp: early_ok_def)
    then have ij: "i = j" using soff_inj [OF assms, of j i] by simp
    let ?m = "AList.delete (soff segs j) m"
    let ?s1 = "set_reorder ?m c s"
    have inv1: "rx_inv segs j D ?m c ?s1"
      by (rule set_reorder_inv [OF Suc.prems(1) early_ok_delete [OF rm(3)]])
    obtain e s2 where f: "feedPayload (segs ! j) (rf_head nf) c ?s1 = (e, s2)" by (metis surj_pair)
    have "map_of ?m (soff segs j) = None" by (simp add: gomap_simps)
    from deliver_step [OF assms inv1 _ this f] i(2) ij
    have d: "e = None" "s_config s2 = s_config ?s1" "rx_inv segs (Suc j) D ?m c (bump_offset (slen segs j) c s2)"
      by simp_all
    let ?s3 = "bump_offset (slen segs j) c s2"
    have step: "reorder_loop (Suc k) c s = reorder_loop k c ?s3"
    proof -
      have "upd_ch c (\<lambda>ch. ch\<lparr>ch_reorderMap := Some (AList.delete (ch_readOffset ch) m)\<rparr>) s = ?s1"
        by (simp add: set_reorder_def upd_ch_def rm(2))
      with rm Some i(4,5) ij f d(1) show ?thesis by (simp add: bump_offset_def)
    qed
    have "length ?m \<le> k"
      using length_delete_present [OF _ Some] rm(3) Suc.prems(2) by (simp add: early_ok_def)
    from Suc.IH [OF d(3) this] obtain j' m' where
      "Suc j \<le> j'" "rx_inv segs j' D m' c (reorder_loop k c ?s3)" "map_of m' (soff segs j') = None"
      "s_config (reorder_loop k c ?s3) = s_config ?s3"
      "\<forall>i < length segs. arrived segs (Suc j) ?m i \<longrightarrow> arrived segs j' m' i" by blast
    moreover have "s_config ?s3 = s_config s" using d(2) by (simp add: bump_offset_fields set_reorder_def upd_ch_def)
    ultimately show ?thesis
      using step arrived_next [of segs j m] assms i(2) ij
      by (intro exI [of _ j'] exI [of _ m']) auto
  qed
qed

section \<open>Feeding one frame\<close>

text \<open>What a fed frame guarantees: the invariant, with at least as much delivered, nothing that had
  arrived lost, and the frame itself arrived if it was within the reorder window.\<close>

definition rx_step :: "bytes list \<Rightarrow> nat \<Rightarrow> bytes \<Rightarrow> (u64, reorder_frame) gomap \<Rightarrow> nat \<Rightarrow> cref \<Rightarrow> session \<Rightarrow> session \<Rightarrow> bool" where
  "rx_step segs j D m i c s s' \<longleftrightarrow>
     (\<exists>j' m'. j \<le> j' \<and> rx_inv segs j' D m' c s' \<and> map_of m' (soff segs j') = None \<and> s_config s' = s_config s \<and>
        (\<forall>k < length segs. arrived segs j m k \<longrightarrow> arrived segs j' m' k) \<and>
        (soff segs i - soff segs j \<le> maxReorderBytes s \<or> i < j \<longrightarrow> arrived segs j' m' i))"

lemma same_rx_config: "same_rx c s s' \<Longrightarrow> s_config s' = s_config s"
  by (simp add: rx_defs)

lemma rx_step_same:
  assumes "rx_inv segs j D m c s" "map_of m (soff segs j) = None" "arrived segs j m i \<or> \<not> (soff segs i - soff segs j \<le> maxReorderBytes s \<or> i < j)"
    "same_rx c s s'"
  shows "rx_step segs j D m i c s s'"
  unfolding rx_step_def using assms rx_inv_same [OF assms(1,4)] same_rx_config [OF assms(4)]
  by (intro exI [of _ j] exI [of _ m]) auto

lemma rx_step_in_order:
  assumes ok: "segs_ok segs" and inv: "rx_inv segs j D m c s" and m: "map_of m (soff segs j) = None"
    and j: "j < length segs" and f: "feed_in_order (segs ! j) h (slen segs j) c s = (cl, s')"
  shows "\<not> cl \<and> rx_step segs j D m j c s s'"
proof -
  obtain e s1 where e: "feedPayload (segs ! j) h c s = (e, s1)" by (metis surj_pair)
  note d = deliver_step [OF ok inv j m e]
  let ?s3 = "bump_offset (slen segs j) c s1"
  have rm: "ch_reorderMap (s_objs ?s3 c) = Some m" using d by (simp add: rx_inv_def)
  let ?s4 = "reorder_loop (length m) c ?s3"
  from reorder_loop_inv [OF ok conjunct2 [OF conjunct2 [OF d]] order_refl] obtain j' m' where
    l: "Suc j \<le> j'" "rx_inv segs j' D m' c ?s4" "map_of m' (soff segs j') = None" "s_config ?s4 = s_config ?s3"
      "\<forall>i < length segs. arrived segs (Suc j) m i \<longrightarrow> arrived segs j' m' i" by blast
  have nofin: "\<not> ch_hasFin (s_objs ?s4 c)" using l(2) by (simp add: rx_inv_def rx_open_def)
  have s': "s' = ack_now False (slen segs j) c ?s4" "\<not> cl"
    using f e d rm nofin by (simp_all add: feed_in_order_def bump_offset_def [symmetric])
  have same: "same_rx c ?s4 s'" unfolding s'(1) by (rule same_rx_ack_now)
  have "s_config s' = s_config s"
    using same_rx_config [OF same] l(4) d by (simp add: bump_offset_fields)
  moreover have "arrived segs j m k \<Longrightarrow> arrived segs (Suc j) m k" for k by (auto simp: arrived_def)
  moreover have "arrived segs j' m' j" using l(1) by (simp add: arrived_def)
  ultimately show ?thesis
    using l rx_inv_same [OF l(2) same] s'(2)
    unfolding rx_step_def by (intro conjI exI [of _ j'] exI [of _ m']) auto
qed

lemma early_ok_update:
  assumes "early_ok segs j m" "j \<le> i" "i < length segs" "rf_payload f = segs ! i" "rf_length f = slen segs i"
  shows "early_ok segs j (AList.update (soff segs i) f m)"
  using assms by (auto simp: early_ok_def gomap_simps)

lemma rx_step_early:
  assumes ok: "segs_ok segs" and inv: "rx_inv segs j D m c s" and m: "map_of m (soff segs j) = None"
    and i: "j < i" "i < length segs"
  shows "rx_step segs j D m i c s (feed_early (soff segs i) (segs ! i) h (slen segs i) m c s)"
proof -
  have ro: "ch_readOffset (s_objs s c) = soff segs j" using inv by (simp add: rx_inv_def)
  consider (far) "soff segs i - soff segs j > maxReorderBytes s"
    | (new) "\<not> soff segs i - soff segs j > maxReorderBytes s" "map_of m (soff segs i) = None"
    | (dup) "\<not> soff segs i - soff segs j > maxReorderBytes s" "map_of m (soff segs i) \<noteq> None" by blast
  then show ?thesis
  proof cases
    case far
    have "same_rx c s (feed_early (soff segs i) (segs ! i) h (slen segs i) m c s)"
      using far ro same_rx_trans [OF same_rx_put_buf same_rx_sendAck] by (simp add: feed_early_def Let_def)
    with far i show ?thesis by (intro rx_step_same [OF inv m]) auto
  next
    case dup
    have "same_rx c s (feed_early (soff segs i) (segs ! i) h (slen segs i) m c s)"
      using dup ro same_rx_trans [OF same_rx_put_buf same_rx_sendAck] by (auto simp: feed_early_def Let_def)
    with dup show ?thesis by (intro rx_step_same [OF inv m]) (auto simp: arrived_def)
  next
    case new
    let ?f = "\<lparr>rf_payload = segs ! i, rf_head = h, rf_offset = soff segs i, rf_length = slen segs i\<rparr>"
    let ?m = "AList.update (soff segs i) ?f m"
    let ?s1 = "set_reorder ?m c s"
    have "early_ok segs j m" using inv by (simp add: rx_inv_def)
    then have inv1: "rx_inv segs j D ?m c ?s1"
      using i by (intro set_reorder_inv [OF inv] early_ok_update) simp_all
    have "feed_early (soff segs i) (segs ! i) h (slen segs i) m c s = sendAck (cumulativeAckLocked c ?s1) c ?s1"
      using new ro by (simp add: feed_early_def set_reorder_def Let_def)
    moreover have same: "same_rx c ?s1 (sendAck (cumulativeAckLocked c ?s1) c ?s1)" by (rule same_rx_sendAck)
    moreover have "map_of ?m (soff segs j) = None" using m soff_inj [OF ok, of i j] i by (simp add: gomap_simps)
    moreover have "arrived segs j m k \<Longrightarrow> arrived segs j ?m k" for k by (auto simp: arrived_def gomap_simps)
    moreover have "arrived segs j ?m i" by (simp add: arrived_def gomap_simps)
    moreover have "s_config ?s1 = s_config s" by (simp add: set_reorder_def upd_ch_def)
    ultimately show ?thesis
      using rx_inv_same [OF inv1 same] same_rx_config [OF same]
      unfolding rx_step_def by (intro exI [of _ j] exI [of _ ?m]) auto
  qed
qed

lemma feed_step:
  assumes ok: "segs_ok segs" and inv: "rx_inv segs j D m c s" and m: "map_of m (soff segs j) = None"
    and i: "i < length segs"
  shows "rx_step segs j D m i c s (feedReliablePayload (soff segs i) (segs ! i) h (slen segs i) c s)"
proof -
  have st: "ch_readOffset (s_objs s c) = soff segs j" "ch_reorderMap (s_objs s c) = Some m" "j \<le> length segs"
    using inv by (simp_all add: rx_inv_def)
  have e: "soff segs i + ucast (slen segs i) = soff segs (Suc i)" by (rule soff_Suc [OF ok i])
  have le: "soff segs (Suc i) \<le> soff segs j \<longleftrightarrow> i < j" using soff_le [OF ok, of "Suc i" j] i st(3) by (simp add: Suc_le_eq)
  consider "i < j" | "i = j" | "j < i" by linarith
  then show ?thesis
  proof cases
    case 1
    then have "same_rx c s (feedReliablePayload (soff segs i) (segs ! i) h (slen segs i) c s)"
      using st e le same_rx_trans [OF same_rx_put_buf same_rx_sendAck] by (simp add: feedReliablePayload_def Let_def)
    with 1 show ?thesis by (intro rx_step_same [OF inv m]) (auto simp: arrived_def)
  next
    case 2
    obtain cl s' where f: "feed_in_order (segs ! j) h (slen segs j) c s = (cl, s')" by (metis surj_pair)
    from rx_step_in_order [OF ok inv m _ f] 2 i st e le f show ?thesis
      by (simp add: feedReliablePayload_def Let_def)
  next
    case 3
    then have "soff segs i > soff segs j" "soff segs i \<noteq> soff segs j"
      using soff_less [OF ok, of j i] i st(3) by auto
    with rx_step_early [OF ok inv m 3 i] st e le 3 show ?thesis
      by (simp add: feedReliablePayload_def Let_def)
  qed
qed

section \<open>Reading\<close>

lemma ring_partial_inv:
  assumes "rx_inv segs j D m c s" "ring_partial k c s = (d, s')"
  shows "rx_inv segs j (D @ d) m c s' \<and> s_config s' = s_config s"
proof -
  have live: "ring_live (ch_ring (s_objs s c))" using assms(1) by (simp add: rx_inv_def rx_open_def)
  obtain d0 bk xs where r: "read_items k (items c s) = (d0, bk, xs)" by (metis prod_cases3)
  then obtain q where q: "PartialRead k (ch_ring (s_objs s c)) = Ret (d0, bk, q)" "ring_live q" "ring_items q = xs"
    using rb.rd_law [OF live, of k] by auto
  have "d0 @ bytes_of xs = bytes_of (items c s)" using read_items_conserves [OF r] by blast
  moreover have "full_slots xs" using read_items_full(1) [of "items c s" k] assms(1) r by (simp add: rx_inv_def)
  ultimately show ?thesis using assms q
    by (auto simp: ring_partial_def rx_inv_def rx_open_def upd_ch_def)
qed

lemma read_fill_inv:
  "rx_inv segs j D m c s \<Longrightarrow> read_fill k c s = (d, s') \<Longrightarrow>
   rx_inv segs j (D @ d) m c s' \<and> s_config s' = s_config s"
proof (induction k c s arbitrary: D d s' rule: read_fill.induct)
  case (1 k c s)
  show ?case
  proof (cases "k = 0")
    case True
    with 1 show ?thesis by (simp add: read_fill.simps)
  next
    case False
    obtain d1 s1 where r: "ring_partial k c s = (d1, s1)" by (metis surj_pair)
    note i1 = ring_partial_inv [OF "1.prems"(1) r]
    show ?thesis
    proof (cases "d1 = []")
      case True
      with 1 False r i1 show ?thesis by (simp add: read_fill.simps [of k])
    next
      case ne: False
      obtain e s2 where e: "read_fill (k - length d1) c s1 = (e, s2)" by (metis surj_pair)
      from "1.IH" [OF False r [symmetric] ne conjunct1 [OF i1] e] i1 "1.prems"(2) False r ne e
      show ?thesis by (simp add: read_fill.simps [of k])
    qed
  qed
qed

fun round_bytes :: "read_end \<Rightarrow> bytes" where
  "round_bytes (RR_Data d) = d"
| "round_bytes _ = []"

lemma rx_flags:
  "rx_inv segs j D m c s \<Longrightarrow> (\<And>ch. rx_view (f ch) = rx_view ch) \<Longrightarrow>
   rx_inv segs j D m c (upd_ch c f s) \<and> s_config (upd_ch c f s) = s_config s"
  using rx_inv_same [OF _ same_rx_upd] by (auto simp: upd_ch_def)

lemma rx_inv_open:
  "rx_inv segs j D m c s \<Longrightarrow> \<not> readAborted c s \<and> \<not> ch_readDone (s_objs s c) \<and> \<not> ch_closeChan (s_objs s c)"
  by (simp add: rx_inv_def rx_open_def readAborted_def)

lemma rx_inv_OnRead:
  "rx_inv segs j D m c s \<Longrightarrow> rx_inv segs j D m c (sf_OnRead c n s) \<and> s_config (sf_OnRead c n s) = s_config s"
  using rx_inv_same [OF _ same_rx_OnRead] same_rx_config [OF same_rx_OnRead] by blast

lemma read_round_inv:
  assumes inv: "rx_inv segs j D m c s" and r: "read_round k sd c s = (x, s')"
  shows "rx_inv segs j (D @ round_bytes x) m c s' \<and> s_config s' = s_config s"
proof -
  obtain d s1 where f: "read_fill k c s = (d, s1)" by (metis surj_pair)
  note i1 = read_fill_inv [OF inv f]
  show ?thesis
  proof (cases "d = []")
    case False
    with r f rx_inv_OnRead [OF conjunct1 [OF i1]] i1 show ?thesis by (auto simp: read_round_def)
  next
    case True
    let ?w = "upd_ch c (\<lambda>ch. ch\<lparr>ch_waiting := True\<rparr>) s1"
    have iw: "rx_inv segs j D m c ?w \<and> s_config ?w = s_config s1"
      using i1 True by (intro rx_flags) (simp_all add: rx_view_def)
    obtain d1 s2 where p: "ring_partial k c ?w = (d1, s2)" by (metis surj_pair)
    note i2 = ring_partial_inv [OF conjunct1 [OF iw] p]
    have cl: "rx_inv segs j (D @ d1) m c (upd_ch c (\<lambda>ch. ch\<lparr>ch_waiting := False, ch_notify := False\<rparr>) s2) \<and>
        s_config (upd_ch c (\<lambda>ch. ch\<lparr>ch_waiting := False, ch_notify := False\<rparr>) s2) = s_config s2"
      "rx_inv segs j (D @ d1) m c (upd_ch c (\<lambda>ch. ch\<lparr>ch_notify := False, ch_waiting := False\<rparr>) s2) \<and>
        s_config (upd_ch c (\<lambda>ch. ch\<lparr>ch_notify := False, ch_waiting := False\<rparr>) s2) = s_config s2"
      using rx_flags [OF conjunct1 [OF i2], of "\<lambda>ch. ch\<lparr>ch_waiting := False, ch_notify := False\<rparr>"]
        rx_flags [OF conjunct1 [OF i2], of "\<lambda>ch. ch\<lparr>ch_notify := False, ch_waiting := False\<rparr>"]
      by (simp_all add: rx_view_def)
    obtain d2 s3 where g: "read_fill (k - length d1) c (upd_ch c (\<lambda>ch. ch\<lparr>ch_waiting := False, ch_notify := False\<rparr>) s2) = (d2, s3)"
      by (metis surj_pair)
    note i3 = read_fill_inv [OF conjunct1 [OF cl(1)] g]
    have o1: "\<not> readAborted c s1 \<and> \<not> ch_readDone (s_objs s1 c)" using rx_inv_open [of segs j "D @ d" m c s1] i1 by blast
    have o2: "\<not> readAborted c s2 \<and> \<not> ch_readDone (s_objs s2 c) \<and> \<not> ch_closeChan (s_objs s2 c)"
      using rx_inv_open [of segs j "D @ d1" m c s2] i2 by blast
    show ?thesis
      using r f True i1 iw p i2 cl g i3 o1 o2 rx_inv_OnRead [OF conjunct1 [OF i3], of "int (length (d1 @ d2))"]
      by (auto simp: read_round_def split: if_splits)
  qed
qed

lemma read_loop_inv:
  "rx_inv segs j D m c s \<Longrightarrow> read_loop fuel k sd c s = (x, s') \<Longrightarrow>
   rx_inv segs j (D @ round_bytes x) m c s' \<and> s_config s' = s_config s"
proof (induction fuel arbitrary: sd s)
  case (Suc fuel)
  obtain y s1 where y: "read_round k sd c s = (y, s1)" by (metis surj_pair)
  note i1 = read_round_inv [OF Suc.prems(1) y]
  show ?case
  proof (cases y)
    case (RR_Again b)
    then have "rx_inv segs j D m c s1" "read_loop fuel k b c s1 = (x, s')" using i1 Suc.prems(2) y by simp_all
    from Suc.IH [OF this] i1 show ?thesis by simp
  qed (use i1 Suc.prems(2) y in auto)
qed auto

section \<open>Any schedule of frames and reads\<close>

text \<open>A reader either calls \<^verbatim>\<open>Read\<close> or, if it is waiting inside, goes on.\<close>

definition reader_step :: "nat \<Rightarrow> cref \<Rightarrow> session \<Rightarrow> bytes \<times> session" where
  "reader_step k c s =
     (if ch_readMu (s_objs s c) then (case Read_resume k c s of (x, s1) \<Rightarrow> (round_bytes x, s1))
      else case channel_Read k c s of None \<Rightarrow> ([], s) | Some (x, s1) \<Rightarrow> (round_bytes x, s1))"

datatype rx_op = RxFeed nat bref | RxRead nat

fun rx_run :: "bytes list \<Rightarrow> rx_op list \<Rightarrow> cref \<Rightarrow> session \<Rightarrow> bytes \<times> session" where
  "rx_run segs [] c s = ([], s)"
| "rx_run segs (RxFeed i h # ops) c s =
     rx_run segs ops c (feedReliablePayload (soff segs i) (segs ! i) (Some h) (slen segs i) c s)"
| "rx_run segs (RxRead k # ops) c s =
     (case reader_step k c s of (d, s1) \<Rightarrow> case rx_run segs ops c s1 of (out, s2) \<Rightarrow> (d @ out, s2))"

lemma unlock_read_inv:
  assumes "rx_inv segs j D m c s" "unlock_read c (x, s) = (y, s')"
  shows "y = x \<and> rx_inv segs j D m c s' \<and> s_config s' = s_config s"
proof -
  let ?u = "upd_ch c (\<lambda>ch. ch\<lparr>ch_readMu := False\<rparr>) s"
  have u: "rx_inv segs j D m c ?u \<and> s_config ?u = s_config s"
    by (rule rx_flags [OF assms(1)]) (simp add: rx_view_def)
  with rx_inv_open [OF conjunct1 [OF u]] assms show ?thesis
    by (cases x) (auto simp: unlock_read_def Let_def)
qed

lemma reader_step_inv:
  assumes inv: "rx_inv segs j D m c s" and r: "reader_step k c s = (d, s')"
  shows "rx_inv segs j (D @ d) m c s' \<and> s_config s' = s_config s"
proof -
  note o = rx_inv_open [OF inv]
  have go: "rx_inv segs j (D @ round_bytes y) m c s2 \<and> s_config s2 = s_config s"
    if "unlock_read c (read_loop 4 k False c (upd_ch c f s)) = (y, s2)" "\<And>ch. rx_view (f ch) = rx_view ch" for f y s2
  proof -
    have i0: "rx_inv segs j D m c (upd_ch c f s) \<and> s_config (upd_ch c f s) = s_config s"
      by (rule rx_flags [OF inv that(2)])
    obtain x s1 where x: "read_loop 4 k False c (upd_ch c f s) = (x, s1)" by (metis surj_pair)
    note i1 = read_loop_inv [OF conjunct1 [OF i0] x]
    from unlock_read_inv [OF conjunct1 [OF i1], of x y s2] that(1) x i0 i1 show ?thesis by auto
  qed
  show ?thesis
  proof (cases "ch_readMu (s_objs s c)")
    case True
    obtain y s2 where y: "Read_resume k c s = (y, s2)" by (metis surj_pair)
    have "rx_inv segs j (D @ round_bytes y) m c s2 \<and> s_config s2 = s_config s"
      using y o inv go [of "\<lambda>ch. ch\<lparr>ch_notify := False, ch_waiting := False\<rparr>" y s2]
      by (auto simp: Read_resume_def rx_view_def split: if_splits)
    with r True y show ?thesis by (auto simp: reader_step_def)
  next
    case False
    show ?thesis
    proof (cases "k = 0")
      case True
      with r False inv show ?thesis by (auto simp: reader_step_def channel_Read_def)
    next
      case k: False
      obtain y s2 where y: "unlock_read c (read_loop 4 k False c (upd_ch c (\<lambda>ch. ch\<lparr>ch_readMu := True\<rparr>) s)) = (y, s2)"
        by (metis surj_pair)
      from go [OF y] r False k y o show ?thesis by (auto simp: reader_step_def channel_Read_def rx_view_def)
    qed
  qed
qed

text \<open>The segments fed so far have arrived, if the whole stream fits into the reorder window.\<close>

lemma soff_window:
  assumes "segs_ok segs" "j \<le> i" "i \<le> length segs" "length (concat segs) \<le> unat w"
  shows "soff segs i - soff segs j \<le> w"
proof -
  have "soff segs j \<le> soff segs i" using soff_le [OF assms(1)] assms(2,3) by simp
  then have "unat (soff segs i - soff segs j) = seg_off segs i - seg_off segs j"
    using assms by (simp add: unat_sub unat_soff)
  also have "\<dots> \<le> length (concat segs)"
    using seg_off_le [OF assms(1,3)] seg_off_all [of segs] by (metis diff_le_self le_trans order_refl)
  finally show ?thesis using assms(4) by (simp add: word_le_nat_alt)
qed

lemma rx_run_inv:
  assumes ok: "segs_ok segs"
  shows "rx_inv segs j D m c s \<Longrightarrow> map_of m (soff segs j) = None \<Longrightarrow>
    list_all (\<lambda>op. case op of RxFeed i h \<Rightarrow> i < length segs | RxRead k \<Rightarrow> True) ops \<Longrightarrow>
    rx_run segs ops c s = (out, s') \<Longrightarrow>
    \<exists>j' m'. rx_inv segs j' (D @ out) m' c s' \<and> map_of m' (soff segs j') = None \<and> s_config s' = s_config s \<and>
      (\<forall>i < length segs. arrived segs j m i \<or>
         length (concat segs) \<le> unat (maxReorderBytes s) \<and> (\<exists>h. RxFeed i h \<in> set ops) \<longrightarrow> arrived segs j' m' i)"
proof (induction ops arbitrary: j D m s out)
  case Nil
  then show ?case by auto
next
  case (Cons op ops)
  show ?case
  proof (cases op)
    case (RxFeed i h)
    let ?s1 = "feedReliablePayload (soff segs i) (segs ! i) (Some h) (slen segs i) c s"
    have i: "i < length segs" using Cons.prems(3) RxFeed by simp
    from feed_step [OF ok Cons.prems(1,2) i, of "Some h"] obtain j1 m1 where
      1: "rx_inv segs j1 D m1 c ?s1" "map_of m1 (soff segs j1) = None" "s_config ?s1 = s_config s"
        "\<forall>k < length segs. arrived segs j m k \<longrightarrow> arrived segs j1 m1 k"
        "soff segs i - soff segs j \<le> maxReorderBytes s \<or> i < j \<longrightarrow> arrived segs j1 m1 i"
      by (auto simp: rx_step_def)
    have near: "length (concat segs) \<le> unat (maxReorderBytes s) \<Longrightarrow> arrived segs j1 m1 i"
      using 1(5) soff_window [OF ok, of j i "maxReorderBytes s"] i by (cases "i < j") auto
    have w: "maxReorderBytes ?s1 = maxReorderBytes s" using 1(3) by (simp add: maxReorderBytes_def)
    have "rx_run segs ops c ?s1 = (out, s')"
      "list_all (\<lambda>op. case op of RxFeed i h \<Rightarrow> i < length segs | RxRead k \<Rightarrow> True) ops"
      using Cons.prems(3,4) RxFeed by simp_all
    from Cons.IH [OF 1(1,2) this(2,1)] obtain j' m' where
      2: "rx_inv segs j' (D @ out) m' c s'" "map_of m' (soff segs j') = None" "s_config s' = s_config ?s1"
        "\<And>k. k < length segs \<Longrightarrow> arrived segs j1 m1 k \<or>
           length (concat segs) \<le> unat (maxReorderBytes s) \<and> (\<exists>h. RxFeed k h \<in> set ops) \<Longrightarrow> arrived segs j' m' k"
      unfolding w by blast
    have "arrived segs j' m' k" if k: "k < length segs" and a: "arrived segs j m k \<or>
        length (concat segs) \<le> unat (maxReorderBytes s) \<and> (\<exists>h. RxFeed k h \<in> set (op # ops))" for k
    proof -
      have "arrived segs j1 m1 k \<or> length (concat segs) \<le> unat (maxReorderBytes s) \<and> (\<exists>h. RxFeed k h \<in> set ops)"
        using a 1(4) k near RxFeed by (cases "k = i") auto
      then show ?thesis by (rule 2(4) [OF k])
    qed
    with 2(1,2,3) 1(3) show ?thesis by (intro exI [of _ j'] exI [of _ m']) simp
  next
    case (RxRead k)
    obtain d s1 where r: "reader_step k c s = (d, s1)" by (metis surj_pair)
    note i1 = reader_step_inv [OF Cons.prems(1) r]
    obtain out2 where o2: "rx_run segs ops c s1 = (out2, s')" "out = d @ out2"
      using Cons.prems(4) RxRead r by (auto split: prod.splits)
    have "maxReorderBytes s1 = maxReorderBytes s" using i1 by (simp add: maxReorderBytes_def)
    with Cons.IH [OF conjunct1 [OF i1] Cons.prems(2) _ o2(1)] Cons.prems(3) RxRead o2(2) i1 show ?thesis
      by simp
  qed
qed

lemma fresh_rx:
  assumes "newChannel cid s0 = (c, s)" "\<not> s_closed s0" "\<not> s_panic s0"
  shows "rx_inv segs 0 [] [] c s"
  using assms NewBufferRing_ok(2) [of 8]
  by (auto simp: newChannel_def new_channel_def rx_inv_def rx_open_def Let_def soff_def seg_off_def early_ok_def)

lemma all_arrived:
  assumes "rx_inv segs j D m c s" "map_of m (soff segs j) = None" "\<forall>i < length segs. arrived segs j m i"
  shows "j = length segs"
proof (rule ccontr)
  assume "j \<noteq> length segs"
  then have "j < length segs" using assms(1) by (simp add: rx_inv_def)
  with assms(2,3) show False by (auto simp: arrived_def)
qed

text \<open>C3: Reliable delivery.  A stream cut into segments of at most \<open>2 ^ 32 - 1\<close> bytes is fed to a new
  channel in any order, with any repetitions and losses, and read at any moments: what the
  application has read followed by what waits in the ring is always a prefix of the stream cut at a
  segment, and nothing panics.  Once every segment has been fed at least once and the stream fits
  into the reorder window, the prefix is the whole stream.\<close>

theorem reliable_delivery:
  assumes "newChannel cid s0 = (c, s)" "\<not> s_closed s0" "\<not> s_panic s0" "segs_ok segs"
    and "list_all (\<lambda>op. case op of RxFeed i h \<Rightarrow> i < length segs | RxRead k \<Rightarrow> True) ops"
    and "rx_run segs ops c s = (out, s')"
  shows "\<exists>j \<le> length segs. out @ bytes_of (items c s') = concat (take j segs) \<and> \<not> s_panic s' \<and>
    (length (concat segs) \<le> unat (maxReorderBytes s) \<and> (\<forall>i < length segs. \<exists>h. RxFeed i h \<in> set ops) \<longrightarrow>
       j = length segs)"
proof -
  from rx_run_inv [OF assms(4) fresh_rx [OF assms(1-3)] _ assms(5,6)] obtain j m where
    j: "rx_inv segs j out m c s'" "map_of m (soff segs j) = None"
      "\<forall>i < length segs. arrived segs 0 [] i \<or> length (concat segs) \<le> unat (maxReorderBytes s) \<and>
         (\<exists>h. RxFeed i h \<in> set ops) \<longrightarrow> arrived segs j m i" by auto
  have "j = length segs" if "length (concat segs) \<le> unat (maxReorderBytes s)" "\<forall>i < length segs. \<exists>h. RxFeed i h \<in> set ops"
    by (rule all_arrived [OF j(1,2)]) (use j(3) that in blast)
  with j(1) show ?thesis by (intro exI [of _ j]) (auto simp: rx_inv_def rx_open_def)
qed

theorem reliable_delivery_witness:
  "\<exists>out s'. rx_run [[1, 2], [3], [4, 5, 6]]
      [RxFeed 2 7, RxRead 4, RxFeed 0 8, RxFeed 0 9, RxFeed 1 10, RxRead 10]
      (fst (newChannel 5 sample_session)) (snd (newChannel 5 sample_session)) = (out, s') \<and>
    out @ bytes_of (items (fst (newChannel 5 sample_session)) s') = [1, 2, 3, 4, 5, 6]"
proof -
  let ?segs = "[[1, 2], [3], [4, 5, 6]] :: bytes list"
  let ?ops = "[RxFeed 2 7, RxRead 4, RxFeed 0 8, RxFeed 0 9, RxFeed 1 10, RxRead 10]"
  obtain c s where n: "newChannel 5 sample_session = (c, s)" by (metis surj_pair)
  obtain out s' where r: "rx_run ?segs ?ops c s = (out, s')" by (metis surj_pair)
  have cfg: "s_config s = session_config None"
    using n sample_config by (auto simp: newChannel_def Let_def)
  have w: "length (concat ?segs) \<le> unat (maxReorderBytes s)"
    by (simp add: maxReorderBytes_def cfg session_config_None DefaultConfig_def default_defs)
  have pre: "\<not> s_closed sample_session" "\<not> s_panic sample_session" "segs_ok ?segs"
    using sample_credits(9)
    by (simp_all add: segs_ok_def) (simp add: sample_session_def NewSessionWithID_def Let_def)
  have fed: "\<forall>i < length ?segs. \<exists>h. RxFeed i h \<in> set ?ops" by (auto simp: less_Suc_eq)
  have lim: "list_all (\<lambda>op. case op of RxFeed i h \<Rightarrow> i < length ?segs | RxRead k \<Rightarrow> True) ?ops" by simp
  from reliable_delivery [OF n pre lim r] obtain j where
    j: "out @ bytes_of (items c s') = concat (take j ?segs)"
      "length (concat ?segs) \<le> unat (maxReorderBytes s) \<and> (\<forall>i < length ?segs. \<exists>h. RxFeed i h \<in> set ?ops) \<longrightarrow> j = length ?segs"
    by blast
  from j(2) w fed have "j = length ?segs" by blast
  with j(1) n r show ?thesis by simp
qed

end
