(* ===== verification/Sender.thy ===== *)
theory Sender
  imports Delivery
begin

text \<open>
  The sending half of a channel (\<^verbatim>\<open>Write\<close>, \<^verbatim>\<open>queueDataLocked\<close>, \<^verbatim>\<open>onAck\<close> of \<^verbatim>\<open>src/channel.go\<close>): what
  \<^verbatim>\<open>Write\<close> puts into the data queue, and how acknowledgements take frames off the list of
  unacknowledged ones.  With Delivery this gives the end-to-end property at the end.
\<close>

section \<open>What the steps of a write leave alone\<close>

definition tx_view :: "cref \<Rightarrow> session \<Rightarrow> write_frame list \<times> nat \<times> u64 \<times> u32 \<times> config \<times> bool" where
  "tx_view c s = (ws_writes (s_writer s), ws_writesCap (s_writer s), ch_writeOffset (s_objs s c),
     ch_id (s_objs s c), s_config s, s_panic s)"

lemma tx_no_token [simp]: "tx_view c (no_token c s) = tx_view c s"
  by (simp add: tx_view_def no_token_def upd_flow_def upd_ch_def)

lemma tx_spent [simp]: "tx_view c (spent c t s) = tx_view c s"
  by (simp add: tx_view_def spent_def upd_flow_def upd_ch_def upd_sn_def)

lemma tx_acquire: "tx_view c (snd (AcquireCredits c d s)) = tx_view c s"
  by (simp add: AcquireCredits_rounds)

lemma tx_get_buf: "tx_view c (snd (get_buf n s)) = tx_view c s"
  by (simp add: tx_view_def get_buf_def)

lemma tx_add_unacked: "tx_view c (add_unacked c u s) = tx_view c s"
  by (simp add: tx_view_def add_unacked_def arqAdd_def upd_ch_def Let_def)

lemma unat_pos: "0 \<le> sint w \<Longrightarrow> unat w = nat (sint w)" for w :: i32
  using uint_eq_sint [of w] by (simp add: unat_eq_nat_uint)

section \<open>The frames of a write\<close>

text \<open>A run of DATA frames for channel \<open>k\<close> with consecutive offsets from \<open>off\<close> on.\<close>

fun data_run :: "u32 \<Rightarrow> nat \<Rightarrow> u64 \<Rightarrow> write_frame list \<Rightarrow> bool" where
  "data_run k mx off [] = True"
| "data_run k mx off (f # fs) =
     (wf_flag f = FLG_DATA \<and> wf_chID f = k \<and> wf_offset f = off \<and>
      wf_length f = of_nat (length (payload f)) \<and> 0 < length (payload f) \<and> length (payload f) \<le> mx \<and>
      data_run k mx (off + of_nat (length (payload f))) fs)"

definition run_bytes :: "write_frame list \<Rightarrow> bytes" where
  "run_bytes fs = concat (map payload fs)"

lemma run_bytes_simps [simp]:
  "run_bytes [] = []" "run_bytes (f # fs) = payload f @ run_bytes fs"
  by (simp_all add: run_bytes_def)

text \<open>The frame built for a chunk, and the state around it.\<close>

lemma data_frame_facts:
  assumes "data_frame (a, d) sz c s = (f, s1)" "length d = nat (sint sz)" "0 < sint sz"
  shows "wf_flag f = FLG_DATA" "wf_chID f = ch_id (s_objs s c)" "wf_offset f = ch_writeOffset (s_objs s c)"
    "payload f = d" "wf_length f = of_nat (length d)"
    "ws_writes (s_writer s1) = ws_writes (s_writer s)" "ch_writeOffset (s_objs s1 c) = ch_writeOffset (s_objs s c) + of_nat (length d)"
    "ch_id (s_objs s1 c) = ch_id (s_objs s c)" "s_config s1 = s_config s" "s_panic s1 = s_panic s"
proof -
  have u: "unat sz = length d" using assms(2,3) unat_pos [of sz] by simp
  then have l: "sz = of_nat (length d)" by (metis of_nat_unat ucast_id)
  have sc: "scast sz = (of_nat (length d) :: u64)"
  proof -
    have "sint sz = int (length d)" using assms(2,3) by simp
    then show ?thesis by (simp add: scast_eq)
  qed
  define s0 where "s0 = upd_ch c (\<lambda>ch. ch\<lparr>ch_writeOffset := ch_writeOffset ch + scast sz\<rparr>) s"
  obtain u' s2 where n: "newUnackedFrame (Some (a, d)) (ch_writeOffset (s_objs s c)) sz False 2 s0 = (u', s2)"
    by (metis surj_pair)
  have s2: "tx_view c s2 = tx_view c s0" using n by (auto simp: newUnackedFrame_def tx_view_def Let_def)
  have view: "tx_view c s1 = tx_view c s0"
    using assms(1) n s2 tx_add_unacked [of c u' s2]
    by (auto simp: data_frame_def Let_def s0_def [symmetric] split: if_splits)
  then show "ws_writes (s_writer s1) = ws_writes (s_writer s)"
    "ch_writeOffset (s_objs s1 c) = ch_writeOffset (s_objs s c) + of_nat (length d)"
    "ch_id (s_objs s1 c) = ch_id (s_objs s c)" "s_config s1 = s_config s" "s_panic s1 = s_panic s"
    by (simp_all add: tx_view_def s0_def upd_ch_def sc)
  have fr: "wf_flag f = FLG_DATA \<and> wf_chID f = ch_id (s_objs s c) \<and> wf_offset f = ch_writeOffset (s_objs s c) \<and>
      wf_pBuf f = Some (a, d) \<and> wf_length f = sz"
    using assms(1) n by (auto simp: data_frame_def Let_def s0_def [symmetric] split: if_splits)
  then show "wf_flag f = FLG_DATA" "wf_chID f = ch_id (s_objs s c)" "wf_offset f = ch_writeOffset (s_objs s c)"
    "wf_length f = of_nat (length d)" using l by simp_all
  have "0 < sz" using u assms(2,3) by (simp add: word_less_nat_alt)
  with fr u show "payload f = d" by (simp add: payload_def)
qed

lemma tx_view_release [simp]: "tx_view c (release u s) = tx_view c s"
  by (simp add: tx_view_def)

lemma tx_view_put_buf [simp]: "tx_view c (put_buf h s) = tx_view c s"
  by (simp add: tx_view_def)

lemma tx_view_wake [simp]: "tx_view c (wakeWaitingChannels s) = tx_view c s" "tx_view c (WakeWriter d s) = tx_view c s"
  by (simp_all add: tx_view_def wakeWaitingChannels_objs WakeWriter_objs)

lemma tx_view_upd_flow [simp]: "tx_view c (upd_flow d g s) = tx_view c s" "tx_view c (upd_sn h s) = tx_view c s"
  by (simp_all add: tx_view_def upd_flow_def upd_ch_def upd_sn_def)

lemma tx_view_Refund [simp]: "tx_view c (sf_Refund d n s) = tx_view c s"
  by (simp add: sf_Refund_def sn_Refund_def Let_def)

lemma send_data_facts:
  assumes "send_data f sz c s = (r, s')"
  shows "r = SendOK \<Longrightarrow> s' = push_writes f s" "r \<noteq> SendOK \<Longrightarrow> tx_view c s' = tx_view c s"
    "r = SendBlock \<Longrightarrow> s' = s"
  using assms by (auto simp: send_data_def writeDataFrame_def Let_def split: if_splits option.splits)

text \<open>What one frame of a write does to the sender.\<close>

definition frame_of :: "write_frame \<Rightarrow> bytes \<Rightarrow> cref \<Rightarrow> session \<Rightarrow> bool" where
  "frame_of f d c s \<longleftrightarrow>
     wf_flag f = FLG_DATA \<and> wf_chID f = ch_id (s_objs s c) \<and> wf_offset f = ch_writeOffset (s_objs s c) \<and>
     payload f = d \<and> wf_length f = of_nat (length d)"

lemma queueData_facts:
  assumes "queueDataLocked (a, d) sz c s = (r, f, s')" "length d = nat (sint sz)" "0 < sint sz"
  shows "frame_of f d c s" "ch_id (s_objs s' c) = ch_id (s_objs s c)" "s_config s' = s_config s"
    "s_panic s' = s_panic s" "ch_writeOffset (s_objs s' c) = ch_writeOffset (s_objs s c) + of_nat (length d)"
    "ws_writes (s_writer s') = ws_writes (s_writer s) @ (if r = SendOK then [f] else [])"
proof -
  obtain s1 where 1: "data_frame (a, d) sz c s = (f, s1)" "send_data f sz c s1 = (r, s')"
    using assms(1) by (auto simp: queueDataLocked_def split: prod.splits)
  note fr = data_frame_facts [OF 1(1) assms(2,3)]
  show "frame_of f d c s" by (simp add: frame_of_def fr)
  have "tx_view c s' = tx_view c (if r = SendOK then push_writes f s1 else s1)"
    using send_data_facts [OF 1(2)] by simp
  with fr show "ch_id (s_objs s' c) = ch_id (s_objs s c)" "s_config s' = s_config s"
    "s_panic s' = s_panic s" "ch_writeOffset (s_objs s' c) = ch_writeOffset (s_objs s c) + of_nat (length d)"
    "ws_writes (s_writer s') = ws_writes (s_writer s) @ (if r = SendOK then [f] else [])"
    by (simp_all add: tx_view_def push_writes_def upd_ws_def split: if_splits)
qed

section \<open>Write\<close>

definition sane_frame_size :: "session \<Rightarrow> bool" where
  "sane_frame_size s \<longleftrightarrow>
     0 < MaxFrameDataSize (s_config s) \<and> unat (MaxFrameDataSize (s_config s)) \<le> MaxAllocSize"

lemma sint_of_small: "n \<le> MaxAllocSize \<Longrightarrow> sint (word_of_int (int n) :: i32) = int n"
  using sint_of_int [of "int n"] by (simp add: MaxAllocSize_def)

text \<open>A grant for a chunk is a positive number of bytes, no more than asked for.\<close>

lemma acquire_chunk:
  assumes "AcquireCredits c (word_of_int (int n)) s = (AcqOK t, s1)" "0 < n" "n \<le> MaxAllocSize"
  shows "0 < sint t" "nat (sint t) \<le> n" "tx_view c s1 = tx_view c s"
proof -
  have t: "t = granted c (word_of_int (int n)) s" "0 < sint (avail_credits c s)"
    using assms(1) by (auto simp: AcquireCredits_rounds split: if_splits)
  with granted_bounds(1) [of c "word_of_int (int n)" s] granted_bounds(3) [of "word_of_int (int n)" c s]
    sint_of_small [OF assms(3)] assms(2)
  show "0 < sint t" "nat (sint t) \<le> n" by simp_all
  show "tx_view c s1 = tx_view c s" using tx_acquire [of c "word_of_int (int n)" s] assms(1) by simp
qed

text \<open>The bytes a write has not handed to the queue.\<close>

fun write_rest :: "nat \<Rightarrow> bytes \<Rightarrow> bytes \<Rightarrow> write_end \<Rightarrow> bool" where
  "write_rest tot b sent_bytes (W_Done n e) \<longleftrightarrow>
     n = tot + length sent_bytes \<and> take (length sent_bytes) b = sent_bytes \<and> (e = None \<longrightarrow> sent_bytes = b)"
| "write_rest tot b sent_bytes (W_Credit n rest) \<longleftrightarrow> n = tot + length sent_bytes \<and> sent_bytes @ rest = b"
| "write_rest tot b sent_bytes (W_Queue n f sz rest) \<longleftrightarrow>
     n = tot + length sent_bytes \<and> sent_bytes @ payload f @ rest = b"
| "write_rest tot b sent_bytes W_Panic \<longleftrightarrow> False"

lemma write_rest_Cons:
  "write_rest (tot + length d) b sb w \<Longrightarrow> write_rest tot (d @ b) (d @ sb) w"
  by (cases w) simp_all

definition writes_run :: "cref \<Rightarrow> session \<Rightarrow> session \<Rightarrow> write_frame list \<Rightarrow> bool" where
  "writes_run c s s' fs \<longleftrightarrow>
     ws_writes (s_writer s') = ws_writes (s_writer s) @ fs \<and>
     data_run (ch_id (s_objs s c)) (unat (MaxFrameDataSize (s_config s))) (ch_writeOffset (s_objs s c)) fs \<and>
     ch_id (s_objs s' c) = ch_id (s_objs s c) \<and> s_config s' = s_config s \<and> s_panic s' = s_panic s"

lemma writes_run_none: "tx_view c s' = tx_view c s \<Longrightarrow> writes_run c s s' []"
  by (simp add: writes_run_def tx_view_def)

lemma writes_run_Cons:
  assumes "frame_of f d c s" "0 < length d" "length d \<le> unat (MaxFrameDataSize (s_config s))"
    and "ws_writes (s_writer s1) = ws_writes (s_writer s) @ [f]" "ch_id (s_objs s1 c) = ch_id (s_objs s c)"
    and "s_config s1 = s_config s" "s_panic s1 = s_panic s"
    and "ch_writeOffset (s_objs s1 c) = ch_writeOffset (s_objs s c) + of_nat (length d)"
    and "writes_run c s1 s' fs"
  shows "writes_run c s s' (f # fs)"
  using assms by (simp add: writes_run_def frame_of_def)

text \<open>One turn of the loop: either it is the last one and leaves the frame, if any, out of the queue,
  or it queues a frame for the next bytes and goes on.\<close>

lemma write_loop_turn:
  assumes w: "write_loop tot b c s = (w, s')" and sane: "sane_frame_size s"
  obtains (stop) "tx_view c s' = tx_view c s" "write_rest tot b [] w"
  | (failed) "writes_run c s s' []" "write_rest tot b [] w"
  | (turn) s1 sz a s2 f s3 where "b \<noteq> []"
      "AcquireCredits c (word_of_int (int (min (length b) (unat (MaxFrameDataSize (s_config s)))))) s = (AcqOK sz, s1)"
      "get_buf (nat (sint sz)) s1 = (Some a, s2)"
      "queueDataLocked (a, take (nat (sint sz)) b) sz c s2 = (SendOK, f, s3)"
      "write_loop (tot + nat (sint sz)) (drop (nat (sint sz)) b) c s3 = (w, s')"
      "\<And>fs. writes_run c s3 s' fs \<Longrightarrow> writes_run c s s' (f # fs)"
      "payload f = take (nat (sint sz)) b" "nat (sint sz) \<le> length b" "sane_frame_size s3"
proof (cases "b = []")
  case True
  then show ?thesis using w by (intro stop) (auto simp: write_loop.simps)
next
  case False
  let ?n = "min (length b) (unat (MaxFrameDataSize (s_config s)))"
  have n: "0 < ?n" "?n \<le> MaxAllocSize"
    using False sane by (auto simp: sane_frame_size_def word_less_nat_alt)
  obtain a s1 where acq: "AcquireCredits c (word_of_int (int ?n)) s = (a, s1)" by (metis surj_pair)
  have v1: "tx_view c s1 = tx_view c s" using tx_acquire [of c "word_of_int (int ?n)" s] acq by simp
  show ?thesis
  proof (cases a)
    case (AcqOK sz)
    note sz = acquire_chunk [OF acq [unfolded AcqOK] n]
    let ?k = "nat (sint sz)"
    define s2 where "s2 = s1\<lparr>s_nextB := Suc (s_nextB s1)\<rparr>"
    have gb: "get_buf ?k s1 = (Some (s_nextB s1), s2)" using sz n(2) by (auto simp: get_buf_def s2_def)
    have v2: "tx_view c s2 = tx_view c s" using v1 by (simp add: tx_view_def s2_def)
    obtain r f s3 where q: "queueDataLocked (s_nextB s1, take ?k b) sz c s2 = (r, f, s3)" by (metis surj_pair)
    have d: "length (take ?k b) = ?k" "0 < ?k" "?k \<le> unat (MaxFrameDataSize (s_config s))" using sz by auto
    note qf = queueData_facts [OF q d(1) sz(1)]
    have fr: "frame_of f (take ?k b) c s" using qf(1) v2 by (simp add: frame_of_def tx_view_def)
    then have pf: "payload f = take ?k b" by (simp add: frame_of_def)
    show ?thesis
    proof (cases r)
      case SendOK
      have "writes_run c s s' (f # fs)" if "writes_run c s3 s' fs" for fs
        by (rule writes_run_Cons [OF fr _ _ _ _ _ _ _ that]) (use SendOK d qf v2 in \<open>auto simp: tx_view_def\<close>)
      moreover have "sane_frame_size s3" using sane qf(3) v2 by (simp add: sane_frame_size_def tx_view_def)
      moreover have "write_loop (tot + ?k) (drop ?k b) c s3 = (w, s')"
        using w False acq AcqOK gb q SendOK by (subst (asm) write_loop.simps) (simp add: Let_def)
      ultimately show ?thesis
        using False acq AcqOK gb q SendOK pf d(1) by (intro turn [of sz s1 "s_nextB s1" s2 f s3]) auto
    next
      case (SendErr e)
      have "w = W_Done tot (Some e)" "s' = s3"
        using w False acq AcqOK gb q SendErr by (subst (asm) write_loop.simps, simp add: Let_def)+
      then show ?thesis using qf v2 SendErr by (intro failed) (auto simp: writes_run_def tx_view_def)
    next
      case SendBlock
      have "w = W_Queue tot f sz (drop ?k b)" "s' = s3"
        using w False acq AcqOK gb q SendBlock by (subst (asm) write_loop.simps, simp add: Let_def)+
      then show ?thesis using qf v2 SendBlock pf by (intro failed) (auto simp: writes_run_def tx_view_def)
    qed
  next
    case (AcqErr e)
    then show ?thesis using w False acq v1 by (subst (asm) write_loop.simps) (intro stop, auto simp: Let_def)
  next
    case AcqBlock
    then show ?thesis using w False acq v1 by (subst (asm) write_loop.simps) (intro stop, auto simp: Let_def)
  next
    case AcqRetry
    then show ?thesis using w False acq v1 by (subst (asm) write_loop.simps) (intro stop, auto simp: Let_def)
  qed
qed

lemma write_loop_run:
  assumes "write_loop tot b c s = (w, s')" "sane_frame_size s"
  shows "\<exists>fs. writes_run c s s' fs \<and> write_rest tot b (run_bytes fs) w"
  using assms
proof (induction tot b c s rule: write_loop.induct)
  case (1 tot b c s)
  from 1(2,3) show ?case
  proof (cases rule: write_loop_turn)
    case stop
    then show ?thesis by (intro exI [of _ "[]"]) (simp add: writes_run_none)
  next
    case failed
    then show ?thesis by (intro exI [of _ "[]"]) simp
  next
    case (turn s1 sz a s2 f s3)
    let ?k = "nat (sint sz)"
    obtain fs where fs: "writes_run c s3 s' fs" "write_rest (tot + ?k) (drop ?k b) (run_bytes fs) w"
      using 1(1) [OF turn(1) refl turn(2) [symmetric] refl turn(3) [symmetric] refl refl turn(4) [symmetric] refl refl
          turn(5) turn(9)] by blast
    have "write_rest tot (take ?k b @ drop ?k b) (payload f @ run_bytes fs) w"
      unfolding turn(7) by (rule write_rest_Cons) (use fs(2) turn(8) in \<open>simp add: min_absorb2\<close>)
    with turn(6) [OF fs(1)] show ?thesis by (intro exI [of _ "f # fs"]) simp
  qed
qed

lemma Write_run:
  assumes "channel_Write b c s = Some (w, s')" "sane_frame_size s"
  shows "\<exists>fs. writes_run c s s' fs \<and> write_rest 0 b (run_bytes fs) w"
proof (cases "b = [] \<or> ch_closed (s_objs s c) \<or> ch_writeClosed (s_objs s c) \<or> s_closed s")
  case True
  then show ?thesis using assms(1)
    by (intro exI [of _ "[]"]) (auto simp: channel_Write_def writes_run_none split: if_splits)
next
  case False
  let ?s1 = "upd_ch c (\<lambda>ch. ch\<lparr>ch_writeMu := True\<rparr>) s"
  have v: "tx_view c ?s1 = tx_view c s" by (simp add: tx_view_def upd_ch_def)
  obtain t where "write_loop 0 b c ?s1 = (w, t)" and t: "tx_view c s' = tx_view c t"
    using assms(1) False
    by (cases "write_loop 0 b c ?s1")
      (auto simp: channel_Write_def unlock_write_def Let_def upd_ch_def tx_view_def split: if_splits write_end.splits)
  moreover have "sane_frame_size ?s1" using assms(2) by (simp add: sane_frame_size_def upd_ch_def)
  ultimately obtain fs where "writes_run c ?s1 t fs" "write_rest 0 b (run_bytes fs) w"
    using write_loop_run by blast
  moreover from this(1) t v have "writes_run c s s' fs" by (simp add: writes_run_def tx_view_def)
  ultimately show ?thesis by blast
qed

text \<open>C4: \<^verbatim>\<open>Write\<close> cuts its bytes into DATA frames of at most \<^verbatim>\<open>MaxFrameDataSize\<close> bytes with consecutive
  offsets from the channel's write offset on and appends them, in order, to the data queue; it
  never panics.  A call that returns \<open>n\<close> has queued exactly the first \<open>n\<close> bytes, without an error all
  of them; a call that waits has queued a prefix and still holds the rest (the frame it waits with
  included).\<close>

theorem Write_frames:
  assumes "channel_Write b c s = Some (w, s')" "sane_frame_size s"
  shows "\<exists>fs. ws_writes (s_writer s') = ws_writes (s_writer s) @ fs \<and>
    data_run (ch_id (s_objs s c)) (unat (MaxFrameDataSize (s_config s))) (ch_writeOffset (s_objs s c)) fs \<and>
    s_panic s' = s_panic s \<and>
    (case w of
       W_Done n e \<Rightarrow> run_bytes fs = take n b \<and> n \<le> length b \<and> (e = None \<longrightarrow> n = length b)
     | W_Credit n rest \<Rightarrow> run_bytes fs @ rest = b \<and> n = length (run_bytes fs)
     | W_Queue n f sz rest \<Rightarrow> run_bytes fs @ payload f @ rest = b \<and> n = length (run_bytes fs)
     | W_Panic \<Rightarrow> False)"
proof -
  obtain fs where fs: "writes_run c s s' fs" "write_rest 0 b (run_bytes fs) w"
    using Write_run [OF assms] by blast
  have "case w of
       W_Done n e \<Rightarrow> run_bytes fs = take n b \<and> n \<le> length b \<and> (e = None \<longrightarrow> n = length b)
     | W_Credit n rest \<Rightarrow> run_bytes fs @ rest = b \<and> n = length (run_bytes fs)
     | W_Queue n f sz rest \<Rightarrow> run_bytes fs @ payload f @ rest = b \<and> n = length (run_bytes fs)
     | W_Panic \<Rightarrow> False"
    using fs(2) by (cases w) (auto, metis length_take min.bounded_iff order_refl)
  with fs(1) show ?thesis unfolding writes_run_def by blast
qed

subsection \<open>A write with enough credit and room ends\<close>

definition nchunks :: "nat \<Rightarrow> nat \<Rightarrow> nat" where
  "nchunks mx n = (n + mx - 1) div mx"

lemma nchunks_step: "0 < mx \<Longrightarrow> 0 < n \<Longrightarrow> Suc (nchunks mx (n - min n mx)) = nchunks mx n"
proof -
  assume a: "0 < mx" "0 < n"
  show ?thesis
  proof (cases "n \<le> mx")
    case True
    then have "(n + mx - 1) div mx = 1" using a by (intro div_nat_eqI) auto
    then show ?thesis using True a by (simp add: nchunks_def min_def)
  next
    case False
    then have "n + mx - 1 = (n - 1) + mx" "n - mx + mx - 1 = n - 1" using a by simp_all
    then have "nchunks mx n = Suc (nchunks mx (n - mx))"
      using a(1) unfolding nchunks_def by (simp only: div_add_self2 Suc_eq_plus1 not_gr_zero)
    then show ?thesis using False by (simp add: min_def)
  qed
qed

definition can_send :: "nat \<Rightarrow> cref \<Rightarrow> session \<Rightarrow> bool" where
  "can_send n c s \<longleftrightarrow>
     writable c s \<and> \<not> s_die s \<and> sane_frame_size s \<and>
     int n \<le> sint (sf_sendCredits (flow_of s c)) \<and>
     (sn_enabled (s_flow s) \<longrightarrow> int n \<le> sint (sn_sendCredits (s_flow s))) \<and>
     length (ws_writes (s_writer s)) + nchunks (unat (MaxFrameDataSize (s_config s))) n \<le> ws_writesCap (s_writer s)"

text \<open>What a sent frame leaves of the conditions.\<close>

definition send_env :: "cref \<Rightarrow> session \<Rightarrow> bool \<times> bool \<times> bool \<times> bool \<times> stream_flow \<times> session_flow \<times> config \<times> nat" where
  "send_env c s = (ch_closed (s_objs s c), ch_writeClosed (s_objs s c), s_closed s, s_die s, ch_flow (s_objs s c), s_flow s,
     s_config s, ws_writesCap (s_writer s))"

lemma send_env_data_frame: "data_frame p sz c s = (f, s1) \<Longrightarrow> send_env c s1 = send_env c s"
  by (auto simp: data_frame_def newUnackedFrame_def add_unacked_def arqAdd_def send_env_def upd_ch_def Let_def
      split: if_splits)

lemma queueData_room:
  assumes "length (ws_writes (s_writer s)) < ws_writesCap (s_writer s)" "\<not> s_closed s" "\<not> s_die s"
    and "0 < sint sz" "length d = nat (sint sz)"
  shows "\<exists>f s'. queueDataLocked (a, d) sz c s = (SendOK, f, s') \<and> send_env c s' = send_env c s \<and>
    length (ws_writes (s_writer s')) = Suc (length (ws_writes (s_writer s)))"
proof -
  obtain f s1 where 1: "data_frame (a, d) sz c s = (f, s1)" by (metis surj_pair)
  note e = send_env_data_frame [OF 1]
  have w: "ws_writes (s_writer s1) = ws_writes (s_writer s)" using data_frame_facts(6) [OF 1 assms(5,4)] .
  have "send_data f sz c s1 = (SendOK, push_writes f s1)"
    using e w assms(1-3) by (simp add: send_data_def writeDataFrame_def writes_room_def send_env_def)
  then show ?thesis
    using 1 e w by (simp add: queueDataLocked_def push_writes_def upd_ws_def send_env_def)
qed

lemma can_send_turn:
  assumes "can_send (length b) c s" "b \<noteq> []"
  shows "\<exists>s'. write_loop tot b c s =
      write_loop (tot + min (length b) (unat (MaxFrameDataSize (s_config s))))
        (drop (min (length b) (unat (MaxFrameDataSize (s_config s)))) b) c s' \<and>
    can_send (length b - min (length b) (unat (MaxFrameDataSize (s_config s)))) c s'"
proof -
  let ?mx = "unat (MaxFrameDataSize (s_config s))" and ?sz = "word_of_int (int (min (length b) (unat (MaxFrameDataSize (s_config s))))) :: i32"
  define k where "k = min (length b) ?mx"
  have mx: "0 < ?mx" "?mx \<le> MaxAllocSize" using assms(1) by (simp_all add: can_send_def sane_frame_size_def word_less_nat_alt)
  have k: "0 < k" "k \<le> MaxAllocSize" "k \<le> length b" using assms(2) mx by (auto simp: k_def)
  have sz: "sint ?sz = int k" using sint_of_small [OF k(2)] by (simp add: k_def)
  have av: "int k \<le> sint (avail_credits c s)"
    using assms(1) k(2,3) by (auto simp: can_send_def avail_credits_def Let_def MaxAllocSize_def)
  then have gr: "granted c ?sz s = ?sz" using sz by (simp add: granted_def)
  define s1 where "s1 = spent c ?sz s"
  have acq: "AcquireCredits c ?sz s = (AcqOK ?sz, s1)"
    using assms(1) av k(1) gr by (simp add: AcquireCredits_rounds can_send_def s1_def)
  define s2 where "s2 = s1\<lparr>s_nextB := Suc (s_nextB s1)\<rparr>"
  have gb: "get_buf (nat (sint ?sz)) s1 = (Some (s_nextB s1), s2)" using k sz by (simp add: get_buf_def s2_def)
  have cr: "sint (sf_sendCredits (flow_of s2 c)) = sint (sf_sendCredits (flow_of s c)) - int k"
      "sint (sn_sendCredits (s_flow s2)) = sint (sn_sendCredits (s_flow s)) - (if sn_enabled (s_flow s) then int k else 0)"
    using spent_credits [of ?sz s c] assms(1) k(3) sz by (auto simp: can_send_def s2_def s1_def)
  have env: "ch_closed (s_objs s2 c) = ch_closed (s_objs s c)" "ch_writeClosed (s_objs s2 c) = ch_writeClosed (s_objs s c)"
    "s_closed s2 = s_closed s" "s_die s2 = s_die s" "s_config s2 = s_config s" "s_writer s2 = s_writer s"
    "sn_enabled (s_flow s2) = sn_enabled (s_flow s)"
    by (simp_all add: s2_def s1_def spent_def upd_flow_def upd_ch_def upd_sn_def)
  have step: "Suc (nchunks ?mx (length b - k)) = nchunks ?mx (length b)"
    using nchunks_step [OF mx(1), of "length b"] assms(2) by (simp add: k_def)
  have room: "length (ws_writes (s_writer s2)) < ws_writesCap (s_writer s2)" "\<not> s_closed s2" "\<not> s_die s2"
    using assms(1) env step by (auto simp: can_send_def writable_def)
  have "0 < sint ?sz" "length (take k b) = nat (sint ?sz)" unfolding sz using k by simp_all
  from queueData_room [OF room this, of "s_nextB s1" c] obtain f s3 where
    s3: "queueDataLocked (s_nextB s1, take k b) ?sz c s2 = (SendOK, f, s3)" "send_env c s3 = send_env c s2"
      "length (ws_writes (s_writer s3)) = Suc (length (ws_writes (s_writer s2)))" by blast
  have "write_loop tot b c s = write_loop (tot + k) (drop k b) c s3"
    using assms(2) acq gb s3(1) sz by (subst write_loop.simps) (simp add: Let_def k_def)
  moreover have "can_send (length b - k) c s3"
    using assms(1) cr env step s3(2,3) k(3)
    by (auto simp: can_send_def writable_def sane_frame_size_def send_env_def)
  ultimately show ?thesis unfolding k_def by blast
qed

lemma write_loop_done:
  "can_send (length b) c s \<Longrightarrow> \<exists>s'. write_loop tot b c s = (W_Done (tot + length b) None, s')"
proof (induction "length b" arbitrary: b tot s rule: less_induct)
  case less
  show ?case
  proof (cases "b = []")
    case True
    then show ?thesis by (simp add: write_loop.simps)
  next
    case False
    let ?k = "min (length b) (unat (MaxFrameDataSize (s_config s)))"
    obtain s' where s': "write_loop tot b c s = write_loop (tot + ?k) (drop ?k b) c s'" "can_send (length b - ?k) c s'"
      using can_send_turn [OF less.prems False] by blast
    have "0 < ?k" using less.prems False by (auto simp: can_send_def sane_frame_size_def word_less_nat_alt)
    with less.hyps [of "drop ?k b" s' "tot + ?k"] s' False show ?thesis by auto
  qed
qed

lemma Write_done:
  assumes "can_send (length b) c s" "\<not> ch_writeMu (s_objs s c)"
  shows "\<exists>s'. channel_Write b c s = Some (W_Done (length b) None, s')"
proof (cases "b = []")
  case False
  let ?s1 = "upd_ch c (\<lambda>ch. ch\<lparr>ch_writeMu := True\<rparr>) s"
  have "can_send (length b) c ?s1"
    using assms(1) by (simp add: can_send_def writable_def sane_frame_size_def upd_ch_def)
  from write_loop_done [OF this, of 0] obtain s' where "write_loop 0 b c ?s1 = (W_Done (length b) None, s')" by auto
  then show ?thesis
    using assms False by (simp add: channel_Write_def unlock_write_def can_send_def writable_def upd_ch_def Let_def)
qed (simp add: channel_Write_def)

text \<open>C25: A \<^verbatim>\<open>Write\<close> on an open channel that has the credit for its bytes in both pools and room for its
  frames in the data queue does not wait: it returns the number of bytes and no error.\<close>

theorem Write_completes:
  assumes "can_send (length b) c s" "\<not> ch_writeMu (s_objs s c)"
  shows "\<exists>s'. channel_Write b c s = Some (W_Done (length b) None, s')"
  using assms by (rule Write_done)

lemma sample_frame_size: "sane_frame_size sample_session"
  by (simp add: sane_frame_size_def sample_config session_config_None DefaultConfig_def default_defs MaxAllocSize_def)

lemma sample_panic: "\<not> s_panic sample_session"
  by (simp add: sample_session_def NewSessionWithID_def Let_def)

lemma sample_can_send: "can_send 3 0 sample_session" "\<not> ch_writeMu (s_objs sample_session 0)"
proof -
  have "s_writer sample_session = newWriteScheduler (Some 0) 32" "\<not> s_die sample_session"
    by (simp_all add: sample_session_def NewSessionWithID_def Let_def session_config_None_values)
  then show "can_send 3 0 sample_session" "\<not> ch_writeMu (s_objs sample_session 0)"
    using sample_credits sample_frame_size
    by (simp_all add: can_send_def writable_def blank_channel_def newWriteScheduler_def nchunks_def sample_config
        session_config_None_values Let_def)
qed

theorem Write_completes_witness: "\<exists>s'. channel_Write [1, 2, 3] 0 sample_session = Some (W_Done 3 None, s')"
  using Write_completes [of "[1, 2, 3]" 0 sample_session] sample_can_send by (simp add: numeral_3_eq_3)

theorem Write_frames_witness:
  "\<exists>s' fs. channel_Write [1, 2, 3] 0 sample_session = Some (W_Done 3 None, s') \<and>
     ws_writes (s_writer s') = ws_writes (s_writer sample_session) @ fs \<and>
     data_run 1 32768 0 fs \<and> run_bytes fs = [1, 2, 3] \<and> \<not> s_panic s'"
proof -
  obtain s' where w: "channel_Write [1, 2, 3] 0 sample_session = Some (W_Done 3 None, s')"
    using Write_done [of "[1, 2, 3]" 0 sample_session] sample_can_send by (auto simp: numeral_3_eq_3)
  show ?thesis
    using Write_frames [OF w sample_frame_size] w sample_credits(8) sample_panic
    by (auto simp: blank_channel_def sample_config session_config_None DefaultConfig_def default_defs)
qed

section \<open>Acknowledgements\<close>

lemma release_other [simp]: "v \<noteq> u \<Longrightarrow> s_uobjs (release u s) v = s_uobjs s v"
  by (simp add: release_def upd_u_def Let_def)

lemma fold_release_other: "v \<notin> set us \<Longrightarrow> s_uobjs (fold release us s) v = s_uobjs s v"
  by (induction us arbitrary: s) auto

lemma acked_release: "v \<noteq> u \<Longrightarrow> acked a (release u s) v = acked a s v"
  by (simp add: acked_def)

text \<open>The loop of \<^verbatim>\<open>onAck\<close> releases the acknowledged front of the list and keeps the rest.\<close>

lemma ack_prefix_eq:
  assumes "distinct us"
  shows "ack_prefix a us s = (dropWhile (acked a s) us, fold release (takeWhile (acked a s) us) s)"
  using assms
proof (induction us arbitrary: s)
  case (Cons u us)
  have e: "acked a (release u s) x = acked a s x" if "x \<in> set us" for x
    by (rule acked_release) (use Cons.prems that in auto)
  have "dropWhile (acked a (release u s)) us = dropWhile (acked a s) us"
    "takeWhile (acked a (release u s)) us = takeWhile (acked a s) us"
    using e by (auto intro!: dropWhile_cong takeWhile_cong)
  with Cons show ?case by simp
qed simp

text \<open>What releasing a list of distinct frames does: each loses one holder, and the buffers whose last
  holder this was go back to the allocator, each once and in order.\<close>

definition last_bufs :: "session \<Rightarrow> uref list \<Rightarrow> bref list" where
  "last_bufs s us = concat (map (\<lambda>u. if uf_refs (s_uobjs s u) = 1
     then (case uf_pBuf (s_uobjs s u) of None \<Rightarrow> [] | Some p \<Rightarrow> [fst p]) else []) us)"

lemma fold_release_freed:
  "distinct us \<Longrightarrow> s_freed (fold release us s) = s_freed s @ last_bufs s us"
proof (induction us arbitrary: s)
  case (Cons v us)
  have "last_bufs (release v s) us = last_bufs s us"
    unfolding last_bufs_def
  proof (rule arg_cong [of _ _ concat], rule map_cong [OF refl])
    fix x
    assume "x \<in> set us"
    then have "x \<noteq> v" using Cons.prems by auto
    then show "(if uf_refs (s_uobjs (release v s) x) = 1
        then case uf_pBuf (s_uobjs (release v s) x) of None \<Rightarrow> [] | Some p \<Rightarrow> [fst p] else []) =
      (if uf_refs (s_uobjs s x) = 1 then case uf_pBuf (s_uobjs s x) of None \<Rightarrow> [] | Some p \<Rightarrow> [fst p] else [])"
      by simp
  qed
  with Cons.IH [of "release v s"] Cons.prems show ?case
    by (auto simp: last_bufs_def release_def upd_u_def put_buf_def Let_def split: option.splits)
qed (simp add: last_bufs_def)

lemma release_self:
  "s_uobjs (release u s) u =
     (if uf_refs (s_uobjs s u) = 1 then zero_u else (s_uobjs s u)\<lparr>uf_refs := uf_refs (s_uobjs s u) - 1\<rparr>)"
  by (simp add: release_def upd_u_def Let_def)

lemma fold_release_uobj:
  "distinct us \<Longrightarrow> u \<in> set us \<Longrightarrow> s_uobjs (fold release us s) u =
     (if uf_refs (s_uobjs s u) = 1 then zero_u
      else (s_uobjs s u)\<lparr>uf_refs := uf_refs (s_uobjs s u) - 1\<rparr>)"
proof (induction us arbitrary: s)
  case (Cons v us)
  then show ?case
    using Cons.IH [of "release v s"] fold_release_other [of v us "release v s"]
    by (cases "u = v") (auto simp: release_self)
qed simp

lemma fold_release_objs [simp]:
  "s_objs (fold release us s) = s_objs s" "s_writer (fold release us s) = s_writer s"
  "s_config (fold release us s) = s_config s" "s_closed (fold release us s) = s_closed s"
  "s_channels (fold release us s) = s_channels s" "s_panic (fold release us s) = s_panic s"
  by (induction us arbitrary: s) simp_all

text \<open>Offsets grow along the list, so the acknowledged frames are exactly the front.\<close>

lemma takeWhile_sorted:
  "sorted (map f us) \<Longrightarrow> takeWhile (\<lambda>u. f u \<le> a) us = filter (\<lambda>u. f u \<le> a) us"
  "sorted (map f us) \<Longrightarrow> dropWhile (\<lambda>u. f u \<le> a) us = filter (\<lambda>u. \<not> f u \<le> a) us"
  for f :: "'b \<Rightarrow> 'a :: linorder"
proof (induction us)
  case (Cons u us)
  { case 1
    with Cons show ?case by (auto intro!: sym [OF filter_False] dest: order_trans)
  next
    case 2
    with Cons show ?case by (auto intro!: sym [OF filter_True] dest: order_trans)
  }
qed simp_all

definition unacked_ok :: "cref \<Rightarrow> session \<Rightarrow> bool" where
  "unacked_ok c s \<longleftrightarrow>
     distinct (ch_unacked (s_objs s c)) \<and> sorted (map (\<lambda>u. u_end (s_uobjs s u)) (ch_unacked (s_objs s c)))"

text \<open>The state \<^verbatim>\<open>onAck\<close> reaches before it may finalize the channel.\<close>

definition acked_state :: "u64 \<Rightarrow> cref \<Rightarrow> session \<Rightarrow> session" where
  "acked_state a c s =
     upd_ch c (\<lambda>ch. ch\<lparr>ch_unacked := filter (\<lambda>u. \<not> acked a s u) (ch_unacked ch)\<rparr>)
       (fold release (filter (acked a s) (ch_unacked (s_objs s c))) s)"

lemma onAck_eq:
  assumes "unacked_ok c s"
  shows "onAck a c s =
    (if \<exists>u \<in> set (ch_unacked (s_objs s c)). acked a s u
     then if \<forall>u \<in> set (ch_unacked (s_objs s c)). acked a s u
          then maybeFinalize c (leave_arq c (acked_state a c s)) else acked_state a c s
     else s)"
proof -
  let ?us = "ch_unacked (s_objs s c)"
  have d: "distinct ?us" and srt: "sorted (map (\<lambda>u. u_end (s_uobjs s u)) ?us)"
    using assms by (simp_all add: unacked_ok_def)
  have eq: "ack_prefix a ?us s = (filter (\<lambda>u. \<not> acked a s u) ?us, fold release (filter (acked a s) ?us) s)"
    using ack_prefix_eq [OF d, of a s] takeWhile_sorted [OF srt, of a] by (simp add: acked_def [abs_def])
  have len: "length (filter (\<lambda>u. \<not> acked a s u) ?us) < length ?us \<longleftrightarrow> (\<exists>u \<in> set ?us. acked a s u)"
    by (metis (no_types, lifting) length_filter_less filter_True less_irrefl)
  have emp: "filter (\<lambda>u. \<not> acked a s u) ?us = [] \<longleftrightarrow> (\<forall>u \<in> set ?us. acked a s u)"
    by (simp add: filter_empty_conv)
  have none: "filter (acked a s) ?us = []" if "\<not> (\<exists>u \<in> set ?us. acked a s u)"
    using that by (simp add: filter_empty_conv)
  show ?thesis
    using len emp none by (auto simp: onAck_def eq Let_def acked_state_def upd_ch_def)
qed

lemma acked_state_simps:
  "ch_unacked (s_objs (acked_state a c s) c) = filter (\<lambda>u. \<not> acked a s u) (ch_unacked (s_objs s c))"
  "s_uobjs (acked_state a c s) = s_uobjs (fold release (filter (acked a s) (ch_unacked (s_objs s c))) s)"
  "s_freed (acked_state a c s) = s_freed (fold release (filter (acked a s) (ch_unacked (s_objs s c))) s)"
  by (simp_all add: acked_state_def upd_ch_def)

text \<open>C21: An acknowledgement up to offset \<open>a\<close> takes exactly the frames that end at or before \<open>a\<close> off the
  list of unacknowledged frames, keeps the others in order and untouched, lets each of the
  acknowledged ones lose exactly one holder, and gives back exactly the buffers that have no holder
  left, each once.  A channel with frames left, or with a direction still open, is not finalized.\<close>

theorem onAck_exact:
  assumes "unacked_ok c s"
    and "\<not> ch_finQueued (s_objs s c) \<or> \<not> ch_readDone (s_objs s c) \<or>
      (\<exists>u \<in> set (ch_unacked (s_objs s c)). \<not> acked a s u)"
  shows "ch_unacked (s_objs (onAck a c s) c) = filter (\<lambda>u. \<not> acked a s u) (ch_unacked (s_objs s c)) \<and>
    s_freed (onAck a c s) = s_freed s @ last_bufs s (filter (acked a s) (ch_unacked (s_objs s c))) \<and>
    s_uobjs (onAck a c s) u =
      (if u \<in> set (ch_unacked (s_objs s c)) \<and> acked a s u
       then if uf_refs (s_uobjs s u) = 1 then zero_u
            else (s_uobjs s u)\<lparr>uf_refs := uf_refs (s_uobjs s u) - 1\<rparr>
       else s_uobjs s u)"
proof -
  let ?us = "ch_unacked (s_objs s c)" and ?t = "acked_state a c s"
  have d: "distinct (filter (acked a s) ?us)" using assms(1) by (simp add: unacked_ok_def)
  have view: "ch_unacked (s_objs (onAck a c s) c) = ch_unacked (s_objs ?t c) \<and>
      s_freed (onAck a c s) = s_freed ?t \<and> s_uobjs (onAck a c s) = s_uobjs ?t"
  proof (cases "\<exists>u \<in> set ?us. acked a s u")
    case True
    have "maybeFinalize c (leave_arq c ?t) = leave_arq c ?t" if "\<forall>u \<in> set ?us. acked a s u"
      using assms(2) that by (auto simp: maybeFinalize_def leave_arq_def arqRemove_def acked_state_def upd_ch_def Let_def)
    then show ?thesis
      using True by (simp add: onAck_eq [OF assms(1)] leave_arq_def arqRemove_def upd_ch_def)
  next
    case False
    then have "filter (acked a s) ?us = []" "filter (\<lambda>u. \<not> acked a s u) ?us = ?us"
      by (simp_all add: filter_empty_conv)
    with False show ?thesis by (auto simp: onAck_eq [OF assms(1)] acked_state_simps)
  qed
  have "s_uobjs (fold release (filter (acked a s) ?us) s) u =
      (if u \<in> set ?us \<and> acked a s u
       then if uf_refs (s_uobjs s u) = 1 then zero_u
            else (s_uobjs s u)\<lparr>uf_refs := uf_refs (s_uobjs s u) - 1\<rparr>
       else s_uobjs s u)"
    using fold_release_uobj [OF d, of u s] fold_release_other [of u "filter (acked a s) ?us" s] by simp
  with view fold_release_freed [OF d] show ?thesis by (simp add: acked_state_simps)
qed

text \<open>Three frames of ten bytes in flight, the first one still queued for a retransmission.\<close>

definition flight :: session where
  "flight = upd_ch 0 (\<lambda>ch. ch\<lparr>ch_unacked := [0, 1, 2]\<rparr>) (sample_session\<lparr>s_uobjs :=
     (\<lambda>u. zero_u\<lparr>uf_pBuf := Some (u, replicate 10 0), uf_offset := of_nat (10 * u), uf_length := 10,
        uf_refs := (if u = 0 then 2 else 1)\<rparr>)\<rparr>)"

theorem onAck_exact_witness:
  "ch_unacked (s_objs (onAck 20 0 flight) 0) = [2] \<and> s_freed (onAck 20 0 flight) = s_freed flight @ [1] \<and>
   uf_refs (s_uobjs (onAck 20 0 flight) 0) = 1"
proof -
  have "unacked_ok 0 flight"
    by (simp add: unacked_ok_def flight_def upd_ch_def u_end_def zero_u_def)
  moreover have "\<not> ch_finQueued (s_objs flight 0)"
    using sample_credits(8) by (simp add: flight_def upd_ch_def blank_channel_def)
  ultimately show ?thesis
    using onAck_exact [of 0 flight 20 0]
    by (simp add: flight_def upd_ch_def acked_def u_end_def zero_u_def last_bufs_def)
qed

end
