(* ===== verification/Lifecycle.thy ===== *)
theory Lifecycle
  imports Sender
begin

text \<open>
  The life of a session (\<^verbatim>\<open>src/session.go\<close>): \<^verbatim>\<open>Close\<close> with \<^verbatim>\<open>lingerClose\<close> and the close hooks, the grace
  period after \<^verbatim>\<open>handleDisconnect\<close>, \<^verbatim>\<open>resumeWithConnection\<close>, one tick of \<^verbatim>\<open>keepAliveLoop\<close> and one of
  \<^verbatim>\<open>arqLoop\<close>, and the goroutines these start.  \<^verbatim>\<open>Close\<close> waits in two places: for the reader of a
  channel it finalizes, and for the writer's last flush; its result says where it stands.
\<close>

section \<open>Closing the transport\<close>

text \<open>What \<^verbatim>\<open>lingerClose\<close> finds out about the transport: whether it has a \<^verbatim>\<open>CloseWrite\<close>, and what that
  returns.\<close>

type_synonym closer = "nat \<Rightarrow> go_error option option"

definition close_conn :: "nat \<Rightarrow> session \<Rightarrow> session" where
  "close_conn k s = s\<lparr>s_connClosed := s_connClosed s @ [k]\<rparr>"

definition lingerClose :: "closer \<Rightarrow> nat \<Rightarrow> time \<Rightarrow> session \<Rightarrow> session" where
  "lingerClose cw k timeout s =
     (case cw k of
        None \<Rightarrow> close_conn k s
      | Some (Some e) \<Rightarrow> close_conn k s
      | Some None \<Rightarrow> s\<lparr>s_goLinger := s_goLinger s @ [(k, s_now s + timeout)]\<rparr>)"

text \<open>The draining goroutine: it goes on while reads succeed, until the deadline.\<close>

definition linger_step :: "nat \<Rightarrow> bool \<Rightarrow> session \<Rightarrow> session" where
  "linger_step i readErr s =
     (let q = s_goLinger s in
      if i < length q \<and> (readErr \<or> s_now s \<ge> snd (q ! i))
      then close_conn (fst (q ! i)) (s\<lparr>s_goLinger := take i q @ drop (Suc i) q\<rparr>)
      else s)"

section \<open>Close\<close>

definition addCloseHook :: "nat \<Rightarrow> session \<Rightarrow> session" where
  "addCloseHook fn s =
     (if s_closed s then s\<lparr>s_hooksRun := s_hooksRun s @ [fn]\<rparr>
      else s\<lparr>s_closeHooks := s_closeHooks s @ [fn]\<rparr>)"

definition put_pending :: "(u32, pending_queue) gomap \<Rightarrow> session \<Rightarrow> session" where
  "put_pending m = fold (\<lambda>kq. fold (\<lambda>f. put_buf (map_option fst (pf_pBuf f))) (pq_frames (snd kq))) m"

text \<open>From \<^verbatim>\<open>hooksMu.Lock()\<close> to \<^verbatim>\<open>arqSet = nil\<close>: the channels to close, the hooks to run.\<close>

definition close_begin :: "session \<Rightarrow> cref list \<times> nat list \<times> session" where
  "close_begin s =
     (let s1 = s\<lparr>s_closeOnce := True, s_closed := True, s_closeHooks := [], s_die := True\<rparr>;
          s2 = put_pending (s_pending s1) (s1\<lparr>s_channels := []\<rparr>)
      in (map snd (s_channels s1), s_closeHooks s,
          s2\<lparr>s_pending := [], s_closedIDs := [], s_pendingBytes := 0, s_arqSet := []\<rparr>))"

datatype close_state =
    CS_Chan cref bool "cref list" "nat list"
  | CS_Writer "nat list"
  | CS_Done

definition close_one :: "bool \<Rightarrow> cref \<Rightarrow> session \<Rightarrow> session" where
  "close_one graceful c s = (if graceful then peerGone c s else localClose c s)"

fun close_channels :: "bool \<Rightarrow> cref list \<Rightarrow> nat list \<Rightarrow> session \<Rightarrow> close_state \<times> session" where
  "close_channels graceful [] hooks s = (CS_Writer hooks, scheduler_Close s)"
| "close_channels graceful (c # cs) hooks s =
     (let s1 = close_one graceful c s in
      if ch_finalWait (s_objs s1 c) then (CS_Chan c graceful cs hooks, s1)
      else close_channels graceful cs hooks s1)"

definition session_Close :: "session \<Rightarrow> close_state \<times> session" where
  "session_Close s =
     (if s_closeOnce s then (CS_Done, s)
      else
        case close_begin s of
          (active, hooks, s1) \<Rightarrow> close_channels (s_goAwayRecv s1) active hooks s1)"

text \<open>The end, once the writer has exited or its time is over.\<close>

definition close_finish :: "closer \<Rightarrow> nat list \<Rightarrow> session \<Rightarrow> session" where
  "close_finish cw hooks s =
     (let s1 = (case s_conn s of
                  None \<Rightarrow> s
                | Some k \<Rightarrow>
                    if LingerOnCloseSession (s_config s) then lingerClose cw k (LingerCloseTimeout (s_config s)) s
                    else close_conn k s)
      in s1\<lparr>s_hooksRun := s_hooksRun s1 @ hooks\<rparr>)"

text \<open>\<open>goOn\<close>: \<^verbatim>\<open>writer.exited\<close> or the timeout.\<close>

definition Close_resume :: "closer \<Rightarrow> bool \<Rightarrow> close_state \<Rightarrow> session \<Rightarrow> close_state \<times> session" where
  "Close_resume cw goOn cs s =
     (case cs of
        CS_Chan c graceful rest hooks \<Rightarrow>
          if ch_finalWait (s_objs s c) then (cs, s) else close_channels graceful rest hooks s
      | CS_Writer hooks \<Rightarrow> if goOn then (CS_Done, close_finish cw hooks s) else (cs, s)
      | CS_Done \<Rightarrow> (CS_Done, s))"

definition go_close_step :: "session \<Rightarrow> close_state \<times> session" where
  "go_close_step s =
     (if s_goClose s = 0 then (CS_Done, s) else session_Close (s\<lparr>s_goClose := s_goClose s - 1\<rparr>))"

definition go_localClose_step :: "session \<Rightarrow> session" where
  "go_localClose_step s =
     (case s_goLocalClose s of [] \<Rightarrow> s | c # cs \<Rightarrow> localClose c (s\<lparr>s_goLocalClose := cs\<rparr>))"

section \<open>Losing and replacing the transport\<close>

text \<open>The grace-period goroutine: it ends with the session; when its time is over it closes the session
  if this is still suspended in the same epoch.\<close>

definition grace_step :: "nat \<Rightarrow> session \<Rightarrow> session" where
  "grace_step i s =
     (let q = s_graceTimers s in
      if i < length q then
        let s1 = s\<lparr>s_graceTimers := take i q @ drop (Suc i) q\<rparr> in
        if s_die s then s1
        else if s_now s \<ge> fst (q ! i) then
          if s_suspended s \<and> s_connEpoch s = snd (q ! i) then s1\<lparr>s_goClose := s_goClose s1 + 1\<rparr> else s1
        else s
      else s)"

definition resumeWithConnection :: "nat \<Rightarrow> session \<Rightarrow> session" where
  "resumeWithConnection conn s =
     (let old = s_conn s;
          s1 = (alterConn (Some conn) (s\<lparr>s_conn := Some conn, s_connEpoch := s_connEpoch s + 1\<rparr>))\<lparr>s_suspended := False\<rparr>;
          s2 = (case old of None \<Rightarrow> s1 | Some k \<Rightarrow> if k \<noteq> conn then close_conn k s1 else s1);
          s3 = (if Reliability (s_config s2)
                then s2\<lparr>s_goRetrans := s_goRetrans s2 @ [map (\<lambda>kc. (snd kc, None)) (s_channels s2)]\<rparr> else s2)
      in s3\<lparr>s_goRead := s_goRead s3 @ [conn]\<rparr>)"

definition alterConnection :: "nat \<Rightarrow> session \<Rightarrow> session" where
  "alterConnection conn s = resumeWithConnection conn s"

text \<open>One step of the retransmitting goroutine \<open>i\<close>: it waits when the data queue is full.\<close>

definition retrans_one :: "cref \<times> uref list option \<Rightarrow> session \<Rightarrow> uref list \<times> session" where
  "retrans_one e s =
     (case e of
        (c, None) \<Rightarrow> retransmitAllUnacked c s
      | (c, Some us) \<Rightarrow> sendRetransmissions c us s)"

definition retrans_step :: "nat \<Rightarrow> session \<Rightarrow> session" where
  "retrans_step i s =
     (let q = s_goRetrans s in
      if i < length q then
        case q ! i of
          [] \<Rightarrow> s\<lparr>s_goRetrans := take i q @ drop (Suc i) q\<rparr>
        | e # es \<Rightarrow>
            (case retrans_one e s of
               (left, s1) \<Rightarrow>
                 s1\<lparr>s_goRetrans := q[i := (if left = [] then es else (fst e, Some left) # es)]\<rparr>)
      else s)"

section \<open>Periodic work\<close>

definition keep_timeout :: "config \<Rightarrow> time" where
  "keep_timeout cfg =
     (if KeepAliveTimeout cfg < KeepAliveInterval cfg then 3 * KeepAliveInterval cfg else KeepAliveTimeout cfg)"

text \<open>A tick of \<^verbatim>\<open>keepAliveLoop\<close> at time \<open>now\<close>; \<open>None\<close>: the loop ends.\<close>

definition keepAlive_tick :: "time \<Rightarrow> time \<Rightarrow> session \<Rightarrow> (time \<times> session) option" where
  "keepAlive_tick now lastSeen s =
     (if s_die s then None
      else
        let s0 = pruneExpiredPending s;
            active = (s_rxActivity s0 \<or> s_suspended s0);
            s1 = s0\<lparr>s_rxActivity := False\<rparr>
        in if \<not> active \<and> now - lastSeen > keep_timeout (s_config s) then
             Some (now, case s_conn s1 of None \<Rightarrow> s1 | Some k \<Rightarrow> handleDisconnect (Some k) s1)
           else
             Some (if active then now else lastSeen,
               offer_ctrl (zero_frame\<lparr>wf_flag := FLG_PING\<rparr>) s1))"

text \<open>A tick of \<^verbatim>\<open>arqLoop\<close>: the channels in the set, one after the other.  When the data queue is full
  the loop waits with the frames left, whether the channel is to be given up, and the channels left.\<close>

datatype arq_state = ARQ_Ended | ARQ_Ready | ARQ_Send cref "uref list" bool "cref list"

fun arq_batch :: "time \<Rightarrow> cref list \<Rightarrow> session \<Rightarrow> arq_state \<times> session" where
  "arq_batch rto [] s = (ARQ_Ready, s)"
| "arq_batch rto (c # cs) s =
     (if ch_unacked (s_objs s c) = [] then
        arq_batch rto cs (maybeFinalize c (arqRemove c (upd_ch c (\<lambda>ch. ch\<lparr>ch_inARQ := False\<rparr>) s)))
      else
        case checkRetransmissions rto c s of
          (left, giveUp, s1) \<Rightarrow>
            if left = [] then arq_batch rto cs s1 else (ARQ_Send c left giveUp cs, s1))"

definition arq_tick :: "session \<Rightarrow> arq_state \<times> session" where
  "arq_tick s =
     (if s_die s then (ARQ_Ended, s)
      else if s_suspended s then (ARQ_Ready, s)
      else arq_batch (RetransmitTimeout (s_config s)) (s_arqSet s) s)"

definition arq_resume :: "arq_state \<Rightarrow> session \<Rightarrow> arq_state \<times> session" where
  "arq_resume a s =
     (case a of
        ARQ_Send c us giveUp cs \<Rightarrow>
          (case sendRetransmissions c us s of
             (left, s1) \<Rightarrow>
               if left \<noteq> [] then (ARQ_Send c left giveUp cs, s1)
               else arq_batch (RetransmitTimeout (s_config s1)) cs (if giveUp then give_up c s1 else s1))
      | _ \<Rightarrow> (a, s))"

section \<open>The grace period\<close>

text \<open>What the grace period depends on; everything else a session does leaves it alone.\<close>

definition conn_view :: "session \<Rightarrow> nat option \<times> u64 \<times> bool \<times> (time \<times> u64) list \<times> config \<times> time" where
  "conn_view s = (s_conn s, s_connEpoch s, s_suspended s, s_graceTimers s, s_config s, s_now s)"

text \<open>The runs of a session as far as its transport goes, with the time since when it has been
  without one.  The epoch counter is 64 bits wide; a run with \<open>2 ^ 64\<close> changes of transport is not
  considered.\<close>

inductive life :: "session \<Rightarrow> time option \<Rightarrow> bool" where
  start: "s_conn s = Some k \<Longrightarrow> \<not> s_suspended s \<Longrightarrow> s_graceTimers s = [] \<Longrightarrow> life s None"
| lost: "life s g \<Longrightarrow> unat (s_connEpoch s) < 2 ^ 64 - 1 \<Longrightarrow>
    life (handleDisconnect f s)
      (if s_suspended (handleDisconnect f s) \<and> \<not> s_suspended s then Some (s_now s) else g)"
| resumed: "life s g \<Longrightarrow> unat (s_connEpoch s) < 2 ^ 64 - 1 \<Longrightarrow> life (resumeWithConnection k s) None"
| grace: "life s g \<Longrightarrow> life (grace_step i s) g"
| passes: "life s g \<Longrightarrow> s_now s \<le> t \<Longrightarrow> life (s\<lparr>s_now := t\<rparr>) g"
| other: "life s g \<Longrightarrow> conn_view s' = conn_view s \<Longrightarrow> life s' g"

definition life_ok :: "session \<Rightarrow> time option \<Rightarrow> bool" where
  "life_ok s g \<longleftrightarrow>
     (s_suspended s \<longleftrightarrow> s_conn s = None) \<and> (s_suspended s \<longleftrightarrow> g \<noteq> None) \<and>
     list_all (\<lambda>(t, e). e \<le> s_connEpoch s \<and>
       (e = s_connEpoch s \<longrightarrow> (\<exists>t0. g = Some t0 \<and> t = t0 + ConnectionResumeTimeout (s_config s))))
       (s_graceTimers s)"

lemma life_ok_view: "conn_view s' = conn_view s \<Longrightarrow> life_ok s' g = life_ok s g"
  by (simp add: life_ok_def conn_view_def)

lemma less_next_epoch:
  "e \<le> k \<Longrightarrow> unat k < 2 ^ 64 - 1 \<Longrightarrow> e < k + 1 \<and> e \<le> k + 1 \<and> e \<noteq> k + 1" for e k :: u64
proof -
  assume a: "e \<le> k" "unat k < 2 ^ 64 - 1"
  then have "unat (k + 1) = unat k + 1" by (simp add: unat_word_ariths)
  with a(1) show ?thesis by (auto simp: word_le_nat_alt word_less_nat_alt)
qed

lemma set_drop_nth: "set (take i q @ drop (Suc i) q) \<subseteq> set q"
  by (auto dest: in_set_takeD in_set_dropD)

lemma list_all_subset: "set xs \<subseteq> set ys \<Longrightarrow> list_all P ys \<Longrightarrow> list_all P xs"
  by (auto simp: list_all_iff)

lemma handleDisconnect_cases:
  obtains (ignored) n where "handleDisconnect f s = s\<lparr>s_goClose := n\<rparr>"
  | (suspends) k where "s_conn s = Some k" "s_conn (handleDisconnect f s) = None"
      "s_connEpoch (handleDisconnect f s) = s_connEpoch s + 1" "s_suspended (handleDisconnect f s)"
      "s_config (handleDisconnect f s) = s_config s"
      "s_graceTimers (handleDisconnect f s) =
         s_graceTimers s @ [(s_now s + ConnectionResumeTimeout (s_config s), s_connEpoch s + 1)]"
proof (cases "s_closed s \<or> \<not> AllowConnectionResumption (s_config s) \<or> s_conn s = None \<or> f \<noteq> None \<and> f \<noteq> s_conn s")
  case True
  then consider "s_closed s" | "\<not> s_closed s" "\<not> AllowConnectionResumption (s_config s)"
    | "\<not> s_closed s" "AllowConnectionResumption (s_config s)" "s_conn s = None"
    | k where "\<not> s_closed s" "AllowConnectionResumption (s_config s)" "s_conn s = Some k" "f \<noteq> None" "f \<noteq> Some k"
    by (cases "s_conn s") auto
  then have "\<exists>n. handleDisconnect f s = s\<lparr>s_goClose := n\<rparr>"
  proof cases
    case 2
    then show ?thesis by (intro exI [of _ "s_goClose s + 1"]) (simp add: handleDisconnect_def)
  qed (intro exI [of _ "s_goClose s"], simp add: handleDisconnect_def)+
  then show ?thesis using ignored by blast
next
  case False
  then obtain k where k: "s_conn s = Some k" "\<not> (f \<noteq> None \<and> f \<noteq> Some k)" by auto
  have eq: "handleDisconnect f s =
      (let s2 = (alterConn None (s\<lparr>s_conn := None, s_connEpoch := s_connEpoch s + 1\<rparr>))\<lparr>s_suspended := True,
             s_connClosed := s_connClosed s @ [k],
             s_graceTimers := s_graceTimers s @ [(s_now s + ConnectionResumeTimeout (s_config s), s_connEpoch s + 1)]\<rparr>
       in if s_redial s then s2\<lparr>s_goResume := s_goResume s + 1\<rparr> else s2)"
    unfolding handleDisconnect_def using False k
    by (simp only: if_False if_True option.case) (simp add: alterConn_def upd_ws_def Let_def)
  show ?thesis
    using k(1) by (intro suspends) (simp_all add: eq alterConn_def upd_ws_def Let_def)
qed

lemma life_inv: "life s g \<Longrightarrow> life_ok s g"
proof (induction rule: life.induct)
  case (start s k)
  then show ?case by (simp add: life_ok_def)
next
  case (lost s g f)
  show ?case
  proof (cases rule: handleDisconnect_cases [where f = f and s = s])
    case (ignored n)
    then have "conn_view (handleDisconnect f s) = conn_view s" "s_suspended (handleDisconnect f s) = s_suspended s"
      by (simp_all add: conn_view_def)
    then show ?thesis using lost.IH life_ok_view [of "handleDisconnect f s" s] by simp
  next
    case (suspends k)
    then have ns: "\<not> s_suspended s" using lost.IH by (simp add: life_ok_def)
    have "list_all (\<lambda>(t, e). e \<le> s_connEpoch s + 1 \<and> e \<noteq> s_connEpoch s + 1) (s_graceTimers s)"
      using lost.IH less_next_epoch [OF _ lost.hyps(2)] by (auto simp: life_ok_def list_all_iff)
    with suspends ns show ?thesis by (auto simp: life_ok_def list_all_iff)
  qed
next
  case (resumed s g k)
  have "list_all (\<lambda>(t, e). e \<le> s_connEpoch s + 1 \<and> e \<noteq> s_connEpoch s + 1) (s_graceTimers s)"
    using resumed.IH less_next_epoch [OF _ resumed.hyps(2)] by (auto simp: life_ok_def list_all_iff)
  then show ?case
    by (auto simp: life_ok_def list_all_iff resumeWithConnection_def alterConn_def upd_ws_def close_conn_def Let_def
        split: option.split)
next
  case (grace s g i)
  have "set (s_graceTimers (grace_step i s)) \<subseteq> set (s_graceTimers s)"
    using set_drop_nth [of i "s_graceTimers s"] by (auto simp: grace_step_def Let_def)
  moreover have "s_conn (grace_step i s) = s_conn s" "s_suspended (grace_step i s) = s_suspended s"
    "s_connEpoch (grace_step i s) = s_connEpoch s" "s_config (grace_step i s) = s_config s"
    by (simp_all add: grace_step_def Let_def)
  ultimately show ?case
    using grace.IH list_all_subset [of "s_graceTimers (grace_step i s)" "s_graceTimers s"]
    by (simp add: life_ok_def; blast)
next
  case (passes s g t)
  then show ?case by (simp add: life_ok_def; blast)
next
  case (other s g s')
  then show ?case using life_ok_view by blast
qed

text \<open>C17: A grace-period timer closes a session only when the session has been without a transport,
  without interruption, for at least \<^verbatim>\<open>ConnectionResumeTimeout\<close>: the timer of an earlier
  disconnection never closes a session that was resumed in between, even if it has lost its new
  transport again.\<close>

theorem grace_close_late:
  assumes "life s g" "s_goClose (grace_step i s) \<noteq> s_goClose s"
  shows "\<exists>t0. g = Some t0 \<and> s_suspended s \<and> s_conn s = None \<and>
    t0 + ConnectionResumeTimeout (s_config s) \<le> s_now s"
proof -
  let ?q = "s_graceTimers s"
  have i: "i < length ?q" "s_suspended s" "s_connEpoch s = snd (?q ! i)" "fst (?q ! i) \<le> s_now s"
    using assms(2) by (auto simp: grace_step_def Let_def split: if_splits)
  from i(1) have "?q ! i \<in> set ?q" by simp
  with life_inv [OF assms(1)] i show ?thesis
    by (cases "?q ! i") (auto simp: life_ok_def list_all_iff)
qed

text \<open>A session that loses its transport at time 0 and is not resumed within the timeout of 5.\<close>

definition resumable :: session where
  "resumable = sample_session\<lparr>s_config := DefaultConfig\<lparr>AllowConnectionResumption := True, ConnectionResumeTimeout := 5\<rparr>\<rparr>"

definition abandoned :: session where
  "abandoned = (handleDisconnect None resumable)\<lparr>s_now := 6\<rparr>"

lemma resumable_fields:
  "s_conn resumable = Some 0" "\<not> s_suspended resumable" "s_graceTimers resumable = []" "s_now resumable = 0"
  "s_connEpoch resumable = 0" "\<not> s_closed resumable" "\<not> s_die resumable"
  "AllowConnectionResumption (s_config resumable)" "ConnectionResumeTimeout (s_config resumable) = 5"
  by (simp_all add: resumable_def sample_session_def NewSessionWithID_def Let_def)

lemma abandoned_fields:
  "s_conn abandoned = None" "s_suspended abandoned" "s_graceTimers abandoned = [(5, 1)]" "s_now abandoned = 6"
  "s_connEpoch abandoned = 1" "\<not> s_die abandoned" "ConnectionResumeTimeout (s_config abandoned) = 5"
  using resumable_fields
  by (simp_all add: abandoned_def handleDisconnect_def alterConn_def upd_ws_def Let_def)

lemma abandoned_life: "life abandoned (Some 0)"
proof -
  have "life resumable None" using resumable_fields by (intro life.start [of _ 0])
  moreover have "s_suspended (handleDisconnect None resumable)" using abandoned_fields(2) by (simp add: abandoned_def)
  ultimately have "life (handleDisconnect None resumable) (Some 0)"
    using life.lost [of resumable None None] resumable_fields by simp
  moreover have "s_now (handleDisconnect None resumable) = 0"
    using resumable_fields by (simp add: handleDisconnect_def alterConn_def upd_ws_def Let_def)
  ultimately show ?thesis unfolding abandoned_def by (intro life.passes) simp_all
qed

theorem grace_close_late_witness:
  "s_goClose (grace_step 0 abandoned) \<noteq> s_goClose abandoned \<and>
   (\<exists>t0. Some 0 = Some t0 \<and> s_suspended abandoned \<and> s_conn abandoned = None \<and>
      t0 + ConnectionResumeTimeout (s_config abandoned) \<le> s_now abandoned)"
proof
  show 1: "s_goClose (grace_step 0 abandoned) \<noteq> s_goClose abandoned"
    using abandoned_fields by (simp add: grace_step_def Let_def)
  show "\<exists>t0. Some 0 = Some t0 \<and> s_suspended abandoned \<and> s_conn abandoned = None \<and>
      t0 + ConnectionResumeTimeout (s_config abandoned) \<le> s_now abandoned"
    using grace_close_late [OF abandoned_life 1] .
qed

section \<open>Closing a session\<close>

text \<open>What the last operations on a channel of a closing session leave: the channel itself, and the
  parts of the session that are already cleared.\<close>

definition cleared :: "session \<Rightarrow> (u32, cref) gomap \<times> (u32, pending_queue) gomap \<times> bool \<times> bool \<times> bool \<times> nat list \<times> nat list \<times> nat option \<times> config" where
  "cleared s = (s_channels s, s_pending s, s_closed s, s_die s, s_closeOnce s, s_hooksRun s, s_closeHooks s, s_conn s, s_config s)"

lemma cleared_upd [simp]:
  "cleared (upd_ch c f s) = cleared s" "cleared (upd_flow c g s) = cleared s" "cleared (upd_sn h s) = cleared s"
  "cleared (upd_ws k s) = cleared s" "cleared (upd_u u m s) = cleared s" "cleared (put_buf b s) = cleared s"
  by (simp_all add: cleared_def upd_ch_def upd_flow_def upd_sn_def upd_ws_def upd_u_def put_buf_def split: option.split)

lemma cleared_close_ring [simp]: "cleared (close_ring c s) = cleared s" "cleared (wakeReader c s) = cleared s"
  "cleared (WakeWriter c s) = cleared s"
  by (simp_all add: close_ring_def wakeReader_def WakeWriter_def)

lemma cleared_fold: "(\<And>x s. cleared (f x s) = cleared s) \<Longrightarrow> cleared (fold f xs s) = cleared s"
  by (induction xs arbitrary: s) simp_all

lemma cleared_release [simp]: "cleared (release u s) = cleared s"
  by (simp add: release_def Let_def)

lemma cleared_releaseFrame [simp]: "cleared (releaseFrame f s) = cleared s"
  by (simp add: releaseFrame_def split: option.split)

lemma cleared_control [simp]: "cleared (snd (writeControlFrameNonBlocking f s)) = cleared s"
  by (simp add: writeControlFrameNonBlocking_def push_ctrl_def)

lemma cleared_sn_OnRead [simp]: "cleared (sn_OnRead n s) = cleared s"
  by (simp add: sn_OnRead_def sn_flushUpdate_def Let_def case_prod_beta)

lemma cleared_drainRing [simp]: "cleared (drainRing c s) = cleared s"
proof -
  have "cleared (s\<lparr>s_panic := b\<rparr>) = cleared s" for b s by (simp add: cleared_def)
  then show ?thesis
    by (simp add: drainRing_def close_ring_def Let_def cleared_fold split: option.split prod.split)
qed

lemma cleared_cleanup [simp]: "cleared (cleanupReliability c s) = cleared s"
proof -
  have "cleared (leave_arq c s) = cleared s" for s
    by (simp add: leave_arq_def arqRemove_def cleared_def upd_ch_def)
  then show ?thesis by (simp add: cleanupReliability_def Let_def cleared_fold)
qed

text \<open>The flags of a channel that its last operations decide on.\<close>

definition flags :: "cref \<Rightarrow> session \<Rightarrow> bool \<times> bool \<times> bool \<times> bool \<times> bool \<times> bool \<times> bool \<times> bool" where
  "flags c s = (let ch = s_objs s c in
     (ch_readMu ch, ch_finalizeOnce ch, ch_done ch, ch_finalWait ch, ch_readDone ch, ch_writeClosed ch, ch_closed ch, ch_finQueued ch))"

lemma flags_upd [simp]:
  "flags c (upd_flow d g s) = flags c s" "flags c (upd_sn h s) = flags c s" "flags c (upd_ws k s) = flags c s"
  "flags c (upd_u u m s) = flags c s" "flags c (put_buf b s) = flags c s" "flags c (close_ring d s) = flags c s"
  "flags c (wakeReader d s) = flags c s" "flags c (WakeWriter d s) = flags c s"
  by (simp_all add: flags_def Let_def upd_ch_def upd_flow_def upd_sn_def upd_ws_def upd_u_def close_ring_def wakeReader_def WakeWriter_objs)

lemma flags_objs: "s_objs s' = s_objs s \<Longrightarrow> flags c s' = flags c s"
  by (simp add: flags_def)

lemma objs_fold_put [simp]:
  "s_objs (fold (\<lambda>x. put_buf (g x)) xs s) = s_objs s" "s_flow (fold (\<lambda>x. put_buf (g x)) xs s) = s_flow s"
  "s_channels (fold (\<lambda>x. put_buf (g x)) xs s) = s_channels s" "s_panic (fold (\<lambda>x. put_buf (g x)) xs s) = s_panic s"
  by (induction xs arbitrary: s) simp_all

lemma flags_drainRing [simp]: "flags c (tryDrainRing c s) = flags c s"
  by (auto simp: tryDrainRing_def drainRing_def close_ring_def flags_def upd_ch_def Let_def
      split: option.split prod.split)

lemma flags_cleanup [simp]: "flags c (cleanupReliability c s) = flags c s"
  by (simp add: cleanupReliability_def leave_arq_def arqRemove_def flags_def upd_ch_def Let_def)

text \<open>They touch no other channel.\<close>

lemma others_drainRing [simp]: "d \<noteq> c \<Longrightarrow> s_objs (tryDrainRing c s) d = s_objs s d"
  by (auto simp: tryDrainRing_def drainRing_def close_ring_def upd_ch_def Let_def split: option.split prod.split)

lemma others_cleanup [simp]: "d \<noteq> c \<Longrightarrow> s_objs (cleanupReliability c s) d = s_objs s d"
  by (simp add: cleanupReliability_def leave_arq_def arqRemove_def upd_ch_def Let_def)

text \<open>A channel that nobody is reading from and that is either untouched by \<^verbatim>\<open>finalize\<close> or done.\<close>

definition idle_chan :: "cref \<Rightarrow> session \<Rightarrow> bool" where
  "idle_chan c s \<longleftrightarrow>
     \<not> ch_readMu (s_objs s c) \<and> \<not> ch_finalWait (s_objs s c) \<and> (ch_finalizeOnce (s_objs s c) \<longrightarrow> ch_done (s_objs s c))"

lemma idle_flags: "flags c s' = flags c s \<Longrightarrow> idle_chan c s' = idle_chan c s"
  by (simp add: idle_chan_def flags_def Let_def)

lemma finalize_closing:
  assumes "s_channels s = []" "idle_chan c s"
  shows "cleared (finalize c s) = cleared s" "ch_done (s_objs (finalize c s) c)" "\<not> ch_finalWait (s_objs (finalize c s) c)"
    "\<not> ch_readMu (s_objs (finalize c s) c)" "ch_finalizeOnce (s_objs (finalize c s) c)"
    "ch_readDone (s_objs (finalize c s) c) = ch_readDone (s_objs s c)"
    "ch_writeClosed (s_objs (finalize c s) c) = ch_writeClosed (s_objs s c)"
    "d \<noteq> c \<Longrightarrow> s_objs (finalize c s) d = s_objs s d"
proof -
  define s1 where "s1 = upd_ch c (\<lambda>ch. ch\<lparr>ch_finalizeOnce := True, ch_closeTimer := None, ch_ackTimer := None\<rparr>) s"
  define s2 where "s2 = cleanupReliability c s1"
  have f2: "flags c s2 = flags c s1" and cl2: "cleared s2 = cleared s" by (simp_all add: s2_def s1_def)
  then have ch2: "s_channels s2 = []" using assms(1) by (simp add: cleared_def)
  have f1: "ch_readMu (s_objs s1 c) = ch_readMu (s_objs s c)" "ch_finalWait (s_objs s1 c) = ch_finalWait (s_objs s c)"
    "ch_finalizeOnce (s_objs s1 c)" "ch_readDone (s_objs s1 c) = ch_readDone (s_objs s c)"
    "ch_writeClosed (s_objs s1 c) = ch_writeClosed (s_objs s c)"
    by (simp_all add: s1_def upd_ch_def)
  have o2: "s_objs s2 d = s_objs s d" if "d \<noteq> c" for d
    using that by (simp add: s2_def s1_def upd_ch_def)
  define s3 where "s3 = (if \<not> ch_drainable (s_objs s2 c) \<or> ring_Length (ch_ring (s_objs s2 c)) = 0
                then close_ring c s2 else s2)"
  have s3: "flags c s3 = flags c s2" "cleared s3 = cleared s2" "s_channels s3 = []" "d \<noteq> c \<Longrightarrow> s_objs s3 d = s_objs s2 d" for d
    using ch2 by (simp_all add: s3_def) (simp_all add: close_ring_def upd_ch_def)
  have fin: "finalize c s = (if ch_finalizeOnce (s_objs s c) then s else upd_ch c (\<lambda>ch. ch\<lparr>ch_done := True\<rparr>) s3)"
  proof -
    have "finalize_rest c s2 = upd_ch c (\<lambda>ch. ch\<lparr>ch_done := True\<rparr>) s3"
      unfolding finalize_rest_def Let_def s3_def [symmetric] using s3(3) by (simp add: removeChannelIf_def)
    moreover have "\<not> ch_readMu (s_objs s2 c)"
      using assms(2) f1(1) f2 by (simp add: idle_chan_def flags_def Let_def)
    ultimately show ?thesis unfolding finalize_def Let_def s1_def [symmetric] s2_def [symmetric] by simp
  qed
  show "cleared (finalize c s) = cleared s" using s3(2) cl2 by (simp add: fin)
  show "ch_done (s_objs (finalize c s) c)" "\<not> ch_finalWait (s_objs (finalize c s) c)"
    "\<not> ch_readMu (s_objs (finalize c s) c)" "ch_finalizeOnce (s_objs (finalize c s) c)"
    "ch_readDone (s_objs (finalize c s) c) = ch_readDone (s_objs s c)"
    "ch_writeClosed (s_objs (finalize c s) c) = ch_writeClosed (s_objs s c)"
    using assms(2) f1 f2 s3(1) by (simp_all add: fin upd_ch_def idle_chan_def flags_def Let_def)
  show "d \<noteq> c \<Longrightarrow> s_objs (finalize c s) d = s_objs s d" using s3(4) o2 by (simp add: fin upd_ch_def)
qed

lemma cleared_try [simp]: "cleared (tryDrainRing c s) = cleared s"
  by (simp add: tryDrainRing_def)

lemma close_one_closing:
  assumes "s_channels s = []" "idle_chan c s"
  shows "cleared (close_one g c s) = cleared s" "ch_done (s_objs (close_one g c s) c)"
    "ch_readDone (s_objs (close_one g c s) c)" "ch_writeOnce (s_objs s c) = ch_writeClosed (s_objs s c) \<Longrightarrow> ch_writeClosed (s_objs (close_one g c s) c)"
    "idle_chan c (close_one g c s)" "d \<noteq> c \<Longrightarrow> s_objs (close_one g c s) d = s_objs s d"
proof -
  define t where "t = (if g then WakeWriter c (wakeReader c
      (upd_ch c (\<lambda>ch. (if ch_writeOnce ch then ch else ch\<lparr>ch_writeOnce := True, ch_writeClosed := True\<rparr>)
                               \<lparr>ch_finQueued := True, ch_drainable := True, ch_readDone := True\<rparr>) s))
    else
      let s1 = upd_ch c (\<lambda>ch. (if ch_writeOnce ch then ch else ch\<lparr>ch_writeOnce := True, ch_writeClosed := True\<rparr>)
                               \<lparr>ch_finQueued := True\<rparr>) s;
          s2 = upd_ch c (\<lambda>ch. (if ch_closeOnce ch then ch
                                else ch\<lparr>ch_closeOnce := True, ch_closed := True, ch_closeChan := True\<rparr>)
                               \<lparr>ch_readDone := True\<rparr>) s1;
          s3 = WakeWriter c (wakeReader c s2)
      in if \<not> ch_drainable (s_objs s3 c) then tryDrainRing c s3 else s3)"
  have eq: "close_one g c s = finalize c t"
    by (simp add: close_one_def peerGone_def localClose_def t_def Let_def)
  have cl: "cleared t = cleared s" by (simp add: t_def Let_def)
  then have ch: "s_channels t = []" using assms(1) by (simp add: cleared_def)
  have fl: "idle_chan c t \<and> ch_readDone (s_objs t c) \<and>
      (ch_writeOnce (s_objs s c) = ch_writeClosed (s_objs s c) \<longrightarrow> ch_writeClosed (s_objs t c))"
  proof -
    let ?u = "upd_ch c (\<lambda>ch. (if ch_closeOnce ch then ch
                                else ch\<lparr>ch_closeOnce := True, ch_closed := True, ch_closeChan := True\<rparr>)
                               \<lparr>ch_readDone := True\<rparr>) (upd_ch c (\<lambda>ch. (if ch_writeOnce ch then ch else ch\<lparr>ch_writeOnce := True, ch_writeClosed := True\<rparr>)
                               \<lparr>ch_finQueued := True\<rparr>) s)"
    have "flags c t = flags c (if g then upd_ch c (\<lambda>ch. (if ch_writeOnce ch then ch else ch\<lparr>ch_writeOnce := True, ch_writeClosed := True\<rparr>)
                               \<lparr>ch_finQueued := True, ch_drainable := True, ch_readDone := True\<rparr>) s else ?u)"
      by (simp add: t_def Let_def)
    then show ?thesis
      using assms(2) by (cases g) (auto simp: idle_chan_def flags_def Let_def upd_ch_def split: if_splits)
  qed
  have ot: "s_objs t d = s_objs s d" if "d \<noteq> c" for d
    using that by (simp add: t_def Let_def WakeWriter_objs wakeReader_def) (simp add: upd_ch_def)
  note fin = finalize_closing [OF ch, of c]
  show "cleared (close_one g c s) = cleared s" "ch_done (s_objs (close_one g c s) c)"
    "ch_readDone (s_objs (close_one g c s) c)" "ch_writeOnce (s_objs s c) = ch_writeClosed (s_objs s c) \<Longrightarrow> ch_writeClosed (s_objs (close_one g c s) c)"
    "idle_chan c (close_one g c s)" "d \<noteq> c \<Longrightarrow> s_objs (close_one g c s) d = s_objs s d"
    using fin fl cl ot by (auto simp: eq idle_chan_def)
qed

lemma idle_other: "d \<noteq> c \<Longrightarrow> s_objs s' d = s_objs s d \<Longrightarrow> idle_chan d s' = idle_chan d s"
  by (simp add: idle_chan_def)

lemma close_channels_all:
  assumes "s_channels s = []" "distinct cs" "\<forall>c \<in> set cs. idle_chan c s"
  shows "\<exists>s'. close_channels g cs hooks s = (CS_Writer hooks, s') \<and> cleared s' = cleared s \<and> ws_closed (s_writer s') \<and>
    (\<forall>c \<in> set cs. ch_done (s_objs s' c) \<and> ch_readDone (s_objs s' c)) \<and> (\<forall>d. d \<notin> set cs \<longrightarrow> s_objs s' d = s_objs s d)"
  using assms
proof (induction cs arbitrary: s)
  case Nil
  have "cleared (scheduler_Close s) = cleared s" by (simp add: scheduler_Close_def)
  then show ?case by (simp add: scheduler_Close_def upd_ws_def)
next
  case (Cons c cs)
  define s1 where "s1 = close_one g c s"
  have i: "idle_chan c s" using Cons.prems(3) by simp
  note one = close_one_closing [where g = g, OF Cons.prems(1) i, folded s1_def]
  have ch: "s_channels s1 = []" using one(1) Cons.prems(1) by (simp add: cleared_def)
  have "\<forall>d \<in> set cs. idle_chan d s1"
  proof
    fix d
    assume d: "d \<in> set cs"
    then have "d \<noteq> c" using Cons.prems(2) by auto
    with one(6) idle_other [of d c s1 s] Cons.prems(3) d show "idle_chan d s1" by simp
  qed
  with Cons.IH [OF ch] Cons.prems(2) obtain s' where
    s': "close_channels g cs hooks s1 = (CS_Writer hooks, s')" "cleared s' = cleared s1" "ws_closed (s_writer s')"
      "\<forall>c \<in> set cs. ch_done (s_objs s' c) \<and> ch_readDone (s_objs s' c)" "\<forall>d. d \<notin> set cs \<longrightarrow> s_objs s' d = s_objs s1 d"
    by auto
  have "close_channels g (c # cs) hooks s = (CS_Writer hooks, s')"
    using s'(1) one(5) by (simp add: s1_def [symmetric] idle_chan_def Let_def)
  moreover have "ch_done (s_objs s' c) \<and> ch_readDone (s_objs s' c)" using s'(5) Cons.prems(2) one(2,3) by simp
  ultimately show ?case using s' one(1,6) by auto
qed

lemma put_pending_fields [simp]:
  "cleared (put_pending m s) = cleared s" "s_objs (put_pending m s) = s_objs s"
  unfolding put_pending_def by (induction m arbitrary: s) (simp_all add: cleared_fold)

text \<open>C16: Closing a session that no reader is inside of ends every channel: \<^verbatim>\<open>Close\<close> gets to its wait for
  the writer with the session closed, its channels and its stash empty, the writer told to stop and
  every channel it had done and at the end of its stream; once the writer is through (or too slow)
  the transport is closed or being drained and every close hook has run exactly once.  Closing again
  does nothing.\<close>

theorem Close_completes:
  assumes "\<not> s_closeOnce s" "distinct (map snd (s_channels s))" "\<forall>c \<in> snd ` set (s_channels s). idle_chan c s"
  shows "\<exists>s' s''. session_Close s = (CS_Writer (s_closeHooks s), s') \<and>
    s_closed s' \<and> s_die s' \<and> s_channels s' = [] \<and> s_pending s' = [] \<and> ws_closed (s_writer s') \<and>
    (\<forall>c \<in> snd ` set (s_channels s). ch_done (s_objs s' c) \<and> ch_readDone (s_objs s' c)) \<and>
    Close_resume cw True (CS_Writer (s_closeHooks s)) s' = (CS_Done, s'') \<and>
    s_hooksRun s'' = s_hooksRun s @ s_closeHooks s \<and> s_closeHooks s'' = [] \<and>
    (\<forall>k. s_conn s = Some k \<longrightarrow> k \<in> set (s_connClosed s'') \<or> k \<in> fst ` set (s_goLinger s'')) \<and>
    session_Close s'' = (CS_Done, s'')"
proof -
  define s0 where "s0 = put_pending (s_pending s)
    (s\<lparr>s_closeOnce := True, s_closed := True, s_closeHooks := [], s_die := True, s_channels := []\<rparr>)"
  define s1 where "s1 = s0\<lparr>s_pending := [], s_closedIDs := [], s_pendingBytes := 0, s_arqSet := []\<rparr>"
  have b: "close_begin s = (map snd (s_channels s), s_closeHooks s, s1)"
    by (simp add: close_begin_def Let_def s1_def s0_def)
  have "cleared s0 = ([], s_pending s, True, True, True, s_hooksRun s, [], s_conn s, s_config s)"
    unfolding s0_def put_pending_fields by (simp add: cleared_def)
  then have c1: "cleared s1 = ([], [], True, True, True, s_hooksRun s, [], s_conn s, s_config s)"
    by (simp add: s1_def cleared_def)
  have o1: "s_objs s1 = s_objs s" by (simp add: s1_def s0_def)
  then have "\<forall>c \<in> set (map snd (s_channels s)). idle_chan c s1" using assms(3) by (simp add: idle_chan_def)
  moreover have "s_channels s1 = []" using c1 by (simp add: cleared_def)
  ultimately obtain s' where
    s': "close_channels (s_goAwayRecv s1) (map snd (s_channels s)) (s_closeHooks s) s1 = (CS_Writer (s_closeHooks s), s')"
      "cleared s' = cleared s1" "ws_closed (s_writer s')"
      "\<forall>c \<in> set (map snd (s_channels s)). ch_done (s_objs s' c) \<and> ch_readDone (s_objs s' c)"
    using close_channels_all [OF _ assms(2), of s1 "s_goAwayRecv s1" "s_closeHooks s"] by blast
  have "session_Close s = (CS_Writer (s_closeHooks s), s')"
    using assms(1) b s'(1) by (simp add: session_Close_def)
  moreover have "s_closed s'" "s_die s'" "s_channels s' = []" "s_pending s' = []" "s_conn s' = s_conn s"
    "s_closeOnce s'" "s_hooksRun s' = s_hooksRun s" "s_closeHooks s' = []"
    using s'(2) c1 by (simp_all add: cleared_def)
  moreover define s'' where "s'' = close_finish cw (s_closeHooks s) s'"
  moreover have "s_hooksRun s'' = s_hooksRun s' @ s_closeHooks s" "s_closeHooks s'' = s_closeHooks s'"
    "s_closeOnce s'' = s_closeOnce s'"
    "s_conn s' = Some k \<Longrightarrow> k \<in> set (s_connClosed s'') \<or> k \<in> fst ` set (s_goLinger s'')" for k
    by (simp_all add: s''_def close_finish_def lingerClose_def close_conn_def Let_def split: option.split)
  moreover from this(3) have "session_Close s'' = (CS_Done, s'')" if "s_closeOnce s'"
    using that by (simp add: session_Close_def)
  ultimately show ?thesis
    using s'(3,4) by (intro exI [of _ s'] exI [of _ s'']) (simp add: Close_resume_def)
qed

theorem Close_completes_witness:
  "\<exists>s' s''. session_Close sample_session = (CS_Writer (s_closeHooks sample_session), s') \<and>
     ch_done (s_objs s' 0) \<and> ch_readDone (s_objs s' 0) \<and> s_channels s' = [] \<and>
     Close_resume (\<lambda>k. None) True (CS_Writer (s_closeHooks sample_session)) s' = (CS_Done, s'') \<and>
     session_Close s'' = (CS_Done, s'')"
proof -
  have "\<not> s_closeOnce sample_session" "s_channels sample_session = [(1, 0)]"
    by (simp_all add: sample_session_def NewSessionWithID_def Let_def)
  then show ?thesis
    using Close_completes [of sample_session "\<lambda>k. None"] sample_credits(8)
    by (auto simp: idle_chan_def blank_channel_def)
qed

end
