(* ===== verification/Dispatch.thy ===== *)
theory Dispatch
  imports Labels Lifecycle
begin

text \<open>
  What a session does with the frames it receives (\<^verbatim>\<open>src/session.go\<close>): \<^verbatim>\<open>OpenChannel\<close> with
  \<^verbatim>\<open>deliverPending\<close>, \<^verbatim>\<open>getChannel\<close>, and the bodies of \<^verbatim>\<open>streamReadLoop\<close> and \<^verbatim>\<open>datagramReadLoop\<close>, frame by
  frame.  A reader that finds \<^verbatim>\<open>feedMu\<close> taken waits; so does one that needs more bytes.
\<close>

section \<open>Opening a channel\<close>

definition getChannel :: "u32 \<Rightarrow> session \<Rightarrow> cref option" where
  "getChannel cid s = map_of (s_channels s) cid"

text \<open>A DATA frame for a channel this side has: \<^verbatim>\<open>feedReliable\<close>, or \<^verbatim>\<open>feed\<close> with its error path.\<close>

definition feed_data :: "cref \<Rightarrow> u64 \<Rightarrow> pbuf \<Rightarrow> u32 \<Rightarrow> session \<Rightarrow> session" where
  "feed_data c offset p len s =
     (if Reliability (s_config s) then feedReliable offset p len c s
      else
        let (e, s1) = feed p c s
        in if e \<noteq> None then creditDiscarded len (put_buf (Some (fst p)) s1) else s1)"

definition feed_fin :: "cref \<Rightarrow> u64 \<Rightarrow> session \<Rightarrow> session" where
  "feed_fin c offset s =
     (if Reliability (s_config s) then handleFinReliable offset c s else remoteClose c s)"

definition deliver_one :: "cref \<Rightarrow> pending_frame \<Rightarrow> session \<Rightarrow> session" where
  "deliver_one c f s =
     (if pf_flag f = FLG_DATA then
        (case pf_pBuf f of None \<Rightarrow> s\<lparr>s_panic := True\<rparr> | Some p \<Rightarrow> feed_data c (pf_offset f) p (pf_length f) s)
      else if pf_flag f = FLG_FIN then feed_fin c (pf_offset f) s
      else if pf_flag f = FLG_RST then peerReset c s
      else s)"

definition deliverPending :: "cref \<Rightarrow> pending_frame list \<Rightarrow> session \<Rightarrow> session" where
  "deliverPending c fs s = fold (deliver_one c) fs s"

text \<open>\<^verbatim>\<open>OpenChannel\<close> up to the unlocking of \<^verbatim>\<open>channelsMu\<close>; \<open>OC_Deliver\<close> goes on with the early frames under
  \<^verbatim>\<open>feedMu\<close>.\<close>

datatype open_state = OC_Err go_error | OC_Deliver cref "pending_frame list" | OC_Done cref

definition take_pending :: "u32 \<Rightarrow> session \<Rightarrow> pending_frame list option \<times> session" where
  "take_pending cid s =
     (case map_of (s_pending s) cid of
        None \<Rightarrow> (None, s)
      | Some q \<Rightarrow>
          if s_now s > pq_expires q then (None, releasePendingLocked cid q s)
          else (Some (pq_frames q), s\<lparr>s_pendingBytes := s_pendingBytes s - pq_bytes q,
                                     s_pending := AList.delete cid (s_pending s)\<rparr>))"

definition OpenChannel :: "label \<Rightarrow> session \<Rightarrow> open_state \<times> session" where
  "OpenChannel lab s =
     (if s_closed s then (OC_Err ErrSessionClosed, s)
      else
        case stringToUint32 lab of
          (cid, False) \<Rightarrow> (OC_Err (ErrText ''channel name has to be 1 to 6 chars long [a-z, A-Z, 0-9]''), s)
        | (cid, True) \<Rightarrow>
            if map_of (s_channels s) cid \<noteq> None
            then (OC_Err (ErrText ''channel with this label and ID already exists''), s)
            else
              let (c, s1) = newChannel cid s;
                  s2 = s1\<lparr>s_closedIDs := AList.delete cid (s_closedIDs s1)\<rparr>;
                  (frames, s3) = take_pending cid s2;
                  s4 = (if frames \<noteq> None then upd_ch c (\<lambda>ch. ch\<lparr>ch_feedMu := True\<rparr>) s3 else s3);
                  s5 = s4\<lparr>s_channels := AList.update cid c (s_channels s4)\<rparr>
              in case frames of None \<Rightarrow> (OC_Done c, s5) | Some fs \<Rightarrow> (OC_Deliver c fs, s5))"

definition open_step :: "open_state \<Rightarrow> session \<Rightarrow> open_state \<times> session" where
  "open_step st s =
     (case st of
        OC_Deliver c (f # fs) \<Rightarrow> (OC_Deliver c fs, deliver_one c f s)
      | OC_Deliver c [] \<Rightarrow> (OC_Done c, upd_ch c (\<lambda>ch. ch\<lparr>ch_feedMu := False\<rparr>) s)
      | _ \<Rightarrow> (st, s))"

section \<open>Frames of both kinds of transport\<close>

definition on_ack :: "header \<Rightarrow> session \<Rightarrow> session" where
  "on_ack h s =
     (if Reliability (s_config s) then
        case getChannel (hd_chID h) s of None \<Rightarrow> s | Some c \<Rightarrow> onAck (hd_offset h) c s
      else s)"

definition on_upd :: "header \<Rightarrow> session \<Rightarrow> session" where
  "on_upd h s =
     (if hd_chID h = 0 then sn_AddCredits (hd_length h) s
      else case getChannel (hd_chID h) s of None \<Rightarrow> s | Some c \<Rightarrow> sf_AddCredits c (hd_length h) s)"

definition stash_fin :: "header \<Rightarrow> session \<Rightarrow> session" where
  "stash_fin h s =
     (if s_closed s then s
      else
        let (late, s1) = recentlyClosedLocked (hd_chID h) s
        in if late then s1
           else snd (stashLocked (hd_chID h)
             \<lparr>pf_flag = FLG_FIN, pf_offset = hd_offset h, pf_pBuf = None, pf_length = 0\<rparr> s1))"

definition stash_rst :: "header \<Rightarrow> session \<Rightarrow> session" where
  "stash_rst h s =
     (if s_closed s \<or> map_of (s_pending s) (hd_chID h) = None then s
      else snd (stashLocked (hd_chID h)
             \<lparr>pf_flag = FLG_RST, pf_offset = hd_offset h, pf_pBuf = None, pf_length = 0\<rparr> s))"

definition on_rst :: "header \<Rightarrow> session \<Rightarrow> session" where
  "on_rst h s = (case getChannel (hd_chID h) s of None \<Rightarrow> stash_rst h s | Some c \<Rightarrow> peerReset c s)"

definition on_ping :: "session \<Rightarrow> session" where
  "on_ping s = offer_ctrl (zero_frame\<lparr>wf_flag := FLG_PONG\<rparr>) s"

text \<open>Where the reader stands after a frame: at the next header, inside a payload, waiting for
  \<^verbatim>\<open>feedMu\<close> with a frame it has read, ended, or ended in \<^verbatim>\<open>Close\<close>.\<close>

datatype reader =
    RD_Header
  | RD_Payload header bref
  | RD_Feed cref header pbuf
  | RD_Fin cref header
  | RD_Ended
  | RD_Closing close_state

definition closing :: "session \<Rightarrow> reader \<times> session" where
  "closing s = (case session_Close s of (cs, s1) \<Rightarrow> (RD_Closing cs, s1))"

definition on_goaway :: "session \<Rightarrow> reader \<times> session" where
  "on_goaway s = closing (s\<lparr>s_goAwayRecv := True\<rparr>)"

definition feed_or_wait :: "cref \<Rightarrow> header \<Rightarrow> pbuf \<Rightarrow> session \<Rightarrow> reader \<times> session" where
  "feed_or_wait c h p s =
     (if ch_feedMu (s_objs s c) then (RD_Feed c h p, s)
      else (RD_Header, feed_data c (hd_offset h) p (hd_length h) s))"

definition fin_or_wait :: "cref \<Rightarrow> header \<Rightarrow> session \<Rightarrow> reader \<times> session" where
  "fin_or_wait c h s =
     (if ch_feedMu (s_objs s c) then (RD_Fin c h, s) else (RD_Header, feed_fin c (hd_offset h) s))"

definition on_fin :: "header \<Rightarrow> session \<Rightarrow> reader \<times> session" where
  "on_fin h s =
     (case getChannel (hd_chID h) s of
        None \<Rightarrow> (RD_Header, stash_fin h s)
      | Some c \<Rightarrow> fin_or_wait c h s)"

section \<open>Streams\<close>

text \<open>The DATA frame \<open>p\<close> once it has been read.\<close>

definition unknown_data :: "header \<Rightarrow> pbuf \<Rightarrow> session \<Rightarrow> reader \<times> session" where
  "unknown_data h p s =
     (let len = hd_length h; cid = hd_chID h;
          (late, s1) = (if s_closed s then (False, s) else recentlyClosedLocked cid s);
          (stashed, s2) =
            (if s_closed s \<or> late then (False, s1)
             else stashLocked cid \<lparr>pf_flag = FLG_DATA, pf_offset = hd_offset h, pf_pBuf = Some p, pf_length = len\<rparr> s1)
      in if stashed then (RD_Header, s2)
         else
           let s3 = creditDiscarded len (put_buf (Some (fst p)) s2) in
           if late then (RD_Header, sendReset cid 0 s3)
           else
             let s4 = s3\<lparr>s_unknownChannelErrors := s_unknownChannelErrors s3 + 1\<rparr> in
             if s_unknownChannelErrors s4 > MaxUnknownChannelErrors (s_config s4) then closing s4
             else (RD_Header, s4))"

definition stream_data :: "header \<Rightarrow> pbuf \<Rightarrow> session \<Rightarrow> reader \<times> session" where
  "stream_data h p s =
     (case getChannel (hd_chID h) s of
        None \<Rightarrow> unknown_data h p s
      | Some c \<Rightarrow> feed_or_wait c h p s)"

definition stream_header :: "nat \<Rightarrow> header \<Rightarrow> session \<Rightarrow> reader \<times> session" where
  "stream_header conn h s =
     (let flag = hd_flag h; n = hd_length h in
      if flag = FLG_DATA then
        if n = 0 then (RD_Header, s)
        else if n > MaxFrameDataSize (s_config s) \<or> unat n > MaxAllocSize
        then (RD_Ended, handleDisconnect (Some conn) s)
        else (case get_buf (unat n) s of
                (None, s1) \<Rightarrow> (RD_Ended, s1\<lparr>s_panic := True\<rparr>)
              | (Some a, s1) \<Rightarrow> (RD_Payload h a, s1))
      else if flag = FLG_ACK then (RD_Header, on_ack h s)
      else if flag = FLG_UPD then (RD_Header, on_upd h s)
      else if flag = FLG_FIN then on_fin h s
      else if flag = FLG_RST then
        if n \<noteq> 0 then (RD_Ended, handleDisconnect (Some conn) s) else (RD_Header, on_rst h s)
      else if flag = FLG_PING then (RD_Header, on_ping s)
      else if flag = FLG_GOAWAY then on_goaway s
      else if flag = FLG_PONG \<or> flag = FLG_NOOP then (RD_Header, s)
      else (RD_Ended, handleDisconnect (Some conn) s))"

text \<open>One step of the loop on the bytes \<open>b\<close> that have arrived and not been read; \<open>broken\<close>: no more will
  come.  The same reader with the same bytes is a reader that waits.\<close>

definition stream_step :: "nat \<Rightarrow> bool \<Rightarrow> reader \<Rightarrow> bytes \<Rightarrow> session \<Rightarrow> reader \<times> bytes \<times> session" where
  "stream_step conn broken rd b s =
     (case rd of
        RD_Header \<Rightarrow>
          if s_closed s then (RD_Ended, b, s)
          else if length b < 17 then
            if broken then (RD_Ended, [], handleDisconnect (Some conn) s) else (rd, b, s)
          else
            (case stream_header conn (read_header (take 17 b)) (s\<lparr>s_rxActivity := True\<rparr>) of
               (rd', s1) \<Rightarrow> (rd', drop 17 b, s1))
      | RD_Payload h a \<Rightarrow>
          let n = unat (hd_length h) in
          if length b < n then
            if broken then (RD_Ended, [], handleDisconnect (Some conn) (put_buf (Some a) s)) else (rd, b, s)
          else (case stream_data h (a, take n b) s of (rd', s1) \<Rightarrow> (rd', drop n b, s1))
      | RD_Feed c h p \<Rightarrow> (case feed_or_wait c h p s of (rd', s1) \<Rightarrow> (rd', b, s1))
      | RD_Fin c h \<Rightarrow> (case fin_or_wait c h s of (rd', s1) \<Rightarrow> (rd', b, s1))
      | _ \<Rightarrow> (rd, b, s))"

section \<open>Datagrams\<close>

text \<open>The loop over the frames of the datagram \<open>data\<close> in the buffer \<open>pBuf\<close> (\<open>None\<close> once a channel owns it).
  A frame for a channel whose \<^verbatim>\<open>feedMu\<close> is taken makes the reader wait at its offset.\<close>

datatype dgram_state =
    DG_Next
  | DG_Wait cref nat
  | DG_Ended
  | DG_Closing close_state
  | DG_Panic

definition feed_whole :: "cref \<Rightarrow> header \<Rightarrow> bytes \<Rightarrow> bref \<Rightarrow> session \<Rightarrow> session" where
  "feed_whole c h pl a s =
     (if Reliability (s_config s) then feedReliablePayload (hd_offset h) pl (Some a) (hd_length h) c s
      else snd (feedPayload pl (Some a) c s))"

definition feed_copy :: "cref \<Rightarrow> header \<Rightarrow> bytes \<Rightarrow> session \<Rightarrow> session option" where
  "feed_copy c h pl s =
     (case get_buf (unat (hd_length h)) s of
        (None, s1) \<Rightarrow> None
      | (Some a, s1) \<Rightarrow>
          Some (if Reliability (s_config s1) then feedReliable (hd_offset h) (a, pl) (hd_length h) c s1
                else snd (feed (a, pl) c s1)))"

definition dgram_frame ::
  "nat \<Rightarrow> bytes \<Rightarrow> nat \<Rightarrow> header \<Rightarrow> bref option \<Rightarrow> session \<Rightarrow> dgram_state \<times> bref option \<times> session" where
  "dgram_frame conn data off h pBuf s =
     (let flag = hd_flag h; frameEnd = off + 17 + unat (hd_length h) in
      if flag = FLG_DATA then
        if hd_length h = 0 then (DG_Next, pBuf, s)
        else
          (case getChannel (hd_chID h) s of
             None \<Rightarrow> (DG_Next, pBuf, creditDiscarded (hd_length h) s)
           | Some c \<Rightarrow>
               if ch_feedMu (s_objs s c) then (DG_Wait c off, pBuf, s)
               else if off = 0 \<and> frameEnd = length data then
                 (case pBuf of
                    None \<Rightarrow> (DG_Panic, None, s\<lparr>s_panic := True\<rparr>)
                  | Some a \<Rightarrow> (DG_Next, None, feed_whole c h (slice (off + 17) frameEnd data) a s))
               else
                 (case feed_copy c h (slice (off + 17) frameEnd data) s of
                    None \<Rightarrow> (DG_Panic, pBuf, s\<lparr>s_panic := True\<rparr>)
                  | Some s1 \<Rightarrow> (DG_Next, pBuf, s1)))
      else if flag = FLG_ACK then (DG_Next, pBuf, on_ack h s)
      else if flag = FLG_UPD then (DG_Next, pBuf, on_upd h s)
      else if flag = FLG_FIN then
        (case on_fin h s of
           (RD_Fin c _, s1) \<Rightarrow> (DG_Wait c off, pBuf, s1)
         | (_, s1) \<Rightarrow> (DG_Next, pBuf, s1))
      else if flag = FLG_RST then (DG_Next, pBuf, on_rst h s)
      else if flag = FLG_PING then (DG_Next, pBuf, on_ping s)
      else if flag = FLG_GOAWAY then
        (case session_Close (s\<lparr>s_goAwayRecv := True\<rparr>) of (cs, s1) \<Rightarrow> (DG_Closing cs, pBuf, s1))
      else if flag = FLG_PONG \<or> flag = FLG_NOOP then (DG_Next, pBuf, s)
      else (DG_Ended, pBuf, handleDisconnect (Some conn) s))"

function dgram_loop ::
  "nat \<Rightarrow> bytes \<Rightarrow> nat \<Rightarrow> bref option \<Rightarrow> session \<Rightarrow> dgram_state \<times> bref option \<times> session" where
  "dgram_loop conn data off pBuf s =
     (if off + 17 \<le> length data then
        let h = read_header (slice off (off + 17) data); frameEnd = off + 17 + unat (hd_length h) in
        if frameEnd > length data then (DG_Next, None, put_buf pBuf s)
        else
          (case dgram_frame conn data off h pBuf s of
             (DG_Next, pBuf1, s1) \<Rightarrow> dgram_loop conn data frameEnd pBuf1 s1
           | r \<Rightarrow> r)
      else (DG_Next, None, put_buf pBuf s))"
  by pat_completeness auto
termination by (relation "measure (\<lambda>(conn, data, off, p, s). length data - off)") auto

declare dgram_loop.simps [simp del]

text \<open>One turn of \<^verbatim>\<open>datagramReadLoop\<close>; \<open>None\<close> is a failed \<^verbatim>\<open>ReadPacket\<close>.\<close>

definition dgram_step :: "nat \<Rightarrow> pbuf option \<Rightarrow> session \<Rightarrow> dgram_state \<times> bref option \<times> session" where
  "dgram_step conn pkt s =
     (if s_closed s then (DG_Ended, None, s)
      else
        case pkt of
          None \<Rightarrow> (DG_Ended, None, handleDisconnect (Some conn) s)
        | Some (a, data) \<Rightarrow> dgram_loop conn data 0 (Some a) (s\<lparr>s_rxActivity := True\<rparr>))"

end
