(* ===== verification/Reader.thy ===== *)
theory Reader
  imports Dispatch
begin

text \<open>
  The receiving side end to end: \<^verbatim>\<open>streamReadLoop\<close> over the bytes a writer produced handles exactly the
  writer's frames, one after the other, and what \<^verbatim>\<open>Write\<close> took on one side arrives in the channel of
  the other, with and without the reliability layer.  Early frames come before newer ones.
\<close>

section \<open>From bytes to frames\<close>

text \<open>The loop from \<open>rd\<close> on until it waits or has ended.\<close>

function stream_run :: "nat \<Rightarrow> reader \<Rightarrow> bytes \<Rightarrow> session \<Rightarrow> reader \<times> bytes \<times> session" where
  "stream_run conn rd b s =
     (let r = stream_step conn False rd b s in
      if length (fst (snd r)) < length b then stream_run conn (fst r) (fst (snd r)) (snd (snd r)) else r)"
  by pat_completeness auto
termination by (relation "measure (\<lambda>(conn, rd, b, s). length b)") (auto simp: case_prod_beta)

declare stream_run.simps [simp del]

text \<open>What the loop does for one frame with its payload, seen as a whole.\<close>

definition handle_frame :: "nat \<Rightarrow> header \<times> bytes \<Rightarrow> session \<Rightarrow> reader \<times> session" where
  "handle_frame conn hp s =
     (let h = fst hp; s1 = s\<lparr>s_rxActivity := True\<rparr> in
      if hd_flag h = FLG_DATA \<and> hd_length h \<noteq> 0 then
        case get_buf (unat (hd_length h)) s1 of
          (None, s2) \<Rightarrow> (RD_Ended, s2\<lparr>s_panic := True\<rparr>)
        | (Some a, s2) \<Rightarrow> stream_data h (a, snd hp) s2
      else stream_header conn h s1)"

lemma header_of_simps [simp]:
  "hd_flag (header_of f) = wf_flag f" "hd_length (header_of f) = wf_length f"
  "hd_chID (header_of f) = wf_chID f" "hd_offset (header_of f) = wf_offset f"
  by (simp_all add: header_of_def)

lemma frame_bytes_split:
  "take 17 (frame_bytes f @ rest) = putHeader f" "drop 17 (frame_bytes f @ rest) = payload f @ rest"
  "17 \<le> length (frame_bytes f @ rest)" "read_header (putHeader f) = header_of f"
  by (simp_all add: frame_bytes_def putHeader_def read_put_header)

lemma stream_step_header:
  assumes "\<not> s_closed s"
  shows "stream_step conn False RD_Header (frame_bytes f @ rest) s =
    (case stream_header conn (header_of f) (s\<lparr>s_rxActivity := True\<rparr>) of (rd, s1) \<Rightarrow> (rd, payload f @ rest, s1))"
  using assms unfolding stream_step_def reader.case frame_bytes_split
  by (simp add: frame_bytes_def putHeader_def)

lemma stream_header_data:
  "hd_flag h = FLG_DATA \<Longrightarrow> hd_length h \<noteq> 0 \<Longrightarrow> hd_length h \<le> MaxFrameDataSize (s_config s) \<Longrightarrow>
   unat (hd_length h) \<le> MaxAllocSize \<Longrightarrow> get_buf (unat (hd_length h)) s = (Some a, s1) \<Longrightarrow>
   stream_header conn h s = (RD_Payload h a, s1)"
  unfolding stream_header_def Let_def by (simp only: if_True) (simp add: not_less)

lemma stream_run_frame:
  assumes "wf_frame (MaxFrameDataSize (s_config s)) f" "\<not> s_closed s"
  shows "stream_run conn RD_Header (frame_bytes f @ rest) s =
    (case handle_frame conn (header_of f, payload f) s of (rd, s1) \<Rightarrow> stream_run conn rd rest s1)"
proof (cases "wf_flag f = FLG_DATA")
  case True
  let ?s1 = "s\<lparr>s_rxActivity := True\<rparr>" and ?n = "unat (wf_length f)"
  have n: "0 < wf_length f" "wf_length f \<le> MaxFrameDataSize (s_config s)" "?n \<le> MaxAllocSize"
    "length (payload f) = ?n" using assms(1) True by (simp_all add: wf_frame_def)
  then have pos: "0 < ?n" by (simp add: word_less_nat_alt)
  obtain a s2 where g: "get_buf ?n ?s1 = (Some a, s2)" using n(3) pos by (simp add: get_buf_def)
  have "stream_step conn False RD_Header (frame_bytes f @ rest) s = (RD_Payload (header_of f) a, payload f @ rest, s2)"
    using True n g pos stream_header_data [of "header_of f" ?s1 a s2 conn]
    by (simp add: stream_step_header [OF assms(2)] word_gt_0)
  then have 1: "stream_run conn RD_Header (frame_bytes f @ rest) s = stream_run conn (RD_Payload (header_of f) a) (payload f @ rest) s2"
    by (subst stream_run.simps) (simp add: Let_def frame_bytes_def putHeader_def)
  obtain rd s3 where d: "stream_data (header_of f) (a, payload f) s2 = (rd, s3)" by (metis surj_pair)
  have "stream_step conn False (RD_Payload (header_of f) a) (payload f @ rest) s2 = (rd, rest, s3)"
    using d n(4) by (simp add: stream_step_def Let_def)
  then have 2: "stream_run conn (RD_Payload (header_of f) a) (payload f @ rest) s2 = stream_run conn rd rest s3"
    using n(4) pos by (subst stream_run.simps) (simp add: Let_def)
  have "handle_frame conn (header_of f, payload f) s = (rd, s3)"
    using True n(1) g d by (simp add: handle_frame_def Let_def word_gt_0)
  with 1 2 show ?thesis by simp
next
  case False
  then have p: "payload f = []" using assms(1) by (simp add: wf_frame_def)
  obtain rd s1 where d: "stream_header conn (header_of f) (s\<lparr>s_rxActivity := True\<rparr>) = (rd, s1)" by (metis surj_pair)
  have "stream_step conn False RD_Header (frame_bytes f @ rest) s = (rd, rest, s1)"
    using p d by (simp add: stream_step_header [OF assms(2)])
  then have "stream_run conn RD_Header (frame_bytes f @ rest) s = stream_run conn rd rest s1"
    by (subst stream_run.simps) (simp add: Let_def frame_bytes_def putHeader_def)
  then show ?thesis using False d by (simp add: handle_frame_def)
qed

section \<open>Feeding leaves the session's doors alone\<close>

definition gate :: "cref \<Rightarrow> session \<Rightarrow> (u32, cref) gomap \<times> bool \<times> bool \<times> bool" where
  "gate c s = (s_channels s, ch_feedMu (s_objs s c), ch_hasFin (s_objs s c), ch_readMu (s_objs s c))"

lemma gate_simps [simp]:
  "gate c (put_buf h s) = gate c s" "gate c (snd (writeControlFrameNonBlocking f s)) = gate c s"
  "gate c (s\<lparr>s_rxActivity := b\<rparr>) = gate c s" "gate c (snd (get_buf n s)) = gate c s"
  "gate c (upd_flow d g s) = gate c s" "gate c (upd_sn k s) = gate c s" "gate c (wakeReader d s) = gate c s"
  "gate c (offer_ctrl f s) = gate c s"
  by (simp_all add: gate_def get_buf_def upd_flow_def upd_sn_def upd_ch_def wakeReader_def offer_ctrl_def push_ctrl_def upd_ws_def)

lemma gate_upd:
  "(\<And>ch. ch_feedMu (f ch) = ch_feedMu ch) \<Longrightarrow> (\<And>ch. ch_hasFin (f ch) = ch_hasFin ch) \<Longrightarrow>
   (\<And>ch. ch_readMu (f ch) = ch_readMu ch) \<Longrightarrow> gate c (upd_ch d f s) = gate c s"
  by (simp add: gate_def upd_ch_def)

lemma gate_sn_OnRead [simp]: "gate c (sn_OnRead n s) = gate c s"
  by (simp add: sn_OnRead_def sn_flushUpdate_def Let_def case_prod_beta)

lemma gate_small [simp]:
  "gate c (wake_if_waiting d s) = gate c s" "gate c (creditSession n s) = gate c s" "gate c (sendReset i off s) = gate c s"
  "gate c (creditDiscarded n s) = gate c s"
  by (simp_all add: wake_if_waiting_def creditSession_def sendReset_def creditDiscarded_def)

lemma gate_resetPeer [simp]: "gate c (resetPeer b d s) = gate c s"
  by (simp add: resetPeer_def Let_def gate_upd)

lemma gate_ring_push [simp]: "gate c (ring_push d h e s) = gate c s"
proof -
  have "gate c (s\<lparr>s_panic := b\<rparr>) = gate c s" for b by (simp add: gate_def)
  then show ?thesis by (simp add: ring_push_def gate_upd split: outcome.split prod.split)
qed

lemma gate_feed [simp]: "gate c (snd (feedPayload p h d s)) = gate c s" "gate c (snd (feed q d s)) = gate c s"
  by (simp_all add: feedPayload_def feed_def feed_closed_def)

lemma gate_sendAck [simp]: "gate c (sendAck k d s) = gate c s"
proof -
  let ?s1 = "upd_ch d (\<lambda>ch. ch\<lparr>ch_ackTimer := None, ch_ackOffset := k\<rparr>) s"
  have 1: "gate c ?s1 = gate c s" by (simp add: gate_upd)
  show ?thesis unfolding sendAck_def Let_def
    by (simp add: case_prod_beta gate_upd 1)
qed

lemma gate_ack_now [simp]: "gate c (ack_now b n d s) = gate c s"
  by (simp add: ack_now_def scheduleDelayedAck_def Let_def gate_upd)

lemma gate_reorder_loop [simp]: "gate c (reorder_loop k d s) = gate c s"
  by (induction k arbitrary: s) (simp_all add: gate_upd Let_def case_prod_beta split: option.split)

lemma gate_feedReliablePayload:
  assumes "\<not> ch_hasFin (s_objs s c)"
  shows "gate c (feedReliablePayload off d h n c s) = gate c s"
proof -
  define s3 where "s3 = upd_ch c (\<lambda>ch. ch\<lparr>ch_readOffset := ch_readOffset ch + ucast n\<rparr>)
    (if fst (feedPayload d h c s) \<noteq> None then resetPeer False c (creditSession n (snd (feedPayload d h c s)))
     else snd (feedPayload d h c s))"
  define s4 where "s4 = reorder_loop (case ch_reorderMap (s_objs s3 c) of None \<Rightarrow> 0 | Some m \<Rightarrow> length m) c s3"
  have g: "gate c s4 = gate c s" by (simp add: s4_def s3_def gate_upd)
  then have nf: "\<not> ch_hasFin (s_objs s4 c)" using assms by (simp add: gate_def)
  have "feed_in_order d h n c s = (False, ack_now False n c s4)"
    unfolding feed_in_order_def Let_def case_prod_beta s3_def [symmetric] s4_def [symmetric] using nf by simp
  moreover have "gate c (feed_early off d h n m c s) = gate c s" for m
    by (simp add: feed_early_def Let_def gate_upd)
  ultimately show ?thesis
    using g by (simp add: feedReliablePayload_def Let_def case_prod_beta split: option.split)
qed

section \<open>A DATA frame for an open channel\<close>

definition serves :: "u32 \<Rightarrow> cref \<Rightarrow> session \<Rightarrow> bool" where
  "serves k c s \<longleftrightarrow> getChannel k s = Some c \<and> \<not> ch_feedMu (s_objs s c)"

lemma serves_gate: "gate c s' = gate c s \<Longrightarrow> serves k c s' = serves k c s"
  by (simp add: serves_def gate_def getChannel_def)

lemma feed_open:
  assumes "rx_open c s"
  shows "\<exists>s'. feed p c s = (None, s') \<and> rx_open c s' \<and> s_config s' = s_config s \<and>
    items c s' = items c s @ [\<lparr>sbuf = Some (snd p), shead = Some (fst p)\<rparr>]"
  using feedPayload_open [OF assms, of "snd p" "Some (fst p)"]
  by (auto simp: feedPayload_def feed_def split: if_splits)

lemma handle_data:
  assumes "serves (wf_chID f) c s" "wf_frame (MaxFrameDataSize (s_config s)) f" "wf_flag f = FLG_DATA"
  shows "\<exists>a. handle_frame conn (header_of f, payload f) s =
    (RD_Header, feed_data c (wf_offset f) (a, payload f) (wf_length f)
       (s\<lparr>s_rxActivity := True, s_nextB := Suc (s_nextB s)\<rparr>))"
proof -
  have n: "wf_length f \<noteq> 0" "0 < unat (wf_length f)" "unat (wf_length f) \<le> MaxAllocSize"
    using assms(2,3) by (auto simp: wf_frame_def word_less_nat_alt)
  let ?t = "s\<lparr>s_rxActivity := True, s_nextB := Suc (s_nextB s)\<rparr>"
  have "stream_data (header_of f) (s_nextB s, payload f) ?t =
      (RD_Header, feed_data c (wf_offset f) (s_nextB s, payload f) (wf_length f) ?t)"
    using assms(1) by (simp add: stream_data_def feed_or_wait_def serves_def getChannel_def)
  then show ?thesis
    using assms(3) n by (intro exI [of _ "s_nextB s"]) (simp add: handle_frame_def get_buf_def Let_def)
qed

lemma handle_data_plain:
  assumes "serves (wf_chID f) c s" "wf_frame (MaxFrameDataSize (s_config s)) f" "wf_flag f = FLG_DATA"
    and "rx_open c s" "\<not> Reliability (s_config s)"
  shows "\<exists>s'. handle_frame conn (header_of f, payload f) s = (RD_Header, s') \<and> rx_open c s' \<and>
    gate c s' = gate c s \<and> s_config s' = s_config s \<and> bytes_of (items c s') = bytes_of (items c s) @ payload f \<and>
    (full_slots (items c s) \<longrightarrow> full_slots (items c s'))"
proof -
  have ne: "payload f \<noteq> []" using assms(2,3) by (auto simp: wf_frame_def word_less_nat_alt)
  let ?t = "s\<lparr>s_rxActivity := True, s_nextB := Suc (s_nextB s)\<rparr>"
  obtain a where a: "handle_frame conn (header_of f, payload f) s =
      (RD_Header, feed_data c (wf_offset f) (a, payload f) (wf_length f) ?t)"
    using handle_data [OF assms(1-3), of conn] by blast
  have "rx_open c ?t" using assms(4) by (simp add: rx_open_def)
  from feed_open [OF this, of "(a, payload f)"] obtain s' where
    s': "feed (a, payload f) c ?t = (None, s')" "rx_open c s'" "s_config s' = s_config s"
      "items c s' = items c s @ [\<lparr>sbuf = Some (payload f), shead = Some a\<rparr>]" by auto
  have "gate c s' = gate c s" using gate_feed(2) [of c "(a, payload f)" c ?t] s'(1) by (simp add: gate_def)
  with a s' assms(5) ne show ?thesis
    by (intro exI [of _ s']) (simp add: feed_data_def)
qed

lemma data_run_wf:
  assumes "data_run k (unat mx) off fs" "unat mx \<le> MaxAllocSize"
  shows "\<forall>f \<in> set fs. wf_frame mx f \<and> wf_flag f = FLG_DATA \<and> wf_chID f = k"
  using assms(1)
proof (induction fs arbitrary: off)
  case (Cons f fs)
  have "unat (wf_length f) = length (payload f)"
    using Cons.prems assms(2) by (simp add: unsigned_of_nat take_bit_nat_eq_self MaxAllocSize_def)
  moreover from this have "wf_length f \<le> mx" "0 < wf_length f"
    using Cons.prems by (simp_all add: word_le_nat_alt word_less_nat_alt)
  ultimately have "wf_frame mx f" using Cons.prems assms(2) by (simp add: wf_frame_def)
  with Cons show ?case by auto
qed simp

lemma frame_bytes_Cons: "concat (map frame_bytes (f # fs)) = frame_bytes f @ concat (map frame_bytes fs)"
  by simp

lemma stream_run_plain:
  assumes "\<forall>f \<in> set fs. wf_frame (MaxFrameDataSize (s_config s)) f \<and> wf_flag f = FLG_DATA \<and> wf_chID f = k"
    and "serves k c s" "rx_open c s" "\<not> Reliability (s_config s)"
  shows "\<exists>s'. stream_run conn RD_Header (concat (map frame_bytes fs)) s = (RD_Header, [], s') \<and> rx_open c s' \<and>
    gate c s' = gate c s \<and> bytes_of (items c s') = bytes_of (items c s) @ run_bytes fs \<and>
    (full_slots (items c s) \<longrightarrow> full_slots (items c s'))"
  using assms
proof (induction fs arbitrary: s)
  case Nil
  have "stream_run conn RD_Header [] s = (RD_Header, [], s)"
    using Nil.prems(3) by (subst stream_run.simps) (simp add: stream_step_def rx_open_def)
  with Nil show ?case by simp
next
  case (Cons f fs)
  have f: "wf_frame (MaxFrameDataSize (s_config s)) f" "wf_flag f = FLG_DATA" "serves (wf_chID f) c s"
    using Cons.prems(1,2) by auto
  from handle_data_plain [OF f(3,1,2) Cons.prems(3,4), of conn] obtain s1 where
    s1: "handle_frame conn (header_of f, payload f) s = (RD_Header, s1)" "rx_open c s1" "gate c s1 = gate c s"
      "s_config s1 = s_config s" "bytes_of (items c s1) = bytes_of (items c s) @ payload f"
      "full_slots (items c s) \<longrightarrow> full_slots (items c s1)" by blast
  have "\<not> s_closed s" using Cons.prems(3) by (simp add: rx_open_def)
  then have run: "stream_run conn RD_Header (concat (map frame_bytes (f # fs))) s =
      stream_run conn RD_Header (concat (map frame_bytes fs)) s1"
    unfolding frame_bytes_Cons by (subst stream_run_frame [OF f(1)]) (simp_all add: s1(1))
  have "serves k c s1" using serves_gate [OF s1(3)] Cons.prems(2) by simp
  with Cons.IH [of s1] Cons.prems(1,4) s1 show ?case unfolding run by fastforce
qed

text \<open>What a completed \<^verbatim>\<open>Write\<close> queued, read by the peer.\<close>

lemma Write_arrives:
  assumes "channel_Write b ca sa = Some (W_Done n None, sa')" "sane_frame_size sa"
    and "serves (ch_id (s_objs sa ca)) cb sb" "rx_open cb sb" "\<not> Reliability (s_config sb)"
    and "MaxFrameDataSize (s_config sb) = MaxFrameDataSize (s_config sa)" "full_slots (items cb sb)"
  obtains fs sb' where "ws_writes (s_writer sa') = ws_writes (s_writer sa) @ fs"
    "stream_run conn RD_Header (concat (map frame_bytes fs)) sb = (RD_Header, [], sb')"
    "bytes_of (items cb sb') = bytes_of (items cb sb) @ b" "full_slots (items cb sb')" "rx_open cb sb'"
    "gate cb sb' = gate cb sb"
proof -
  from Write_run [OF assms(1,2)] obtain fs where
    fs: "ws_writes (s_writer sa') = ws_writes (s_writer sa) @ fs" "run_bytes fs = b"
      "data_run (ch_id (s_objs sa ca)) (unat (MaxFrameDataSize (s_config sa))) (ch_writeOffset (s_objs sa ca)) fs"
    by (auto simp: writes_run_def)
  have "unat (MaxFrameDataSize (s_config sa)) \<le> MaxAllocSize" using assms(2) by (simp add: sane_frame_size_def)
  from data_run_wf [OF fs(3) this] assms(6)
  have "\<forall>f \<in> set fs. wf_frame (MaxFrameDataSize (s_config sb)) f \<and> wf_flag f = FLG_DATA \<and> wf_chID f = ch_id (s_objs sa ca)"
    by simp
  from stream_run_plain [OF this assms(3-5), of conn] fs assms(7) show ?thesis by (auto intro: that)
qed

lemma sample_receives: "serves 1 0 sample_session" "rx_open 0 sample_session" "\<not> Reliability (s_config sample_session)"
  using sample_credits(8,9) sample_panic NewBufferRing_live [of 8]
  by (simp_all add: serves_def getChannel_def rx_open_def sample_config session_config_None_values blank_channel_def)
    (simp add: sample_session_def)

section \<open>With the reliability layer\<close>

text \<open>The frames of a run that starts at offset 0 are the segments of its bytes.\<close>

lemma data_run_off:
  "data_run k mx off fs \<Longrightarrow> i < length fs \<Longrightarrow>
   wf_offset (fs ! i) = off + of_nat (seg_off (map payload fs) i) \<and> wf_length (fs ! i) = of_nat (length (payload (fs ! i)))"
proof (induction fs arbitrary: off i)
  case (Cons f fs)
  then show ?case by (cases i) (auto simp: seg_off_def)
qed simp

lemma data_run_segs:
  assumes "data_run k mx 0 fs" "mx < 2 ^ 32" "length (run_bytes fs) < 2 ^ 64"
  shows "segs_ok (map payload fs)" "i < length fs \<Longrightarrow> wf_offset (fs ! i) = soff (map payload fs) i"
    "i < length fs \<Longrightarrow> wf_length (fs ! i) = slen (map payload fs) i"
proof -
  have "data_run k mx off gs \<Longrightarrow> \<forall>f \<in> set gs. 0 < length (payload f) \<and> length (payload f) \<le> mx" for off gs
    by (induction gs arbitrary: off) auto
  from this [OF assms(1)]
  show "segs_ok (map payload fs)" using assms(2,3) by (auto simp: segs_ok_def list_all_iff run_bytes_def)
  show "i < length fs \<Longrightarrow> wf_offset (fs ! i) = soff (map payload fs) i"
    "i < length fs \<Longrightarrow> wf_length (fs ! i) = slen (map payload fs) i"
    using data_run_off [OF assms(1)] by (simp_all add: soff_def slen_def)
qed

lemma handle_data_reliable:
  assumes "serves (wf_chID f) c s" "wf_frame (MaxFrameDataSize (s_config s)) f" "wf_flag f = FLG_DATA"
    and ok: "segs_ok segs" and inv: "rx_inv segs j D m c s" and m: "map_of m (soff segs j) = None" and i: "i < length segs"
    and "Reliability (s_config s)" "wf_offset f = soff segs i" "wf_length f = slen segs i" "payload f = segs ! i"
  shows "\<exists>s'. handle_frame conn (header_of f, payload f) s = (RD_Header, s') \<and> gate c s' = gate c s \<and>
    rx_step segs j D m i c s s'"
proof -
  let ?t = "s\<lparr>s_rxActivity := True, s_nextB := Suc (s_nextB s)\<rparr>"
  obtain a where a: "handle_frame conn (header_of f, payload f) s =
      (RD_Header, feed_data c (wf_offset f) (a, payload f) (wf_length f) ?t)"
    using handle_data [OF assms(1-3), of conn] by blast
  have "same_rx c s ?t" by (simp add: rx_defs)
  then have t: "rx_inv segs j D m c ?t" by (rule rx_inv_same [OF inv])
  have "length (payload f) = unat (wf_length f)" using assms(2,3) by (simp add: wf_frame_def)
  then have fd: "feed_data c (wf_offset f) (a, payload f) (wf_length f) ?t =
      feedReliablePayload (soff segs i) (segs ! i) (Some a) (slen segs i) c ?t"
    using assms(8-11) by (simp add: feed_data_def feedReliable_def)
  have "\<not> ch_hasFin (s_objs ?t c)" using inv by (simp add: rx_inv_def rx_open_def)
  then have "gate c (feedReliablePayload (soff segs i) (segs ! i) (Some a) (slen segs i) c ?t) = gate c s"
    using gate_feedReliablePayload [of ?t c] by (simp add: gate_def)
  moreover have "rx_step segs j D m i c s (feedReliablePayload (soff segs i) (segs ! i) (Some a) (slen segs i) c ?t)"
    using feed_step [OF ok t m i, of "Some a"] by (simp add: rx_step_def maxReorderBytes_def)
  ultimately show ?thesis using a fd by simp
qed

lemma stream_run_reliable:
  assumes ok: "segs_ok segs" and fs: "\<forall>i < length segs. wf_frame mx (fs i) \<and> wf_flag (fs i) = FLG_DATA \<and>
      wf_chID (fs i) = k \<and> wf_offset (fs i) = soff segs i \<and> wf_length (fs i) = slen segs i \<and> payload (fs i) = segs ! i"
  shows "rx_inv segs j D m c s \<Longrightarrow> map_of m (soff segs j) = None \<Longrightarrow> serves k c s \<Longrightarrow> Reliability (s_config s) \<Longrightarrow>
    MaxFrameDataSize (s_config s) = mx \<Longrightarrow> \<forall>i \<in> set is. i < length segs \<Longrightarrow>
    \<exists>s' j' m'. stream_run conn RD_Header (concat (map (\<lambda>i. frame_bytes (fs i)) is)) s = (RD_Header, [], s') \<and>
      rx_inv segs j' D m' c s' \<and> gate c s' = gate c s \<and> map_of m' (soff segs j') = None \<and>
      (\<forall>i < length segs. arrived segs j m i \<or> length (concat segs) \<le> unat (maxReorderBytes s) \<and> i \<in> set is
         \<longrightarrow> arrived segs j' m' i)"
proof (induction "is" arbitrary: j m s)
  case Nil
  have "stream_run conn RD_Header [] s = (RD_Header, [], s)"
    using Nil.prems(1) by (subst stream_run.simps) (simp add: stream_step_def rx_inv_def rx_open_def)
  with Nil.prems show ?case by auto
next
  case (Cons i "is")
  have i: "i < length segs" using Cons.prems(6) by simp
  then have f: "wf_frame (MaxFrameDataSize (s_config s)) (fs i)" "wf_flag (fs i) = FLG_DATA" "wf_chID (fs i) = k"
    "wf_offset (fs i) = soff segs i" "wf_length (fs i) = slen segs i" "payload (fs i) = segs ! i"
    using fs Cons.prems(5) by auto
  from handle_data_reliable [OF Cons.prems(3) [folded f(3)] f(1,2) ok Cons.prems(1,2) i Cons.prems(4) f(4-6), of conn]
  obtain s1 where s1: "handle_frame conn (header_of (fs i), payload (fs i)) s = (RD_Header, s1)" "gate c s1 = gate c s"
    "rx_step segs j D m i c s s1" by blast
  then obtain j1 m1 where
    1: "rx_inv segs j1 D m1 c s1" "map_of m1 (soff segs j1) = None" "s_config s1 = s_config s"
      "\<forall>k < length segs. arrived segs j m k \<longrightarrow> arrived segs j1 m1 k"
      "soff segs i - soff segs j \<le> maxReorderBytes s \<or> i < j \<longrightarrow> arrived segs j1 m1 i"
    by (auto simp: rx_step_def)
  have near: "length (concat segs) \<le> unat (maxReorderBytes s) \<Longrightarrow> arrived segs j1 m1 i"
    using 1(5) soff_window [OF ok, of j i "maxReorderBytes s"] i by (cases "i < j") auto
  have w: "maxReorderBytes s1 = maxReorderBytes s" using 1(3) by (simp add: maxReorderBytes_def)
  have op: "\<not> s_closed s" using Cons.prems(1) by (simp add: rx_inv_def rx_open_def)
  have run: "stream_run conn RD_Header (concat (map (\<lambda>i. frame_bytes (fs i)) (i # is))) s =
      stream_run conn RD_Header (concat (map (\<lambda>i. frame_bytes (fs i)) is)) s1"
    using stream_run_frame [OF f(1) op, of conn] s1(1) by simp
  have "serves k c s1" "Reliability (s_config s1)" "MaxFrameDataSize (s_config s1) = mx" "\<forall>i \<in> set is. i < length segs"
    using serves_gate [OF s1(2)] Cons.prems(3-6) 1(3) by simp_all
  from Cons.IH [OF 1(1,2) this] obtain s' j' m' where
    2: "stream_run conn RD_Header (concat (map (\<lambda>i. frame_bytes (fs i)) is)) s1 = (RD_Header, [], s')"
      "rx_inv segs j' D m' c s'" "map_of m' (soff segs j') = None" "gate c s' = gate c s"
      "\<And>k. k < length segs \<Longrightarrow> arrived segs j1 m1 k \<or>
         length (concat segs) \<le> unat (maxReorderBytes s) \<and> k \<in> set is \<Longrightarrow> arrived segs j' m' k"
    unfolding w s1(2) by blast
  have "arrived segs j' m' k" if "k < length segs" "arrived segs j m k \<or>
      length (concat segs) \<le> unat (maxReorderBytes s) \<and> k \<in> set (i # is)" for k
    using 2(5) [OF that(1)] that 1(4) near by (cases "k = i") auto
  with 2 show ?case unfolding run by blast
qed

text \<open>A channel as \<^verbatim>\<open>newChannel\<close> makes it, as far as receiving goes.\<close>

definition fresh_receiver :: "cref \<Rightarrow> session \<Rightarrow> bool" where
  "fresh_receiver c s \<longleftrightarrow>
     rx_open c s \<and> items c s = [] \<and> ch_readOffset (s_objs s c) = 0 \<and> ch_reorderMap (s_objs s c) = Some []"

lemma Write_arrives_reliable:
  assumes w: "channel_Write b ca sa = Some (W_Done n None, sa')" "sane_frame_size sa" "ch_writeOffset (s_objs sa ca) = 0"
    and r: "serves (ch_id (s_objs sa ca)) cb sb" "fresh_receiver cb sb" "Reliability (s_config sb)"
      "MaxFrameDataSize (s_config sb) = MaxFrameDataSize (s_config sa)"
    and win: "length b \<le> unat (maxReorderBytes sb)"
  obtains fs where "ws_writes (s_writer sa') = ws_writes (s_writer sa) @ fs"
    "\<And>is. set is = {..< length fs} \<Longrightarrow>
      \<exists>sb'. stream_run conn RD_Header (concat (map (\<lambda>i. frame_bytes (fs ! i)) is)) sb = (RD_Header, [], sb') \<and>
        bytes_of (items cb sb') = b \<and> full_slots (items cb sb') \<and> rx_open cb sb' \<and> gate cb sb' = gate cb sb"
proof -
  from Write_run [OF w(1,2)] obtain fs where
    fs: "ws_writes (s_writer sa') = ws_writes (s_writer sa) @ fs" "run_bytes fs = b"
      "data_run (ch_id (s_objs sa ca)) (unat (MaxFrameDataSize (s_config sa))) 0 fs"
    using w(3) by (auto simp: writes_run_def)
  let ?segs = "map payload fs" and ?k = "ch_id (s_objs sa ca)" and ?mx = "MaxFrameDataSize (s_config sa)"
  have "unat ?mx \<le> MaxAllocSize" using w(2) by (simp add: sane_frame_size_def)
  note wf = data_run_wf [OF fs(3) this]
  have "unat (maxReorderBytes sb) < 2 ^ 64" using unsigned_less [of "maxReorderBytes sb"] by simp
  then have b: "length (run_bytes fs) < 2 ^ 64" using win fs(2) by simp
  have mx: "unat ?mx < 2 ^ 32" using unsigned_less [of ?mx] by simp
  note sg = data_run_segs [OF fs(3) mx b]
  have conc: "concat ?segs = b" using fs(2) by (simp add: run_bytes_def)
  have inv: "rx_inv ?segs 0 [] [] cb sb"
    using r(2) by (simp add: rx_inv_def fresh_receiver_def soff_def seg_off_def early_ok_def)
  have all: "\<forall>i < length ?segs. wf_frame ?mx (fs ! i) \<and> wf_flag (fs ! i) = FLG_DATA \<and> wf_chID (fs ! i) = ?k \<and>
      wf_offset (fs ! i) = soff ?segs i \<and> wf_length (fs ! i) = slen ?segs i \<and> payload (fs ! i) = ?segs ! i"
    using wf sg(2,3) by auto
  have "\<exists>sb'. stream_run conn RD_Header (concat (map (\<lambda>i. frame_bytes (fs ! i)) is)) sb = (RD_Header, [], sb') \<and>
      bytes_of (items cb sb') = b \<and> full_slots (items cb sb') \<and> rx_open cb sb' \<and> gate cb sb' = gate cb sb" if "set is = {..< length fs}" for "is"
  proof -
    have "\<forall>i \<in> set is. i < length ?segs" using that by simp
    from stream_run_reliable [OF sg(1) all inv _ r(1,3,4) this, of conn] obtain sb' j' m' where
      s': "stream_run conn RD_Header (concat (map (\<lambda>i. frame_bytes (fs ! i)) is)) sb = (RD_Header, [], sb')"
        "rx_inv ?segs j' [] m' cb sb'" "map_of m' (soff ?segs j') = None" "gate cb sb' = gate cb sb"
        "\<forall>i < length ?segs. arrived ?segs 0 [] i \<or> length (concat ?segs) \<le> unat (maxReorderBytes sb) \<and> i \<in> set is
           \<longrightarrow> arrived ?segs j' m' i" by auto
    have "j' = length ?segs"
      by (rule all_arrived [OF s'(2,3)]) (use s'(5) that win conc in auto)
    with s'(1,2,4) conc show ?thesis by (auto simp: rx_inv_def)
  qed
  with fs(1) show ?thesis by (rule that)
qed

definition sample_reliable :: session where
  "sample_reliable = sample_session\<lparr>s_config := (session_config None)\<lparr>Reliability := True\<rparr>\<rparr>"

lemma sample_reliable_ok:
  "can_send 3 0 sample_reliable" "\<not> ch_writeMu (s_objs sample_reliable 0)" "sane_frame_size sample_reliable"
  "ch_writeOffset (s_objs sample_reliable 0) = 0" "ch_id (s_objs sample_reliable 0) = 1"
  "serves 1 0 sample_reliable" "fresh_receiver 0 sample_reliable" "Reliability (s_config sample_reliable)"
  "3 \<le> unat (maxReorderBytes sample_reliable)"
  using sample_can_send sample_frame_size sample_credits(8) sample_receives NewBufferRing_ok(2) [of 8]
  by (simp_all add: sample_reliable_def can_send_def writable_def sane_frame_size_def sample_config blank_channel_def
      serves_def getChannel_def fresh_receiver_def rx_open_def maxReorderBytes_def session_config_None
      DefaultConfig_def default_defs)

section \<open>Early frames\<close>

definition early_payload :: "pending_frame \<Rightarrow> bytes" where
  "early_payload f = (case pf_pBuf f of None \<Rightarrow> [] | Some p \<Rightarrow> snd p)"

lemma deliver_plain:
  assumes "rx_open c s" "\<not> Reliability (s_config s)" "list_all (\<lambda>f. pf_flag f = FLG_DATA \<and> pf_pBuf f \<noteq> None) fs"
  shows "rx_open c (deliverPending c fs s) \<and> gate c (deliverPending c fs s) = gate c s \<and>
    s_config (deliverPending c fs s) = s_config s \<and>
    bytes_of (items c (deliverPending c fs s)) = bytes_of (items c s) @ concat (map early_payload fs)"
  using assms
proof (induction fs arbitrary: s)
  case (Cons f fs)
  then obtain p where f: "pf_flag f = FLG_DATA" "pf_pBuf f = Some p" by auto
  obtain s1 where s1: "feed p c s = (None, s1)" "rx_open c s1" "s_config s1 = s_config s"
    "items c s1 = items c s @ [\<lparr>sbuf = Some (snd p), shead = Some (fst p)\<rparr>]"
    using feed_open [OF Cons.prems(1), of p] by blast
  have g: "gate c s1 = gate c s" using gate_feed(2) [of c p c s] s1(1) by simp
  have "deliver_one c f s = s1" using f s1(1) Cons.prems(2) by (simp add: deliver_one_def feed_data_def)
  moreover have "rx_open c (deliverPending c fs s1) \<and> gate c (deliverPending c fs s1) = gate c s1 \<and>
    s_config (deliverPending c fs s1) = s_config s1 \<and>
    bytes_of (items c (deliverPending c fs s1)) = bytes_of (items c s1) @ concat (map early_payload fs)"
    using Cons.IH [OF s1(2)] Cons.prems(2,3) s1(3) by simp
  ultimately show ?case using s1 g f(2) by (simp add: deliverPending_def early_payload_def [of f])
qed (simp add: deliverPending_def)

text \<open>C18: On a session without the reliability layer, frames that arrived before the application opened
  their channel are delivered first.  \<^verbatim>\<open>OpenChannel\<close> for a label whose stash holds only DATA frames with
  payloads (no FIN or RST) and has not expired takes the stash; until it
  has delivered all of it, a reader with a newer frame for the channel waits and changes nothing;
  afterwards the channel has exactly the stashed payloads to read, in order of arrival, and the
  reader goes on with its frame behind them.\<close>

theorem early_frames_first:
  assumes "stringToUint32 lab = (cid, True)" "\<not> s_closed s" "\<not> s_panic s" "\<not> Reliability (s_config s)"
    and "map_of (s_channels s) cid = None" "map_of (s_pending s) cid = Some q" "s_now s \<le> pq_expires q"
    and "list_all (\<lambda>f. pf_flag f = FLG_DATA \<and> pf_pBuf f \<noteq> None) (pq_frames q)"
  shows "\<exists>c s1 s2. OpenChannel lab s = (OC_Deliver c (pq_frames q), s1) \<and>
    (\<forall>h p. hd_chID h = cid \<longrightarrow> stream_data h p s1 = (RD_Feed c h p, s1)) \<and>
    (\<forall>h p. hd_chID h = cid \<longrightarrow> stream_data h p (deliverPending c (pq_frames q) s1) = (RD_Feed c h p, deliverPending c (pq_frames q) s1)) \<and>
    open_step (OC_Deliver c []) (deliverPending c (pq_frames q) s1) = (OC_Done c, s2) \<and>
    bytes_of (items c s2) = concat (map early_payload (pq_frames q)) \<and>
    (\<forall>h p. bytes_of (items c (snd (feed_or_wait c h p s2))) = concat (map early_payload (pq_frames q)) @ snd p \<and>
       fst (feed_or_wait c h p s2) = RD_Header)"
proof -
  define c where "c = s_nextObj s"
  define t where "t = s\<lparr>s_objs := (s_objs s)(c := (new_channel cid (s_config s))\<lparr>ch_feedMu := True\<rparr>), s_nextObj := Suc c,
     s_closedIDs := AList.delete cid (s_closedIDs s), s_pendingBytes := s_pendingBytes s - pq_bytes q,
     s_pending := AList.delete cid (s_pending s), s_channels := AList.update cid c (s_channels s)\<rparr>"
  have op: "OpenChannel lab s = (OC_Deliver c (pq_frames q), t)"
    using assms by (simp add: OpenChannel_def newChannel_def take_pending_def upd_ch_def Let_def t_def c_def)
  have ro: "rx_open c t" "items c t = []" "\<not> Reliability (s_config t)" "gate c t = (AList.update cid c (s_channels s), True, False, False)"
    using assms NewBufferRing_ok(2) [of 8]
    by (simp_all add: t_def rx_open_def new_channel_def gate_def)
  let ?u = "deliverPending c (pq_frames q) t"
  have u: "rx_open c ?u" "gate c ?u = gate c t" "s_config ?u = s_config t"
    "bytes_of (items c ?u) = concat (map early_payload (pq_frames q))"
    using deliver_plain [OF ro(1,3) assms(8)] ro(2) by simp_all
  have wait: "stream_data h p v = (RD_Feed c h p, v)" if "gate c v = gate c t" "hd_chID h = cid" for h p v
  proof -
    have "s_channels v = AList.update cid c (s_channels s)" "ch_feedMu (s_objs v c)"
      using that(1) ro(4) by (simp_all add: gate_def)
    then show ?thesis using that(2) by (simp add: stream_data_def getChannel_def feed_or_wait_def gomap_simps)
  qed
  define v where "v = upd_ch c (\<lambda>ch. ch\<lparr>ch_feedMu := False\<rparr>) ?u"
  have v: "rx_open c v" "items c v = items c ?u" "\<not> ch_feedMu (s_objs v c)" "\<not> Reliability (s_config v)"
    using u(1,3) ro(3) by (simp_all add: v_def upd_ch_def rx_open_def)
  have fd: "bytes_of (items c (snd (feed_or_wait c h p v))) = concat (map early_payload (pq_frames q)) @ snd p \<and>
       fst (feed_or_wait c h p v) = RD_Header" for h p
  proof -
    obtain s' where "feed p c v = (None, s')" "items c s' = items c v @ [\<lparr>sbuf = Some (snd p), shead = Some (fst p)\<rparr>]"
      using feed_open [OF v(1), of p] by blast
    then show ?thesis using v(2-4) u(4) by (simp add: feed_or_wait_def feed_data_def)
  qed
  show ?thesis
    using op wait [OF refl] wait [OF u(2)] fd v(2) u(4)
    by (intro exI [of _ c] exI [of _ t] exI [of _ v]) (simp add: open_step_def v_def)
qed

text \<open>Two frames wait for the channel labelled \<^verbatim>\<open>a\<close>.\<close>

definition early_queue :: pending_queue where
  "early_queue = \<lparr>pq_frames =
     [\<lparr>pf_flag = FLG_DATA, pf_offset = 0, pf_pBuf = Some (7, [1, 2]), pf_length = 2\<rparr>,
      \<lparr>pf_flag = FLG_DATA, pf_offset = 2, pf_pBuf = Some (8, [3]), pf_length = 1\<rparr>], pq_bytes = 3, pq_expires = 5\<rparr>"

definition stashed_session :: session where
  "stashed_session = sample_session\<lparr>s_pending := [(11, early_queue)], s_pendingBytes := 3\<rparr>"

theorem early_frames_first_witness:
  "\<exists>c s1 s2. OpenChannel [97] stashed_session = (OC_Deliver c (pq_frames early_queue), s1) \<and>
     open_step (OC_Deliver c []) (deliverPending c (pq_frames early_queue) s1) = (OC_Done c, s2) \<and>
     bytes_of (items c s2) = [1, 2, 3]"
proof -
  have l: "stringToUint32 [97] = (11, True)" by (simp add: stringToUint32_def label_digit_def)
  have f: "\<not> s_closed stashed_session" "\<not> s_panic stashed_session" "\<not> Reliability (s_config stashed_session)"
    "map_of (s_channels stashed_session) 11 = None" "map_of (s_pending stashed_session) 11 = Some early_queue"
    "s_now stashed_session \<le> pq_expires early_queue"
    using sample_credits(9) sample_panic sample_receives(3)
    by (simp_all add: stashed_session_def early_queue_def)
      (simp_all add: sample_session_def NewSessionWithID_def Let_def)
  have d: "list_all (\<lambda>f. pf_flag f = FLG_DATA \<and> pf_pBuf f \<noteq> None) (pq_frames early_queue)"
    "concat (map early_payload (pq_frames early_queue)) = [1, 2, 3]"
    by (simp_all add: early_queue_def early_payload_def)
  from early_frames_first [OF l f d(1)] d(2) show ?thesis by force
qed

end
