(* ===== verification/ByteSource.thy ===== *)
theory ByteSource
  imports Allocator
begin

text \<open>
  What the handshake and the transports share: calls that may panic or fail, slices and indexing with
  the range checks of the language, the input side of a connection, and \<^verbatim>\<open>io.ReadFull\<close> over an
  \<^verbatim>\<open>io.Reader\<close>.  The locale \<open>byte_source\<close> is the contract of a reader of a byte stream; a reader that keeps
  it gives \<^verbatim>\<open>io.ReadFull\<close> exactly the bytes of the stream.  The client's datagram adapter and the
  listener's peer connections keep it.
\<close>

section \<open>Results\<close>

text \<open>A call that panics, returns an error, or returns a value.\<close>

type_synonym 'a res = "(go_error + 'a) outcome"

definition rbind :: "'a res \<Rightarrow> ('a \<Rightarrow> 'b res) \<Rightarrow> 'b res" where
  "rbind x f = (case x of Panic \<Rightarrow> Panic | Ret (Inl e) \<Rightarrow> Ret (Inl e) | Ret (Inr a) \<Rightarrow> f a)"

abbreviation ok :: "'a \<Rightarrow> 'a res" where "ok a \<equiv> Ret (Inr a)"
abbreviation err :: "go_error \<Rightarrow> 'a res" where "err e \<equiv> Ret (Inl e)"

definition go_idx :: "bytes \<Rightarrow> nat \<Rightarrow> u8 res" where
  "go_idx b i = (if i < length b then ok (b ! i) else Panic)"

definition go_slice :: "bytes \<Rightarrow> nat \<Rightarrow> nat \<Rightarrow> bytes res" where
  "go_slice b lo hi = (if lo \<le> hi \<and> hi \<le> length b then ok (slice lo hi b) else Panic)"

text \<open>\<^verbatim>\<open>copy\<close> into \<open>n\<close> zero bytes.\<close>

definition go_copy :: "nat \<Rightarrow> bytes \<Rightarrow> bytes" where
  "go_copy n b = take n b @ replicate (n - length b) 0"

text \<open>What a peer sends before it stops, and the error a read returns then.\<close>

type_synonym conn_in = "bytes \<times> go_error"

definition ReadFull :: "nat \<Rightarrow> conn_in \<Rightarrow> (bytes \<times> conn_in) res" where
  "ReadFull n ci =
     (if n \<le> length (fst ci) then ok (take n (fst ci), (drop n (fst ci), snd ci)) else err (snd ci))"

lemma rbind_simps [simp]:
  "rbind (ok a) f = f a" "rbind (err e) f = err e" "rbind Panic f = Panic"
  by (simp_all add: rbind_def)

lemma rbind_ok_iff: "rbind x f = ok b \<longleftrightarrow> (\<exists>a. x = ok a \<and> f a = ok b)"
  by (auto simp: rbind_def split: outcome.splits sum.splits)

lemma rbind_Panic_iff: "rbind x f = Panic \<longleftrightarrow> x = Panic \<or> (\<exists>a. x = ok a \<and> f a = Panic)"
  by (auto simp: rbind_def split: outcome.splits sum.splits)

lemma rbind_no_panic: "x \<noteq> Panic \<Longrightarrow> (\<And>a. x = ok a \<Longrightarrow> f a \<noteq> Panic) \<Longrightarrow> rbind x f \<noteq> Panic"
  by (auto simp: rbind_def split: outcome.splits sum.splits)

lemma go_reads [simp]:
  "i < length b \<Longrightarrow> go_idx b i = ok (b ! i)"
  "lo \<le> hi \<Longrightarrow> hi \<le> length b \<Longrightarrow> go_slice b lo hi = ok (slice lo hi b)"
  by (simp_all add: go_idx_def go_slice_def)

lemma go_copy_exact [simp]: "length b = n \<Longrightarrow> go_copy n b = b"
  by (simp add: go_copy_def)

lemma length_go_copy [simp]: "length (go_copy n b) = n"
  by (simp add: go_copy_def)

lemma ReadFull_exact [simp]: "length b = n \<Longrightarrow> ReadFull n (b @ rest, e) = ok (b, (rest, e))"
  by (simp add: ReadFull_def)

lemma ReadFull_no_panic [simp]: "ReadFull n ci \<noteq> Panic"
  by (simp add: ReadFull_def)

section \<open>Readers\<close>

text \<open>A reader: the size of the buffer and its state, to what it returns and the state after; \<open>None\<close> while
  it waits.\<close>

type_synonym 's reader_fun = "nat \<Rightarrow> 's \<Rightarrow> ((go_error + bytes) \<times> 's) option"

text \<open>\<^verbatim>\<open>io.ReadFull\<close> for \<open>k\<close> bytes.  (A \<^verbatim>\<open>Read\<close> that keeps returning nothing for a non-empty buffer makes the
  loop spin; that is \<open>None\<close> too.)\<close>

function io_ReadFull :: "'s reader_fun \<Rightarrow> 's reader_fun" where
  "io_ReadFull rd k s =
     (if k = 0 then Some (Inr [], s)
      else
        case rd k s of
          None \<Rightarrow> None
        | Some (Inl e, s1) \<Rightarrow> Some (Inl e, s1)
        | Some (Inr d, s1) \<Rightarrow>
            if d = [] then None
            else (case io_ReadFull rd (k - length d) s1 of
                    Some (Inr e, s2) \<Rightarrow> Some (Inr (d @ e), s2)
                  | r \<Rightarrow> r))"
  by pat_completeness auto
termination by (relation "measure (\<lambda>(rd, k, s). k)") auto

declare io_ReadFull.simps [simp del]

locale byte_source =
  fixes rd :: "'s reader_fun" and strm :: "'s \<Rightarrow> bytes" and good :: "'s \<Rightarrow> bool"
  assumes rd_some: "good s \<Longrightarrow> 0 < k \<Longrightarrow> strm s \<noteq> [] \<Longrightarrow> \<exists>d s'. rd k s = Some (Inr d, s')"
    and rd_takes: "good s \<Longrightarrow> 0 < k \<Longrightarrow> strm s \<noteq> [] \<Longrightarrow> rd k s = Some (Inr d, s') \<Longrightarrow>
      good s' \<and> d @ strm s' = strm s \<and> d \<noteq> [] \<and> length d \<le> k"
begin

lemma ReadFull_refines:
  "good s \<Longrightarrow> ReadFull n (strm s, e) = ok (d, rest) \<Longrightarrow>
   \<exists>s'. io_ReadFull rd n s = Some (Inr d, s') \<and> good s' \<and> (strm s', e) = rest"
proof (induction n arbitrary: s d rest rule: less_induct)
  case (less n)
  have n: "n \<le> length (strm s)" "d = take n (strm s)" "rest = (drop n (strm s), e)"
    using less.prems(2) by (auto simp: ReadFull_def split: if_splits)
  show ?case
  proof (cases "n = 0")
    case True
    then show ?thesis using less.prems(1) n by (simp add: io_ReadFull.simps)
  next
    case False
    then have ne: "strm s \<noteq> []" using n(1) by auto
    then obtain x s1 where r: "rd n s = Some (Inr x, s1)" using rd_some [OF less.prems(1)] False by blast
    have t: "good s1" "x @ strm s1 = strm s" "x \<noteq> []" "length x \<le> n"
      using rd_takes [OF less.prems(1) _ ne r] False by simp_all
    have split: "take n (strm s) = x @ take (n - length x) (strm s1)"
      "drop n (strm s) = drop (n - length x) (strm s1)" "n - length x \<le> length (strm s1)"
      using t(4) n(1) unfolding t(2) [symmetric] by simp_all
    have "ReadFull (n - length x) (strm s1, e) =
        ok (take (n - length x) (strm s1), (drop (n - length x) (strm s1), e))"
      using split(3) by (simp add: ReadFull_def)
    from less.IH [OF _ t(1) this] obtain s' where
      "io_ReadFull rd (n - length x) s1 = Some (Inr (take (n - length x) (strm s1)), s')"
      "good s'" "strm s' = drop (n - length x) (strm s1)"
      using False t(3) by auto
    with False r t(3) n split show ?thesis by (simp add: io_ReadFull.simps [of _ n])
  qed
qed

end

end
