(* ===== verification/ChannelStream.thy ===== *)
theory ChannelStream
  imports Reader ByteSource
begin

text \<open>
  A channel as its user sees it: \<^verbatim>\<open>Channel.Read\<close> (\<^verbatim>\<open>src/channel.go\<close>) keeps the contract of a reader of a
  byte stream, the stream being the bytes that wait in the channel's ring, so that \<^verbatim>\<open>io.ReadFull\<close> and
  whatever else is built on \<^verbatim>\<open>io.Reader\<close> gets exactly what the peer's frames brought.
\<close>

text \<open>\<^verbatim>\<open>Read\<close> as a reader, and when it is free to be called.\<close>

definition ch_src :: "cref \<Rightarrow> session reader_fun" where
  "ch_src c k s =
     (case channel_Read k c s of
        Some (RR_Data d, s1) \<Rightarrow> Some (Inr d, s1)
      | Some (RR_Err e, s1) \<Rightarrow> Some (Inl e, s1)
      | _ \<Rightarrow> None)"

definition ch_ready :: "cref \<Rightarrow> session \<Rightarrow> bool" where
  "ch_ready c s \<longleftrightarrow> ring_live (ch_ring (s_objs s c)) \<and> full_slots (items c s) \<and>
     \<not> ch_closed (s_objs s c) \<and> \<not> s_closed s \<and> \<not> ch_readMu (s_objs s c)"

abbreviation closed_flags :: "cref \<Rightarrow> session \<Rightarrow> bool \<times> bool" where
  "closed_flags c s \<equiv> (ch_closed (s_objs s c), s_closed s)"

interpretation cq: ring_reader "\<lambda>k. ring_partial k c" "\<lambda>k. read_fill k c" "\<lambda>s. ch_ring (s_objs s c)" "closed_flags c" for c
proof unfold_locales
  show "read_fill k c s = (if k = 0 then ([], s)
      else case ring_partial k c s of (d, s1) \<Rightarrow>
        if d = [] then ([], s1) else (case read_fill (k - length d) c s1 of (e, s2) \<Rightarrow> (d @ e, s2)))" for k s
    by (rule read_fill.simps)
  show "d = fst (read_items k (items c s)) \<and> ring_live (ch_ring (s_objs s1 c)) \<and>
      items c s1 = snd (snd (read_items k (items c s))) \<and> closed_flags c s1 = closed_flags c s"
    if a: "ring_live (ch_ring (s_objs s c))" "ring_partial k c s = (d, s1)" for s k d s1
  proof -
    obtain q where "PartialRead k (ch_ring (s_objs s c)) = Ret (fst (read_items k (items c s)),
        fst (snd (read_items k (items c s))), q)" "ring_live q" "ring_items q = snd (snd (read_items k (items c s)))"
      using rb.rd_law [OF a(1)] by blast
    with a(2) show ?thesis by (auto simp: ring_partial_def upd_ch_def)
  qed
qed

lemma channel_Read_takes:
  assumes "ch_ready c s" "0 < k" "bytes_of (items c s) \<noteq> []"
  obtains d s1 where "channel_Read k c s = Some (RR_Data d, s1)" "ch_ready c s1"
    "d @ bytes_of (items c s1) = bytes_of (items c s)" "d \<noteq> []" "length d \<le> k"
proof -
  define t where "t = upd_ch c (\<lambda>ch. ch\<lparr>ch_readMu := True\<rparr>) s"
  have t: "ring_live (ch_ring (s_objs t c))" "items c t = items c s" "full_slots (items c t)"
    "closed_flags c t = (False, False)"
    using assms(1) by (simp_all add: t_def ch_ready_def upd_ch_def)
  obtain d u where f: "read_fill k c t = (d, u)" by force
  note tk = cq.fill_taken [OF t(1,3) f]
  define v where "v = sf_OnRead c (int (length d)) u"
  define s1 where "s1 = upd_ch c (\<lambda>ch. ch\<lparr>ch_readMu := False\<rparr>) v"
  have d: "d \<noteq> []" using tk assms(2,3) t(2) by (auto simp: ring_taken_def)
  have v: "ch_ring (s_objs v c) = ch_ring (s_objs u c)" "closed_flags c v = (False, False)"
    using same_rx_OnRead [of c u "int (length d)"] tk t(4) by (simp_all add: v_def rx_defs ring_taken_def)
  have "read_loop 4 k False c t = (RR_Data d, v)"
    using d by (simp add: eval_nat_numeral read_round_def f v_def)
  moreover have "\<not> readAborted c s1" using v(2) by (simp add: s1_def readAborted_def upd_ch_def)
  ultimately have "channel_Read k c s = Some (RR_Data d, s1)"
    using assms(1,2) by (auto simp: channel_Read_def ch_ready_def readAborted_def t_def unlock_read_def s1_def Let_def)
  moreover have "ch_ready c s1" using tk v
    by (simp add: ch_ready_def s1_def upd_ch_def ring_taken_def)
  moreover have "d @ bytes_of (items c s1) = bytes_of (items c s)" "length d \<le> k"
    using tk v(1) t(2) by (simp_all add: ring_taken_def s1_def upd_ch_def)
  ultimately show ?thesis using d that by blast
qed

interpretation chan_stream: byte_source "ch_src c" "\<lambda>s. bytes_of (items c s)" "ch_ready c" for c
proof unfold_locales
  fix s and k :: nat and d s'
  assume a: "ch_ready c s" "0 < k" "bytes_of (items c s) \<noteq> []"
  obtain x t where x: "channel_Read k c s = Some (RR_Data x, t)" "ch_ready c t"
    "x @ bytes_of (items c t) = bytes_of (items c s)" "x \<noteq> []" "length x \<le> k"
    by (rule channel_Read_takes [OF a])
  then show "\<exists>d s'. ch_src c k s = Some (Inr d, s')" by (simp add: ch_src_def)
  assume "ch_src c k s = Some (Inr d, s')"
  then show "ch_ready c s' \<and> d @ bytes_of (items c s') = bytes_of (items c s) \<and> d \<noteq> [] \<and> length d \<le> k"
    using x by (auto simp: ch_src_def)
qed

text \<open>Reading everything that waits.\<close>

lemma read_all:
  assumes "ch_ready c s" "bytes_of (items c s) = b"
  shows "\<exists>s'. io_ReadFull (ch_src c) (length b) s = Some (Inr b, s') \<and> bytes_of (items c s') = []"
  using chan_stream.ReadFull_refines [OF assms(1), of "length b" ErrEOF b "([], ErrEOF)"] assms(2)
  by (auto simp: ReadFull_def)

lemma ch_ready_open:
  "rx_open c s \<Longrightarrow> full_slots (items c s) \<Longrightarrow> \<not> ch_readMu (s_objs s c) \<Longrightarrow> ch_ready c s"
  by (simp add: ch_ready_def rx_open_def)

end
