(* ===== verification/Handshake.thy ===== *)
theory Handshake
  imports Config ByteSource
begin

text \<open>
  The handshake messages: \<^verbatim>\<open>BuildInitiatorHandshake\<close>, \<^verbatim>\<open>buildResponderHandshake\<close>, the two parsers,
  \<^verbatim>\<open>responderSignedMessage\<close> and \<^verbatim>\<open>isZeroID\<close> (\<^verbatim>\<open>src/listener.go\<close>), and the initiator's side of the
  exchange, \<^verbatim>\<open>initiatorExchange\<close> and \<^verbatim>\<open>negotiatedConfig\<close> (\<^verbatim>\<open>src/dialer.go\<close>).

  Ed25519 and SHA-256 are library code: the record \<open>crypto\<close> stands for them, and the theorems
  name what they need of it.  An index or slice out of range, a key of the wrong size given to
  \<^verbatim>\<open>ed25519.Sign\<close> or \<^verbatim>\<open>ed25519.Verify\<close>, is the outcome \<open>Panic\<close>.
\<close>

section \<open>Cryptography\<close>

record crypto =
  cr_public :: "bytes \<Rightarrow> bytes"
  cr_sign :: "bytes \<Rightarrow> bytes \<Rightarrow> bytes"
  cr_verify :: "bytes \<Rightarrow> bytes \<Rightarrow> bytes \<Rightarrow> bool"
  cr_sha256 :: "bytes \<Rightarrow> bytes"

definition PublicKeySize :: nat where "PublicKeySize = 32"
definition PrivateKeySize :: nat where "PrivateKeySize = 64"
definition SignatureSize :: nat where "SignatureSize = 64"

definition ed_sign :: "crypto \<Rightarrow> bytes \<Rightarrow> bytes \<Rightarrow> bytes res" where
  "ed_sign cr priv m = (if length priv = PrivateKeySize then ok (cr_sign cr priv m) else Panic)"

definition ed_verify :: "crypto \<Rightarrow> bytes \<Rightarrow> bytes \<Rightarrow> bytes \<Rightarrow> bool res" where
  "ed_verify cr pub m sg = (if length pub = PublicKeySize then ok (cr_verify cr pub m sg) else Panic)"

text \<open>The documented sizes, and that a signature made with a private key verifies under its public
  key.\<close>

definition ed25519_sizes :: "crypto \<Rightarrow> bool" where
  "ed25519_sizes cr \<longleftrightarrow>
     (\<forall>k. length (cr_public cr k) = PublicKeySize) \<and> (\<forall>k m. length (cr_sign cr k m) = SignatureSize)"

definition ed25519_complete :: "crypto \<Rightarrow> bool" where
  "ed25519_complete cr \<longleftrightarrow> (\<forall>k m. cr_verify cr (cr_public cr k) m (cr_sign cr k m))"

section \<open>Messages\<close>

definition PROTOCOL_VERSION :: u8 where "PROTOCOL_VERSION = 1"
definition MinInitiatorHandshakeLen :: nat where "MinInitiatorHandshakeLen = 165"
definition MaxHandshakeLen :: nat where "MaxHandshakeLen = 512"
definition ResponderPayloadLen :: nat where "ResponderPayloadLen = 151"

text \<open>\<^verbatim>\<open>"muxocket/v2 responder transcript\x00"\<close>\<close>

definition transcriptLabel :: bytes where
  "transcriptLabel =
     [109, 117, 120, 111, 99, 107, 101, 116, 47, 118, 50, 32,
      114, 101, 115, 112, 111, 110, 100, 101, 114, 32,
      116, 114, 97, 110, 115, 99, 114, 105, 112, 116, 0]"

definition responderSignedMessage :: "crypto \<Rightarrow> bytes \<Rightarrow> bytes \<Rightarrow> bytes" where
  "responderSignedMessage cr responderFields initiatorPayload =
     responderFields @ cr_sha256 cr (transcriptLabel @ initiatorPayload)"

definition isZeroID :: "bytes \<Rightarrow> bool" where
  "isZeroID ident = list_all (\<lambda>b. b = 0) ident"

record initiator_message =
  im_ProtocolVersion :: u8
  im_SessionID :: bytes
  im_Nonce :: u16
  im_Random :: bytes
  im_publicKeyLen :: u8
  im_PublicKey :: bytes
  im_signatureLen :: u8
  im_Signature :: bytes

record responder_message =
  rm_ProtocolVersion :: u8
  rm_SessionID :: bytes
  rm_Nonce :: u16
  rm_InitialStreamWindow :: u32
  rm_InitialSessionWindow :: u32
  rm_WindowUpdateRatio :: u32
  rm_MaxFrameDataLen :: u32
  rm_Reliability :: bool
  rm_AllowConnectionResumption :: bool
  rm_publicKeyLen :: u8
  rm_PublicKey :: bytes
  rm_signatureLen :: u8
  rm_Signature :: bytes

definition initiator_fields :: "bytes \<Rightarrow> u16 \<Rightarrow> bytes \<Rightarrow> bytes \<Rightarrow> bytes" where
  "initiator_fields sessionID nonce randomBytes pub =
     [PROTOCOL_VERSION] @ go_copy 32 sessionID @ be_put16 nonce @ go_copy 32 randomBytes @
     [of_nat (length pub)] @ pub"

text \<open>The signature's length byte and the signature at the end of either payload, and the length
  prefix.\<close>

definition seal :: "bytes \<Rightarrow> bytes \<Rightarrow> bytes" where
  "seal flds sg =
     be_put16 (of_nat (length flds + 1 + SignatureSize)) @
     flds @ [of_nat (length sg)] @ go_copy SignatureSize sg"

text \<open>\<open>rnd\<close> is what \<^verbatim>\<open>rand.Read\<close> yields.\<close>

definition BuildInitiatorHandshake ::
  "crypto \<Rightarrow> go_error + bytes \<Rightarrow> bytes \<Rightarrow> u16 \<Rightarrow> bytes \<Rightarrow> bytes res" where
  "BuildInitiatorHandshake cr rnd sessionID nonce priv =
     rbind (Ret rnd) (\<lambda>randomBytes.
       let flds = initiator_fields sessionID nonce randomBytes (cr_public cr priv)
       in rbind (ed_sign cr priv flds) (\<lambda>sg. ok (seal flds sg)))"

definition parseInitiatorHandshakeMessage :: "bytes \<Rightarrow> initiator_message res" where
  "parseInitiatorHandshakeMessage data =
     (if length data < MinInitiatorHandshakeLen then err ErrMalformedHandshake
      else
        rbind (go_idx data 0) (\<lambda>ver.
        rbind (go_slice data 1 33) (\<lambda>sid.
        rbind (go_slice data 33 35) (\<lambda>nb.
        rbind (go_slice data 35 67) (\<lambda>rnd.
        rbind (go_idx data 67) (\<lambda>pkLen.
        let pubKeyEnd = 68 + unat pkLen in
        if length data < pubKeyEnd + 1
        then err (ErrText ''malformed handshake: public key out of bounds'')
        else
          rbind (go_slice data 68 pubKeyEnd) (\<lambda>pk.
          rbind (go_idx data pubKeyEnd) (\<lambda>sgLen.
          let sigEnd = pubKeyEnd + 1 + unat sgLen in
          if length data < sigEnd then err (ErrText ''malformed handshake: signature out of bounds'')
          else
            rbind (go_slice data (pubKeyEnd + 1) sigEnd) (\<lambda>sg.
            ok \<lparr>im_ProtocolVersion = ver, im_SessionID = sid, im_Nonce = be_get16 nb, im_Random = rnd,
                im_publicKeyLen = pkLen, im_PublicKey = pk, im_signatureLen = sgLen, im_Signature = sg\<rparr>)))))))))"

definition flag_byte :: "bool \<Rightarrow> u8" where
  "flag_byte b = (if b then 1 else 0)"

definition responder_fields :: "config \<Rightarrow> bool \<Rightarrow> bytes \<Rightarrow> u16 \<Rightarrow> bytes \<Rightarrow> bytes" where
  "responder_fields cfg allow sid nonce pub =
     [PROTOCOL_VERSION] @ go_copy 32 sid @ be_put16 nonce @
     be_put32 (InitialStreamWindow cfg) @ be_put32 (InitialSessionWindow cfg) @
     be_put32 DefaultWindowUpdateRatio @ be_put32 (MaxFrameDataSize cfg) @
     [flag_byte (Reliability cfg)] @ [flag_byte allow] @
     [of_nat (length pub)] @ go_copy (length pub) (take 32 pub)"

text \<open>The listener's fields it reads are \<open>oc\<close> (\<^verbatim>\<open>ln.sessionConfig\<close>) and \<open>allow\<close>
  (\<^verbatim>\<open>ln.AllowConnectionResumption\<close>).\<close>

definition buildResponderHandshake ::
  "crypto \<Rightarrow> config option \<Rightarrow> bool \<Rightarrow> bytes \<Rightarrow> u16 \<Rightarrow> bytes \<Rightarrow> bytes \<Rightarrow> bytes res" where
  "buildResponderHandshake cr oc allow sid nonce priv initiatorPayload =
     (let cfg = (case oc of None \<Rightarrow> DefaultConfig | Some c \<Rightarrow> c);
          flds = responder_fields cfg allow sid nonce (cr_public cr priv)
      in rbind (ed_sign cr priv (responderSignedMessage cr flds initiatorPayload))
           (\<lambda>sg. ok (seal flds sg)))"

definition parseResponderHandshakeMessage :: "bytes \<Rightarrow> responder_message res" where
  "parseResponderHandshakeMessage data =
     (if length data < ResponderPayloadLen then err (ErrText ''responder handshake message too short'')
      else
        rbind (go_idx data 0) (\<lambda>ver.
        rbind (go_slice data 1 33) (\<lambda>sid.
        rbind (go_slice data 33 35) (\<lambda>nb.
        rbind (go_slice data 35 39) (\<lambda>sw.
        rbind (go_slice data 39 43) (\<lambda>nw.
        rbind (go_slice data 43 47) (\<lambda>ratio.
        rbind (go_slice data 47 51) (\<lambda>mx.
        rbind (go_idx data 51) (\<lambda>rel.
        rbind (go_idx data 52) (\<lambda>allow.
        rbind (go_idx data 53) (\<lambda>pkLen.
        let pubEnd = 54 + unat pkLen in
        if length data < pubEnd + 1
        then err (ErrText ''malformed responder handshake: public key out of bounds'')
        else
          rbind (go_slice data 54 pubEnd) (\<lambda>pk.
          rbind (go_idx data pubEnd) (\<lambda>sgLen.
          let sigEnd = pubEnd + 1 + unat sgLen in
          if length data < sigEnd
          then err (ErrText ''malformed responder handshake: signature out of bounds'')
          else
            rbind (go_slice data (pubEnd + 1) sigEnd) (\<lambda>sg.
            ok \<lparr>rm_ProtocolVersion = ver, rm_SessionID = sid, rm_Nonce = be_get16 nb,
                rm_InitialStreamWindow = be_get32 sw, rm_InitialSessionWindow = be_get32 nw,
                rm_WindowUpdateRatio = be_get32 ratio, rm_MaxFrameDataLen = be_get32 mx,
                rm_Reliability = (rel = 1), rm_AllowConnectionResumption = (allow = 1),
                rm_publicKeyLen = pkLen, rm_PublicKey = pk,
                rm_signatureLen = sgLen, rm_Signature = sg\<rparr>))))))))))))))"

section \<open>The initiator's exchange\<close>

text \<open>After the request has been written: \<open>req\<close> is the request with its length prefix.  The input that
  is left belongs to the session.\<close>

definition check_reply ::
  "crypto \<Rightarrow> bytes \<Rightarrow> u16 \<Rightarrow> bytes \<Rightarrow> bytes \<Rightarrow> responder_message res" where
  "check_reply cr sid nonce req respBuf =
     rbind (parseResponderHandshakeMessage respBuf) (\<lambda>resp.
       if rm_ProtocolVersion resp \<noteq> PROTOCOL_VERSION then err ErrProtocolVersionMismatch
       else if length (rm_PublicKey resp) \<noteq> PublicKeySize \<or> length (rm_Signature resp) \<noteq> SignatureSize
       then err ErrMalformedHandshake
       else
         rbind (go_slice respBuf 0 (54 + unat (rm_publicKeyLen resp))) (\<lambda>signedPortion.
         rbind (go_slice req 2 (length req)) (\<lambda>body.
         rbind (ed_verify cr (rm_PublicKey resp) (responderSignedMessage cr signedPortion body)
             (rm_Signature resp)) (\<lambda>verified.
         if \<not> verified then err ErrInvalidSignature
         else if nonce \<noteq> 0 \<and> rm_Nonce resp \<noteq> nonce then err ErrInvalidNonce
         else if \<not> isZeroID sid \<and> rm_SessionID resp \<noteq> sid then err ErrSessionIDMismatch
         else ok resp))))"

definition read_reply ::
  "crypto \<Rightarrow> bytes \<Rightarrow> u16 \<Rightarrow> bytes \<Rightarrow> conn_in \<Rightarrow> (responder_message \<times> conn_in) res" where
  "read_reply cr sid nonce req ci =
     rbind (ReadFull 2 ci) (\<lambda>(lenBuf, ci1).
       let respLen = unat (be_get16 lenBuf) in
       if respLen < ResponderPayloadLen \<or> respLen > MaxHandshakeLen
       then err (ErrText ''invalid responder handshake length'')
       else rbind (ReadFull respLen ci1) (\<lambda>(respBuf, ci2).
         rbind (check_reply cr sid nonce req respBuf) (\<lambda>resp. ok (resp, ci2))))"

text \<open>The transport: \<open>wr\<close> is what \<^verbatim>\<open>conn.Write\<close> returns for the request, \<open>peer\<close> what the other end sends
  once it has it.\<close>

definition initiatorExchange ::
  "crypto \<Rightarrow> go_error + bytes \<Rightarrow> (bytes \<Rightarrow> go_error option) \<Rightarrow> (bytes \<Rightarrow> conn_in) \<Rightarrow>
   bytes \<Rightarrow> u16 \<Rightarrow> bytes \<Rightarrow> (responder_message \<times> conn_in) res" where
  "initiatorExchange cr rnd wr peer sid nonce priv =
     rbind (BuildInitiatorHandshake cr rnd sid nonce priv) (\<lambda>req.
       case wr req of
         Some e \<Rightarrow> err e
       | None \<Rightarrow> read_reply cr sid nonce req (peer req))"

definition negotiatedConfig :: "config \<Rightarrow> responder_message \<Rightarrow> go_error + config" where
  "negotiatedConfig local resp =
     (if rm_MaxFrameDataLen resp = 0 \<or> unat (rm_MaxFrameDataLen resp) > MaxAllocSize
      then Inl ErrInvalidHandshake
      else if rm_InitialStreamWindow resp = 0 \<or> int (unat (rm_InitialStreamWindow resp)) > i32_max \<or>
              int (unat (rm_InitialSessionWindow resp)) > i32_max
      then Inl ErrInvalidHandshake
      else Inr (local\<lparr>InitialStreamWindow := rm_InitialStreamWindow resp,
             InitialSessionWindow := rm_InitialSessionWindow resp,
             MaxFrameDataSize := rm_MaxFrameDataLen resp,
             Reliability := rm_Reliability resp,
             AllowConnectionResumption :=
               AllowConnectionResumption local \<and> rm_AllowConnectionResumption resp\<rparr>))"

section \<open>Reading results\<close>

lemmas size_defs = PublicKeySize_def PrivateKeySize_def SignatureSize_def
  MinInitiatorHandshakeLen_def MaxHandshakeLen_def ResponderPayloadLen_def

section \<open>The parsers\<close>

text \<open>Past the length check the fixed part is there; the two variable parts are checked before they are
  cut out, so neither parser panics.\<close>

lemma parseInitiator_eq:
  assumes "MinInitiatorHandshakeLen \<le> length data"
  shows "parseInitiatorHandshakeMessage data =
    (let pe = 68 + unat (data ! 67); se = pe + 1 + unat (data ! pe) in
     if length data < pe + 1 then err (ErrText ''malformed handshake: public key out of bounds'')
     else if length data < se then err (ErrText ''malformed handshake: signature out of bounds'')
     else ok \<lparr>im_ProtocolVersion = data ! 0, im_SessionID = slice 1 33 data,
            im_Nonce = be_get16 (slice 33 35 data), im_Random = slice 35 67 data,
            im_publicKeyLen = data ! 67, im_PublicKey = slice 68 pe data,
            im_signatureLen = data ! pe, im_Signature = slice (pe + 1) se data\<rparr>)"
proof -
  have "data \<noteq> []" using assms by (auto simp: size_defs)
  with assms show ?thesis by (simp add: parseInitiatorHandshakeMessage_def size_defs Let_def add.assoc)
qed

lemma parseResponder_eq:
  assumes "ResponderPayloadLen \<le> length data"
  shows "parseResponderHandshakeMessage data =
    (let pe = 54 + unat (data ! 53); se = pe + 1 + unat (data ! pe) in
     if length data < pe + 1
     then err (ErrText ''malformed responder handshake: public key out of bounds'')
     else if length data < se
     then err (ErrText ''malformed responder handshake: signature out of bounds'')
     else ok \<lparr>rm_ProtocolVersion = data ! 0, rm_SessionID = slice 1 33 data,
            rm_Nonce = be_get16 (slice 33 35 data),
            rm_InitialStreamWindow = be_get32 (slice 35 39 data),
            rm_InitialSessionWindow = be_get32 (slice 39 43 data),
            rm_WindowUpdateRatio = be_get32 (slice 43 47 data),
            rm_MaxFrameDataLen = be_get32 (slice 47 51 data),
            rm_Reliability = (data ! 51 = 1), rm_AllowConnectionResumption = (data ! 52 = 1),
            rm_publicKeyLen = data ! 53, rm_PublicKey = slice 54 pe data,
            rm_signatureLen = data ! pe, rm_Signature = slice (pe + 1) se data\<rparr>)"
proof -
  have "data \<noteq> []" using assms by (auto simp: size_defs)
  with assms show ?thesis by (simp add: parseResponderHandshakeMessage_def size_defs Let_def add.assoc)
qed

lemma parseInitiator_no_panic: "parseInitiatorHandshakeMessage data \<noteq> Panic"
proof (cases "MinInitiatorHandshakeLen \<le> length data")
  case True
  then show ?thesis by (simp add: parseInitiator_eq Let_def)
qed (simp add: parseInitiatorHandshakeMessage_def)

lemma parseResponder_no_panic: "parseResponderHandshakeMessage data \<noteq> Panic"
proof (cases "ResponderPayloadLen \<le> length data")
  case True
  then show ?thesis by (simp add: parseResponder_eq Let_def)
qed (simp add: parseResponderHandshakeMessage_def)

lemma parseInitiator_ok:
  assumes "parseInitiatorHandshakeMessage data = ok m"
  shows "MinInitiatorHandshakeLen \<le> length data" "69 + unat (im_publicKeyLen m) \<le> length data"
    "im_PublicKey m = slice 68 (68 + unat (im_publicKeyLen m)) data"
    "im_SessionID m = slice 1 33 data"
proof -
  show ge: "MinInitiatorHandshakeLen \<le> length data"
    using assms by (rule_tac ccontr) (simp add: parseInitiatorHandshakeMessage_def)
  show "69 + unat (im_publicKeyLen m) \<le> length data"
    "im_PublicKey m = slice 68 (68 + unat (im_publicKeyLen m)) data"
    "im_SessionID m = slice 1 33 data"
    using assms unfolding parseInitiator_eq [OF ge] Let_def by (auto split: if_splits)
qed

lemma parseResponder_ok:
  assumes "parseResponderHandshakeMessage data = ok m"
  shows "ResponderPayloadLen \<le> length data" "55 + unat (rm_publicKeyLen m) \<le> length data"
    "rm_PublicKey m = slice 54 (54 + unat (rm_publicKeyLen m)) data"
proof -
  show ge: "ResponderPayloadLen \<le> length data"
    using assms by (rule_tac ccontr) (simp add: parseResponderHandshakeMessage_def)
  show "55 + unat (rm_publicKeyLen m) \<le> length data"
    "rm_PublicKey m = slice 54 (54 + unat (rm_publicKeyLen m)) data"
    using assms unfolding parseResponder_eq [OF ge] Let_def by (auto split: if_splits)
qed

section \<open>Round trips\<close>

lemma crypto_sizes:
  assumes "ed25519_sizes cr"
  shows "length (cr_public cr k) = 32" "length (cr_sign cr k m) = 64"
  using assms by (simp_all add: ed25519_sizes_def size_defs)

lemma seal_eq:
  "length sg = 64 \<Longrightarrow> seal flds sg = be_put16 (of_nat (length flds + 65)) @ flds @ 64 # sg"
  by (simp add: seal_def size_defs add.commute)

lemma length_initiator_fields [simp]: "length (initiator_fields sid nonce rnd pub) = 68 + length pub"
  by (simp add: initiator_fields_def)

lemma length_responder_fields [simp]: "length (responder_fields cfg allow sid nonce pub) = 54 + length pub"
  by (simp add: responder_fields_def)

lemma initiator_fields_parts:
  fixes rest :: bytes and nonce :: u16
  assumes "length sid = 32" "length rnd = 32" "length pub = 32"
  defines "data \<equiv> initiator_fields sid nonce rnd pub @ 64 # rest"
  shows "data ! 0 = PROTOCOL_VERSION" "slice 1 33 data = sid" "be_get16 (slice 33 35 data) = nonce"
    "slice 35 67 data = rnd" "data ! 67 = 32" "slice 68 100 data = pub" "data ! 100 = 64"
    "length rest = 64 \<Longrightarrow> slice 101 165 data = rest"
  using assms
  by (simp_all add: initiator_fields_def slice_def nth_append)

lemma responder_fields_parts:
  fixes tail :: bytes and nonce :: u16 and cfg :: config and allow :: bool
  assumes "length sid = 32" "length pub = 32"
  defines "data \<equiv> responder_fields cfg allow sid nonce pub @ tail"
  shows "data ! 0 = PROTOCOL_VERSION" "slice 1 33 data = sid" "be_get16 (slice 33 35 data) = nonce"
    "be_get32 (slice 35 39 data) = InitialStreamWindow cfg"
    "be_get32 (slice 39 43 data) = InitialSessionWindow cfg"
    "be_get32 (slice 43 47 data) = DefaultWindowUpdateRatio"
    "be_get32 (slice 47 51 data) = MaxFrameDataSize cfg"
    "(data ! 51 = 1) = Reliability cfg" "(data ! 52 = 1) = allow"
    "data ! 53 = 32" "slice 54 86 data = pub"
  using assms
  by (simp_all add: responder_fields_def slice_def nth_append flag_byte_def)

lemma initiator_built:
  fixes nonce :: u16
  assumes "ed25519_sizes cr" "length priv = 64" "length sid = 32" "length rnd = 32"
  defines "pub \<equiv> cr_public cr priv"
  defines "flds \<equiv> initiator_fields sid nonce rnd pub"
  defines "body \<equiv> flds @ 64 # cr_sign cr priv flds"
  shows "BuildInitiatorHandshake cr (Inr rnd) sid nonce priv = ok (be_put16 165 @ body)"
    "length body = 165" "take 100 body = flds"
    "parseInitiatorHandshakeMessage body =
       ok \<lparr>im_ProtocolVersion = PROTOCOL_VERSION, im_SessionID = sid, im_Nonce = nonce, im_Random = rnd,
          im_publicKeyLen = 32, im_PublicKey = pub, im_signatureLen = 64,
          im_Signature = cr_sign cr priv flds\<rparr>"
proof -
  note sz = crypto_sizes [OF assms(1)]
  note parts = initiator_fields_parts [OF assms(3,4), where pub = pub and nonce = nonce and
      rest = "cr_sign cr priv flds", folded flds_def, folded body_def]
  have pub: "length pub = 32" by (simp add: pub_def sz)
  have len: "length flds = 100" by (simp add: flds_def pub)
  show body: "length body = 165" by (simp add: body_def len sz)
  show "take 100 body = flds" by (simp add: body_def len)
  show "BuildInitiatorHandshake cr (Inr rnd) sid nonce priv = ok (be_put16 165 @ body)"
    using assms(2) len pub
    by (simp add: BuildInitiatorHandshake_def ed_sign_def size_defs Let_def seal_eq sz body_def
        flip: pub_def flds_def)
  show "parseInitiatorHandshakeMessage body =
       ok \<lparr>im_ProtocolVersion = PROTOCOL_VERSION, im_SessionID = sid, im_Nonce = nonce, im_Random = rnd,
          im_publicKeyLen = 32, im_PublicKey = pub, im_signatureLen = 64,
          im_Signature = cr_sign cr priv flds\<rparr>"
    by (subst parseInitiator_eq) (simp_all add: parts pub body sz Let_def size_defs del: One_nat_def)
qed

lemma responder_built:
  fixes nonce :: u16 and oc :: "config option" and allow :: bool and ini :: bytes
  assumes "ed25519_sizes cr" "length priv = 64" "length sid = 32"
  defines "pub \<equiv> cr_public cr priv"
  defines "cfg \<equiv> (case oc of None \<Rightarrow> DefaultConfig | Some c \<Rightarrow> c)"
  defines "flds \<equiv> responder_fields cfg allow sid nonce pub"
  defines "sg \<equiv> cr_sign cr priv (responderSignedMessage cr flds ini)"
  defines "body \<equiv> flds @ 64 # sg"
  shows "buildResponderHandshake cr oc allow sid nonce priv ini = ok (be_put16 151 @ body)"
    "length body = 151" "slice 0 86 body = flds"
    "parseResponderHandshakeMessage body =
       ok \<lparr>rm_ProtocolVersion = PROTOCOL_VERSION, rm_SessionID = sid, rm_Nonce = nonce,
          rm_InitialStreamWindow = InitialStreamWindow cfg,
          rm_InitialSessionWindow = InitialSessionWindow cfg,
          rm_WindowUpdateRatio = DefaultWindowUpdateRatio,
          rm_MaxFrameDataLen = MaxFrameDataSize cfg,
          rm_Reliability = Reliability cfg, rm_AllowConnectionResumption = allow,
          rm_publicKeyLen = 32, rm_PublicKey = pub, rm_signatureLen = 64, rm_Signature = sg\<rparr>"
proof -
  note sz = crypto_sizes [OF assms(1)]
  note parts = responder_fields_parts [OF assms(3), where pub = pub and nonce = nonce and cfg = cfg and
      allow = allow and tail = "64 # sg", folded flds_def, folded body_def]
  have pub: "length pub = 32" by (simp add: pub_def sz)
  have len: "length flds = 86" by (simp add: flds_def pub)
  have sg: "length sg = 64" by (simp add: sg_def sz)
  show body: "length body = 151" by (simp add: body_def len sg)
  show "slice 0 86 body = flds" by (simp add: body_def len slice_def)
  have tl: "body ! 86 = 64" "slice 87 151 body = sg" by (simp_all add: body_def len sg slice_def nth_append)
  show "buildResponderHandshake cr oc allow sid nonce priv ini = ok (be_put16 151 @ body)"
    using assms(2) len sg
    by (simp add: buildResponderHandshake_def ed_sign_def size_defs Let_def seal_eq body_def
        flip: pub_def cfg_def flds_def sg_def)
  show "parseResponderHandshakeMessage body =
       ok \<lparr>rm_ProtocolVersion = PROTOCOL_VERSION, rm_SessionID = sid, rm_Nonce = nonce,
          rm_InitialStreamWindow = InitialStreamWindow cfg,
          rm_InitialSessionWindow = InitialSessionWindow cfg,
          rm_WindowUpdateRatio = DefaultWindowUpdateRatio,
          rm_MaxFrameDataLen = MaxFrameDataSize cfg,
          rm_Reliability = Reliability cfg, rm_AllowConnectionResumption = allow,
          rm_publicKeyLen = 32, rm_PublicKey = pub, rm_signatureLen = 64, rm_Signature = sg\<rparr>"
    by (subst parseResponder_eq) (simp_all add: parts tl pub body sg Let_def size_defs del: One_nat_def)
qed

section \<open>The initiator's check\<close>

text \<open>What an accepted reply has passed.\<close>

lemma check_reply_ok:
  assumes "check_reply cr sid nonce req b = ok resp" "2 \<le> length req"
  shows "parseResponderHandshakeMessage b = ok resp" "rm_ProtocolVersion resp = PROTOCOL_VERSION"
    "length (rm_PublicKey resp) = 32" "rm_publicKeyLen resp = 32" "rm_PublicKey resp = slice 54 86 b"
    "cr_verify cr (rm_PublicKey resp) (responderSignedMessage cr (take 86 b) (drop 2 req)) (rm_Signature resp)"
    "nonce \<noteq> 0 \<Longrightarrow> rm_Nonce resp = nonce" "\<not> isZeroID sid \<Longrightarrow> rm_SessionID resp = sid"
proof -
  obtain p where p: "parseResponderHandshakeMessage b = ok p"
    and q: "rm_ProtocolVersion p = PROTOCOL_VERSION" "length (rm_PublicKey p) = 32"
      "length (rm_Signature p) = 64"
    using assms(1) by (auto simp: check_reply_def rbind_ok_iff size_defs split: if_splits)
  note len = parseResponder_ok [OF p]
  have "54 + unat (rm_publicKeyLen p) \<le> length b" using len(2) by simp
  then have "length (rm_PublicKey p) = unat (rm_publicKeyLen p)" by (simp add: len(3) slice_def)
  with q(2) have "unat (rm_publicKeyLen p) = 32" by simp
  then have pk: "rm_publicKeyLen p = 32" by (simp add: word_unat_eq_iff)
  have sl: "go_slice b 0 86 = ok (take 86 b)" "go_slice req 2 (length req) = ok (drop 2 req)"
    using len(2) pk assms(2) by (simp_all add: slice_def)
  have eq: "p = resp \<and> cr_verify cr (rm_PublicKey p) (responderSignedMessage cr (take 86 b) (drop 2 req)) (rm_Signature p) \<and>
      (nonce \<noteq> 0 \<longrightarrow> rm_Nonce p = nonce) \<and> (\<not> isZeroID sid \<longrightarrow> rm_SessionID p = sid)"
    using assms(1) q pk unfolding check_reply_def p rbind_simps
    by (auto simp: sl size_defs ed_verify_def split: if_splits)
  then show "parseResponderHandshakeMessage b = ok resp" "rm_ProtocolVersion resp = PROTOCOL_VERSION"
    "length (rm_PublicKey resp) = 32" "rm_publicKeyLen resp = 32" "rm_PublicKey resp = slice 54 86 b"
    "cr_verify cr (rm_PublicKey resp) (responderSignedMessage cr (take 86 b) (drop 2 req)) (rm_Signature resp)"
    "nonce \<noteq> 0 \<Longrightarrow> rm_Nonce resp = nonce" "\<not> isZeroID sid \<Longrightarrow> rm_SessionID resp = sid"
    using p q pk len(3) by auto
qed

lemma check_reply_no_panic: "2 \<le> length req \<Longrightarrow> check_reply cr sid nonce req b \<noteq> Panic"
  unfolding check_reply_def
proof (rule rbind_no_panic)
  fix p
  assume req: "2 \<le> length req" and p: "parseResponderHandshakeMessage b = ok p"
  have "54 + unat (rm_publicKeyLen p) \<le> length b" using parseResponder_ok(2) [OF p] by simp
  with req show "(if rm_ProtocolVersion p \<noteq> PROTOCOL_VERSION then err ErrProtocolVersionMismatch
       else if length (rm_PublicKey p) \<noteq> PublicKeySize \<or> length (rm_Signature p) \<noteq> SignatureSize
       then err ErrMalformedHandshake
       else
         rbind (go_slice b 0 (54 + unat (rm_publicKeyLen p))) (\<lambda>signedPortion.
         rbind (go_slice req 2 (length req)) (\<lambda>body.
         rbind (ed_verify cr (rm_PublicKey p) (responderSignedMessage cr signedPortion body)
             (rm_Signature p)) (\<lambda>verified.
         if \<not> verified then err ErrInvalidSignature
         else if nonce \<noteq> 0 \<and> rm_Nonce p \<noteq> nonce then err ErrInvalidNonce
         else if \<not> isZeroID sid \<and> rm_SessionID p \<noteq> sid then err ErrSessionIDMismatch
         else ok p)))) \<noteq> Panic"
    by (simp add: ed_verify_def)
qed (rule parseResponder_no_panic)

lemma read_reply_ok:
  assumes "read_reply cr sid nonce req ci = ok (resp, rest)"
  obtains lb b where "fst ci = lb @ b @ fst rest" "length lb = 2" "length b = unat (be_get16 lb)"
    "check_reply cr sid nonce req b = ok resp"
proof -
  obtain lb c1 where 1: "ReadFull 2 ci = ok (lb, c1)"
    and 2: "rbind (ReadFull (unat (be_get16 lb)) c1) (\<lambda>(b, c2).
        rbind (check_reply cr sid nonce req b) (\<lambda>resp. ok (resp, c2))) = ok (resp, rest)"
    using assms by (auto simp: read_reply_def rbind_ok_iff Let_def split: if_splits)
  obtain b where 3: "ReadFull (unat (be_get16 lb)) c1 = ok (b, rest)" "check_reply cr sid nonce req b = ok resp"
    using 2 by (auto simp: rbind_ok_iff)
  have "fst ci = lb @ fst c1" "length lb = 2" using 1 by (auto simp: ReadFull_def split: if_splits)
  moreover have "fst c1 = b @ fst rest" "length b = unat (be_get16 lb)"
    using 3(1) by (auto simp: ReadFull_def split: if_splits)
  ultimately show ?thesis using that 3(2) by simp
qed

text \<open>The message an honest responder sends.\<close>

definition reply_fields :: "crypto \<Rightarrow> config option \<Rightarrow> bool \<Rightarrow> bytes \<Rightarrow> u16 \<Rightarrow> bytes \<Rightarrow> bytes" where
  "reply_fields cr oc allow sid nonce priv =
     responder_fields (case oc of None \<Rightarrow> DefaultConfig | Some c \<Rightarrow> c) allow sid nonce (cr_public cr priv)"

definition reply_message ::
  "crypto \<Rightarrow> config option \<Rightarrow> bool \<Rightarrow> bytes \<Rightarrow> u16 \<Rightarrow> bytes \<Rightarrow> bytes \<Rightarrow> responder_message" where
  "reply_message cr oc allow sid nonce priv ini =
     (let cfg = (case oc of None \<Rightarrow> DefaultConfig | Some c \<Rightarrow> c) in
      \<lparr>rm_ProtocolVersion = PROTOCOL_VERSION, rm_SessionID = sid, rm_Nonce = nonce,
       rm_InitialStreamWindow = InitialStreamWindow cfg,
       rm_InitialSessionWindow = InitialSessionWindow cfg,
       rm_WindowUpdateRatio = DefaultWindowUpdateRatio,
       rm_MaxFrameDataLen = MaxFrameDataSize cfg,
       rm_Reliability = Reliability cfg, rm_AllowConnectionResumption = allow,
       rm_publicKeyLen = 32, rm_PublicKey = cr_public cr priv, rm_signatureLen = 64,
       rm_Signature = cr_sign cr priv (responderSignedMessage cr (reply_fields cr oc allow sid nonce priv) ini)\<rparr>)"

lemma honest_reply:
  assumes "ed25519_sizes cr"
    "let m = responderSignedMessage cr (reply_fields cr oc allow sid nonce priv) (drop 2 req)
     in cr_verify cr (cr_public cr priv) m (cr_sign cr priv m)"
    "length priv = 64" "length sid = 32" "2 \<le> length req"
    "isZeroID sid0 \<or> sid0 = sid" "n0 = 0 \<or> n0 = nonce"
    "buildResponderHandshake cr oc allow sid nonce priv (drop 2 req) = ok packet"
  shows "read_reply cr sid0 n0 req (packet @ rest, e) =
    ok (reply_message cr oc allow sid nonce priv (drop 2 req), (rest, e))"
proof -
  define cfg where "cfg = (case oc of None \<Rightarrow> DefaultConfig | Some c \<Rightarrow> c)"
  define flds where "flds = responder_fields cfg allow sid nonce (cr_public cr priv)"
  define sg where "sg = cr_sign cr priv (responderSignedMessage cr flds (drop 2 req))"
  note built = responder_built [OF assms(1,3,4), where nonce = nonce and oc = oc and allow = allow and
      ini = "drop 2 req", folded cfg_def, folded flds_def, folded sg_def]
  have packet: "packet = be_put16 151 @ flds @ 64 # sg" using built(1) assms(8) by simp
  have "check_reply cr sid0 n0 req (flds @ 64 # sg) = parseResponderHandshakeMessage (flds @ 64 # sg)"
    using assms(2,5-7) built(3) crypto_sizes [OF assms(1)]
    unfolding check_reply_def built(4) rbind_simps
    by (auto simp: size_defs ed_verify_def go_slice_def slice_def sg_def flds_def cfg_def reply_fields_def Let_def)
  moreover have "read_reply cr sid0 n0 req (packet @ rest, e) =
      rbind (check_reply cr sid0 n0 req (flds @ 64 # sg)) (\<lambda>resp. ok (resp, (rest, e)))"
    using built(2) ReadFull_exact [of "flds @ 64 # sg" 151 rest e]
    by (simp add: packet read_reply_def size_defs Let_def)
  ultimately show ?thesis
    by (simp add: built(4) reply_message_def reply_fields_def Let_def flip: cfg_def flds_def sg_def)
qed

section \<open>Properties\<close>

text \<open>An instance of the parameters, for examples: every signature is the same.\<close>

definition sample_crypto :: crypto where
  "sample_crypto = \<lparr>cr_public = \<lambda>k. go_copy 32 k, cr_sign = \<lambda>k m. replicate 64 7,
     cr_verify = \<lambda>pk m sg. sg = replicate 64 7, cr_sha256 = \<lambda>m. replicate 32 (of_nat (length m))\<rparr>"

lemma sample_crypto_laws: "ed25519_sizes sample_crypto" "ed25519_complete sample_crypto"
  by (simp_all add: ed25519_sizes_def ed25519_complete_def sample_crypto_def size_defs)

text \<open>Handshake messages survive the wire.  Given keys and signatures of the documented sizes, the
  initiator's packet is a length prefix of 165 and a payload that the listener's parser takes
  apart into exactly the session ID, nonce, random value, key and signature it was built from; the
  responder's packet is a prefix of 151 and a payload from which the initiator's parser recovers
  the session ID, nonce, windows, frame size, flags, key and signature, whatever they are.\<close>

lemma handshake_roundtrip:
  assumes "ed25519_sizes cr" "length priv = 64" "length sid = 32" "length rnd = 32"
  shows "(\<exists>req. BuildInitiatorHandshake cr (Inr rnd) sid nonce priv = ok (be_put16 165 @ req) \<and>
      length req = 165 \<and>
      parseInitiatorHandshakeMessage req =
        ok \<lparr>im_ProtocolVersion = PROTOCOL_VERSION, im_SessionID = sid, im_Nonce = nonce, im_Random = rnd,
           im_publicKeyLen = 32, im_PublicKey = cr_public cr priv, im_signatureLen = 64,
           im_Signature = cr_sign cr priv (take 100 req)\<rparr>) \<and>
    (\<exists>rep. buildResponderHandshake cr (Some cfg) allow sid nonce priv ini = ok (be_put16 151 @ rep) \<and>
      length rep = 151 \<and>
      parseResponderHandshakeMessage rep =
        ok \<lparr>rm_ProtocolVersion = PROTOCOL_VERSION, rm_SessionID = sid, rm_Nonce = nonce,
           rm_InitialStreamWindow = InitialStreamWindow cfg,
           rm_InitialSessionWindow = InitialSessionWindow cfg,
           rm_WindowUpdateRatio = DefaultWindowUpdateRatio,
           rm_MaxFrameDataLen = MaxFrameDataSize cfg,
           rm_Reliability = Reliability cfg, rm_AllowConnectionResumption = allow,
           rm_publicKeyLen = 32, rm_PublicKey = cr_public cr priv, rm_signatureLen = 64,
           rm_Signature = cr_sign cr priv (responderSignedMessage cr (take 86 rep) ini)\<rparr>)"
proof -
  define f where "f = initiator_fields sid nonce rnd (cr_public cr priv)"
  define g where "g = responder_fields cfg allow sid nonce (cr_public cr priv)"
  note i = initiator_built [OF assms, where nonce = nonce, folded f_def]
  note r = responder_built [OF assms(1-3), where nonce = nonce and oc = "Some cfg" and allow = allow and ini = ini,
      unfolded option.case, folded g_def]
  show ?thesis
    using i r
    by (intro conjI exI [of _ "f @ 64 # cr_sign cr priv f"]
        exI [of _ "g @ 64 # cr_sign cr priv (responderSignedMessage cr g ini)"])
      (simp_all add: slice_def)
qed

lemma handshake_roundtrip_example:
  "(\<exists>req m. BuildInitiatorHandshake sample_crypto (Inr (replicate 32 5)) (replicate 32 9) 3 (replicate 64 1) =
       ok (be_put16 165 @ req) \<and> parseInitiatorHandshakeMessage req = ok m \<and>
       im_Nonce m = 3 \<and> im_SessionID m = replicate 32 9) \<and>
   (\<exists>rep m. buildResponderHandshake sample_crypto (Some DefaultConfig) True (replicate 32 9) 3 (replicate 64 1) [] =
       ok (be_put16 151 @ rep) \<and> parseResponderHandshakeMessage rep = ok m \<and>
       rm_MaxFrameDataLen m = 32768 \<and> rm_AllowConnectionResumption m)"
  using handshake_roundtrip [OF sample_crypto_laws(1), of "replicate 64 1" "replicate 32 9" "replicate 32 5"
      3 DefaultConfig True "[]"]
  by (auto simp: DefaultConfig_def DEFAULT_MAX_FRAME_DATA_LEN_def)

text \<open>The body of the reply among the bytes \<open>ci\<close> that arrived: what follows the two-byte length.\<close>

definition reply_body :: "conn_in \<Rightarrow> bytes" where
  "reply_body ci = take (unat (be_get16 (take 2 (fst ci)))) (drop 2 (fst ci))"

text \<open>C9: A reply that the initiator accepts was made for its own request.  Let \<open>S\<close> be the replies the
  holder of the key \<open>K\<close> has signed (each a configuration, a resumption flag, a session ID, a nonce
  and the request answered).  Suppose the signature received is no forgery: if it verifies under
  \<open>K\<close> for the message the initiator checks it against, the holder has signed that message.
  Suppose also that SHA-256 does not confuse this request with another one answered.  If the exchange
  succeeds with a reply under \<open>K\<close>, then \<open>S\<close> contains the answer to exactly this request, with the
  session ID and nonce received, and every parameter received is the one that was signed.  A
  recorded reply to another request, or one altered on the way, is never accepted.\<close>

theorem reply_authentic:
  assumes "read_reply cr sid nonce req ci = ok (resp, rest)" "2 \<le> length req" "rm_PublicKey resp = K"
    and unforgeable: "cr_verify cr K (responderSignedMessage cr (take 86 (reply_body ci)) (drop 2 req)) (rm_Signature resp) \<Longrightarrow>
      \<exists>(cfg, allow, sid', n', r) \<in> S. length sid' = 32 \<and>
        responderSignedMessage cr (take 86 (reply_body ci)) (drop 2 req) =
          responderSignedMessage cr (responder_fields cfg allow sid' n' K) r"
    and sha256: "\<And>m. length (cr_sha256 cr m) = 32"
    and collision_free: "\<And>cfg allow sid' n' r. (cfg, allow, sid', n', r) \<in> S \<Longrightarrow>
      cr_sha256 cr (transcriptLabel @ drop 2 req) = cr_sha256 cr (transcriptLabel @ r) \<Longrightarrow> r = drop 2 req"
  shows "\<exists>cfg. (cfg, rm_AllowConnectionResumption resp, rm_SessionID resp, rm_Nonce resp, drop 2 req) \<in> S \<and>
    rm_InitialStreamWindow resp = InitialStreamWindow cfg \<and>
    rm_InitialSessionWindow resp = InitialSessionWindow cfg \<and>
    rm_MaxFrameDataLen resp = MaxFrameDataSize cfg \<and> rm_Reliability resp = Reliability cfg"
proof -
  define b where "b = reply_body ci"
  have chk: "check_reply cr sid nonce req b = ok resp"
    by (rule read_reply_ok [OF assms(1)]) (simp add: b_def reply_body_def)
  note c = check_reply_ok [OF chk assms(2)]
  obtain cfg allow sid' n' r where S: "(cfg, allow, sid', n', r) \<in> S" and sid: "length sid' = 32"
    and m: "responderSignedMessage cr (take 86 b) (drop 2 req) =
      responderSignedMessage cr (responder_fields cfg allow sid' n' K) r"
    using unforgeable c(6) assms(3) by (auto simp: b_def)
  have K: "length K = 32" using c(3) assms(3) by simp
  have ge: "ResponderPayloadLen \<le> length b" by (rule parseResponder_ok(1) [OF c(1)])
  then have "length (take 86 b) = length (responder_fields cfg allow sid' n' K)"
    by (simp add: K size_defs)
  with m have eq: "take 86 b = responder_fields cfg allow sid' n' K"
    and "cr_sha256 cr (transcriptLabel @ drop 2 req) = cr_sha256 cr (transcriptLabel @ r)"
    by (simp_all add: responderSignedMessage_def)
  then have r: "r = drop 2 req" using collision_free [OF S] by blast
  have b: "b = responder_fields cfg allow sid' n' K @ drop 86 b" by (metis eq append_take_drop_id)
  note parts = responder_fields_parts [OF sid K, of cfg allow n' "drop 86 b", folded b]
  have "rm_AllowConnectionResumption resp = allow \<and> rm_SessionID resp = sid' \<and> rm_Nonce resp = n' \<and>
    rm_InitialStreamWindow resp = InitialStreamWindow cfg \<and>
    rm_InitialSessionWindow resp = InitialSessionWindow cfg \<and>
    rm_MaxFrameDataLen resp = MaxFrameDataSize cfg \<and> rm_Reliability resp = Reliability cfg"
    using c(1) unfolding parseResponder_eq [OF ge] Let_def parts by (auto split: if_splits)
  with S r show ?thesis by blast
qed

text \<open>An honest exchange: the responder with key \<open>replicate 64 1\<close> answers \<open>sample_request\<close>.\<close>

definition sample_request :: bytes where
  "sample_request = be_put16 165 @ replicate 165 3"

lemma sample_reply:
  obtains packet where
    "read_reply sample_crypto (replicate 32 0) 0 sample_request (packet, ErrEOF) =
      ok (reply_message sample_crypto (Some DefaultConfig) True (replicate 32 9) 0 (replicate 64 1)
        (drop 2 sample_request), ([], ErrEOF))"
    "take 86 (reply_body (packet, ErrEOF)) =
      responder_fields DefaultConfig True (replicate 32 9) 0 (go_copy 32 (replicate 64 1))"
proof -
  let ?f = "responder_fields DefaultConfig True (replicate 32 9) 0 (go_copy 32 (replicate 64 (1 :: u8)))"
  note built = responder_built [OF sample_crypto_laws(1), of "replicate 64 1" "replicate 32 9" "Some DefaultConfig" True 0
      "drop 2 sample_request"]
  obtain sg where packet: "buildResponderHandshake sample_crypto (Some DefaultConfig) True (replicate 32 9) 0
      (replicate 64 1) (drop 2 sample_request) = ok (be_put16 151 @ ?f @ 64 # sg)" "length ?f = 86" "length sg = 64"
    using built by (auto simp: sample_crypto_def)
  have "read_reply sample_crypto (replicate 32 0) 0 sample_request ((be_put16 151 @ ?f @ 64 # sg) @ [], ErrEOF) =
      ok (reply_message sample_crypto (Some DefaultConfig) True (replicate 32 9) 0 (replicate 64 1)
        (drop 2 sample_request), ([], ErrEOF))"
    by (rule honest_reply [OF sample_crypto_laws(1) _ _ _ _ _ _ packet(1)])
      (simp_all add: sample_crypto_def isZeroID_def list_all_iff sample_request_def)
  moreover have "take 86 (reply_body (be_put16 151 @ ?f @ 64 # sg, ErrEOF)) = ?f"
    using packet(2,3) by (simp add: reply_body_def)
  ultimately show ?thesis using that by simp
qed

theorem reply_authentic_witness:
  "ed25519_sizes sample_crypto \<and> ed25519_complete sample_crypto \<and>
   (\<exists>packet cfg. read_reply sample_crypto (replicate 32 0) 0 sample_request (packet, ErrEOF) =
      ok (reply_message sample_crypto (Some DefaultConfig) True (replicate 32 9) 0 (replicate 64 1)
        (drop 2 sample_request), ([], ErrEOF)) \<and>
     (cfg, True, replicate 32 9, 0, drop 2 sample_request) \<in> {(DefaultConfig, True, replicate 32 9, 0, drop 2 sample_request)})"
proof -
  let ?S = "{(DefaultConfig, True, replicate 32 9, 0 :: u16, drop 2 sample_request)}"
  obtain packet where r: "read_reply sample_crypto (replicate 32 0) 0 sample_request (packet, ErrEOF) =
      ok (reply_message sample_crypto (Some DefaultConfig) True (replicate 32 9) 0 (replicate 64 1)
        (drop 2 sample_request), ([], ErrEOF))"
    "take 86 (reply_body (packet, ErrEOF)) =
      responder_fields DefaultConfig True (replicate 32 9) 0 (go_copy 32 (replicate 64 1))"
    using sample_reply by blast
  have "\<And>m. length (cr_sha256 sample_crypto m) = 32" "2 \<le> length sample_request"
    by (simp_all add: sample_crypto_def sample_request_def)
  then have "\<exists>cfg. (cfg, True, replicate 32 9, 0, drop 2 sample_request) \<in> ?S"
    using reply_authentic [OF r(1), where K = "go_copy 32 (replicate 64 1)" and S = ?S] r(2)
    by (auto simp: reply_message_def sample_crypto_def Let_def)
  with r(1) sample_crypto_laws show ?thesis by blast
qed

lemma small_window_positive:
  "w \<noteq> 0 \<Longrightarrow> int (unat w) \<le> i32_max \<Longrightarrow> 0 < sint w" for w :: u32
proof -
  assume w: "w \<noteq> 0" "int (unat w) \<le> i32_max"
  then have "uint w \<le> 2147483647" by (simp add: i32_max_def)
  then have "sint w = uint w" using sint_of_int [of "uint w"] uint_ge_0 [of w] by simp
  moreover have "uint w \<noteq> 0" using w(1) by (simp add: uint_0_iff)
  ultimately show ?thesis using uint_ge_0 [of w] by linarith
qed

lemma fill_switches [simp]:
  "Reliability (fill_frame c) = Reliability c" "Reliability (fill_buffers c) = Reliability c"
  "Reliability (fill_pending c) = Reliability c" "Reliability (fill_times c) = Reliability c"
  "AllowConnectionResumption (fill_frame c) = AllowConnectionResumption c"
  "AllowConnectionResumption (fill_buffers c) = AllowConnectionResumption c"
  "AllowConnectionResumption (fill_pending c) = AllowConnectionResumption c"
  "AllowConnectionResumption (fill_times c) = AllowConnectionResumption c"
  by (simp_all add: fill_defs)

text \<open>C26: Whatever a responder advertises, a session that the initiator creates from it is sound: the
  reply is refused, or the session's configuration satisfies everything the rest of the code
  assumes, uses exactly the advertised frame size and stream window (and the advertised session
  window, or the default for zero), both windows are positive as the signed 32-bit numbers they
  are tracked in, and the session survives a lost transport only if both sides allow it.\<close>

theorem negotiated_config_sound:
  assumes "negotiatedConfig local resp = Inr cfg"
  shows "let c = session_config (Some cfg) in
     config_ok c \<and> MaxFrameDataSize c = rm_MaxFrameDataLen resp \<and>
     InitialStreamWindow c = rm_InitialStreamWindow resp \<and>
     InitialSessionWindow c =
       (if rm_InitialSessionWindow resp = 0 then DefaultInitialSessionWindow else rm_InitialSessionWindow resp) \<and>
     0 < sint (InitialStreamWindow c) \<and> 0 < sint (InitialSessionWindow c) \<and>
     Reliability c = rm_Reliability resp \<and>
     AllowConnectionResumption c = (AllowConnectionResumption local \<and> rm_AllowConnectionResumption resp)"
proof -
  define c where "c = session_config (Some cfg)"
  have r: "rm_MaxFrameDataLen resp \<noteq> 0" "unat (rm_MaxFrameDataLen resp) \<le> MaxAllocSize"
    "rm_InitialStreamWindow resp \<noteq> 0" "int (unat (rm_InitialStreamWindow resp)) \<le> i32_max"
    "int (unat (rm_InitialSessionWindow resp)) \<le> i32_max"
    and cfg: "cfg = local\<lparr>InitialStreamWindow := rm_InitialStreamWindow resp,
             InitialSessionWindow := rm_InitialSessionWindow resp,
             MaxFrameDataSize := rm_MaxFrameDataLen resp,
             Reliability := rm_Reliability resp,
             AllowConnectionResumption :=
               AllowConnectionResumption local \<and> rm_AllowConnectionResumption resp\<rparr>"
    using assms by (auto simp: negotiatedConfig_def split: if_splits)
  have same: "MaxFrameDataSize c = rm_MaxFrameDataLen resp" "InitialStreamWindow c = rm_InitialStreamWindow resp"
    "InitialSessionWindow c =
       (if rm_InitialSessionWindow resp = 0 then DefaultInitialSessionWindow else rm_InitialSessionWindow resp)"
    using r(1-3) by (simp_all add: c_def cfg session_config_def fill_frame_def Let_def)
  moreover have "Reliability c = rm_Reliability resp"
    "AllowConnectionResumption c = (AllowConnectionResumption local \<and> rm_AllowConnectionResumption resp)"
    by (simp_all add: c_def cfg session_config_def Let_def)
  moreover have "0 < sint (InitialStreamWindow c)" "0 < sint (InitialSessionWindow c)"
    using r(3-5) by (simp_all add: same small_window_positive DefaultInitialSessionWindow_def)
  moreover have "config_ok c" unfolding c_def by (rule session_config_ok)
  ultimately show ?thesis unfolding c_def [symmetric] Let_def by (intro conjI)
qed

definition sample_reply_message :: responder_message where
  "sample_reply_message =
     reply_message sample_crypto (Some DefaultConfig) True (replicate 32 9) 0 (replicate 64 1) []"

lemma sample_negotiation:
  "negotiatedConfig DefaultConfig sample_reply_message = Inr DefaultConfig"
  by (simp add: sample_reply_message_def reply_message_def negotiatedConfig_def DefaultConfig_def default_defs
      i32_max_def)

theorem negotiated_config_sound_witness:
  "config_ok (session_config (Some DefaultConfig)) \<and>
   0 < sint (InitialStreamWindow (session_config (Some DefaultConfig))) \<and>
   MaxFrameDataSize (session_config (Some DefaultConfig)) = rm_MaxFrameDataLen sample_reply_message"
  using negotiated_config_sound [OF sample_negotiation, unfolded Let_def] by blast

end
