(* ===== verification/PacketConn.thy ===== *)
theory PacketConn
  imports Config ByteSource
begin

text \<open>
  Datagram transports: the listener's per-peer connection \<^verbatim>\<open>packetSubConn\<close>
  (\<^verbatim>\<open>src/packetListener.go\<close>: \<^verbatim>\<open>newPacketSubConn\<close>, \<^verbatim>\<open>feed\<close>, \<^verbatim>\<open>Read\<close>, \<^verbatim>\<open>ReadPacket\<close>, \<^verbatim>\<open>Write\<close>, the
  deadlines, \<^verbatim>\<open>Close\<close>), and one turn of \<^verbatim>\<open>packetReadLoop\<close> that routes a datagram to it.

  A connection's queue is the ring of \<open>RingBuffer\<close>.  A read that finds nothing ends in \<open>SR_Wait\<close>
  with \<^verbatim>\<open>readMu\<close> held; \<open>sub_wake\<close> is the \<^verbatim>\<open>select\<close> it waits in, with the case that fires.  Addresses
  are byte strings (zones are left out); the socket is a parameter.
\<close>

section \<open>Addresses\<close>

type_synonym ip = bytes

datatype net_addr = UDPAddr ip u16 | IPAddr ip | OtherAddr bytes

text \<open>\<^verbatim>\<open>netip.AddrFromSlice\<close> and \<^verbatim>\<open>Unmap\<close>.\<close>

definition AddrFromSlice :: "bytes \<Rightarrow> ip option" where
  "AddrFromSlice b = (if length b = 4 \<or> length b = 16 then Some b else None)"

definition Unmap :: "ip \<Rightarrow> ip" where
  "Unmap a = (if length a = 16 \<and> take 12 a = replicate 10 0 @ [255, 255] then drop 12 a else a)"

definition addr_port :: "net_addr \<Rightarrow> (ip \<times> u16) option" where
  "addr_port r = (case r of UDPAddr i p \<Rightarrow> map_option (\<lambda>a. (a, p)) (AddrFromSlice i) | _ \<Rightarrow> None)"

definition addr_ip :: "net_addr \<Rightarrow> ip option" where
  "addr_ip r = (case r of IPAddr i \<Rightarrow> map_option Unmap (AddrFromSlice i) | _ \<Rightarrow> None)"

text \<open>Errors that mean a lost datagram; \<open>ErrIO\<close> carries the \<^verbatim>\<open>syscall.Errno\<close>, numbered as on Linux:
  \<^verbatim>\<open>ENOBUFS\<close>, \<^verbatim>\<open>EAGAIN\<close>, \<^verbatim>\<open>ECONNREFUSED\<close>, \<^verbatim>\<open>EHOSTUNREACH\<close>, \<^verbatim>\<open>ENETUNREACH\<close>, \<^verbatim>\<open>EHOSTDOWN\<close>,
  \<^verbatim>\<open>ENETDOWN\<close>, \<^verbatim>\<open>EMSGSIZE\<close>, \<^verbatim>\<open>ENOPROTOOPT\<close>.\<close>

definition isTransientDatagramErr :: "go_error \<Rightarrow> bool" where
  "isTransientDatagramErr e =
     (case e of
        ErrIO errno \<Rightarrow> errno \<in> set [105, 11, 111, 113, 101, 112, 100, 90, 92]
      | _ \<Rightarrow> False)"

section \<open>packetSubConn\<close>

text \<open>\<open>None\<close> in \<open>sc_udp\<close> and \<open>sc_ip\<close> is the invalid zero address; a deadline of \<open>None\<close> is nil or the zero
  time; \<open>sc_closeWait\<close> is a \<^verbatim>\<open>Close\<close> that waits for \<^verbatim>\<open>readMu\<close>.\<close>

record sub_conn =
  sc_remote :: net_addr
  sc_udp :: "(ip \<times> u16) option"
  sc_ip :: "ip option"
  sc_queue :: ring
  sc_waiting :: bool
  sc_readMu :: bool
  sc_notify :: bool
  sc_closed :: bool
  sc_die :: bool
  sc_closeOnce :: bool
  sc_readDeadline :: "time option"
  sc_writeDeadline :: "time option"
  sc_closeWait :: bool

type_synonym pref = nat

text \<open>The part of the listener its peers use: the three maps, the connections behind the pointers, the
  contents of the buffers, the \<^verbatim>\<open>closed\<close> flag and the kind of socket.  \<open>pt_goHandshake\<close> are the
  goroutines \<^verbatim>\<open>handleIncomingPacketConn\<close> that have been started.\<close>

record peer_side =
  pt_conns :: "(bytes, pref) gomap"
  pt_udp :: "(ip \<times> u16, pref) gomap"
  pt_ip :: "(ip, pref) gomap"
  pt_subs :: "pref \<Rightarrow> sub_conn"
  pt_next :: pref
  pt_bufs :: "bref \<Rightarrow> bytes"
  pt_nextB :: bref
  pt_freed :: "bref list"
  pt_panic :: bool
  pt_now :: time
  pt_closed :: bool
  pt_isUDP :: bool
  pt_pconn :: bool
  pt_mtu :: nat
  pt_goHandshake :: "pref list"

definition upd_sub :: "pref \<Rightarrow> (sub_conn \<Rightarrow> sub_conn) \<Rightarrow> 'a peer_side_scheme \<Rightarrow> 'a peer_side_scheme" where
  "upd_sub p f L = L\<lparr>pt_subs := (pt_subs L)(p := f (pt_subs L p))\<rparr>"

definition pt_put :: "bref option \<Rightarrow> 'a peer_side_scheme \<Rightarrow> 'a peer_side_scheme" where
  "pt_put h L = (case h of None \<Rightarrow> L | Some b \<Rightarrow> L\<lparr>pt_freed := pt_freed L @ [b]\<rparr>)"

definition newPacketSubConn :: "net_addr \<Rightarrow> sub_conn" where
  "newPacketSubConn raddr =
     \<lparr>sc_remote = raddr, sc_udp = addr_port raddr, sc_ip = addr_ip raddr,
      sc_queue = NewBufferRing 16, sc_waiting = False, sc_readMu = False, sc_notify = False,
      sc_closed = False, sc_die = False, sc_closeOnce = False,
      sc_readDeadline = None, sc_writeDeadline = None, sc_closeWait = False\<rparr>"

definition sub_gone :: "pref \<Rightarrow> 'a peer_side_scheme \<Rightarrow> bool" where
  "sub_gone p L \<longleftrightarrow> sc_closed (pt_subs L p) \<or> pt_closed L"

subsection \<open>feed\<close>

definition sub_wakeReader :: "pref \<Rightarrow> 'a peer_side_scheme \<Rightarrow> 'a peer_side_scheme" where
  "sub_wakeReader p L = upd_sub p (\<lambda>s. s\<lparr>sc_notify := True\<rparr>) L"

text \<open>The two halves of \<^verbatim>\<open>feed\<close>: the push, and the look at \<^verbatim>\<open>waitState\<close>.\<close>

definition sub_push :: "pbuf \<Rightarrow> pref \<Rightarrow> 'a peer_side_scheme \<Rightarrow> 'a peer_side_scheme" where
  "sub_push buffer p L =
     (case Push (Some (snd buffer)) (Some (fst buffer)) (sc_queue (pt_subs L p)) of
        Panic \<Rightarrow> L\<lparr>pt_panic := True\<rparr>
      | Ret (r, bk) \<Rightarrow> pt_put bk (upd_sub p (\<lambda>s. s\<lparr>sc_queue := r\<rparr>) L))"

definition sub_signal :: "pref \<Rightarrow> 'a peer_side_scheme \<Rightarrow> 'a peer_side_scheme" where
  "sub_signal p L = (if sc_waiting (pt_subs L p) then sub_wakeReader p L else L)"

definition sub_feed :: "pbuf \<Rightarrow> pref \<Rightarrow> 'a peer_side_scheme \<Rightarrow> go_error option \<times> 'a peer_side_scheme" where
  "sub_feed buffer p L =
     (if sc_closed (pt_subs L p) then (Some ErrClosedPipe, L)
      else (None, sub_signal p (sub_push buffer p L)))"

subsection \<open>Read\<close>

text \<open>One \<^verbatim>\<open>PartialRead\<close> with the \<^verbatim>\<open>Put\<close> of a drained buffer, and the loop that fills \<open>b\<close>.\<close>

definition sub_partial :: "nat \<Rightarrow> pref \<Rightarrow> 'a peer_side_scheme \<Rightarrow> bytes \<times> 'a peer_side_scheme" where
  "sub_partial k p L =
     (case PartialRead k (sc_queue (pt_subs L p)) of
        Panic \<Rightarrow> ([], L\<lparr>pt_panic := True\<rparr>)
      | Ret (d, bk, r) \<Rightarrow> (d, pt_put bk (upd_sub p (\<lambda>s. s\<lparr>sc_queue := r\<rparr>) L)))"

function sub_fill :: "nat \<Rightarrow> pref \<Rightarrow> 'a peer_side_scheme \<Rightarrow> bytes \<times> 'a peer_side_scheme" where
  "sub_fill k p L =
     (if k = 0 then ([], L)
      else
        case sub_partial k p L of
          (d, L1) \<Rightarrow>
            if d = [] then ([], L1)
            else (case sub_fill (k - length d) p L1 of (e, L2) \<Rightarrow> (d @ e, L2)))"
  by pat_completeness auto
termination by (relation "measure fst") auto

declare sub_fill.simps [simp del]

definition sub_set_waiting :: "bool \<Rightarrow> pref \<Rightarrow> 'a peer_side_scheme \<Rightarrow> 'a peer_side_scheme" where
  "sub_set_waiting w p L = upd_sub p (\<lambda>s. s\<lparr>sc_waiting := w\<rparr>) L"

datatype sub_end = SR_Data bytes | SR_Err go_error | SR_Wait

text \<open>A turn of the outer loop up to the \<^verbatim>\<open>select\<close>: the first half up to setting \<^verbatim>\<open>waitState\<close>, and the
  second look at the queue.\<close>

definition sub_second :: "nat \<Rightarrow> pref \<Rightarrow> 'a peer_side_scheme \<Rightarrow> sub_end \<times> 'a peer_side_scheme" where
  "sub_second k p L =
     (case sub_partial k p L of
        (d1, L1) \<Rightarrow>
          if d1 \<noteq> [] then
            (case sub_fill (k - length d1) p
                (upd_sub p (\<lambda>s. s\<lparr>sc_waiting := False, sc_notify := False\<rparr>) L1) of
               (d2, L2) \<Rightarrow> (SR_Data (d1 @ d2), L2))
          else if sub_gone p L1 then (SR_Err ErrClosedPipe, sub_set_waiting False p L1)
          else (SR_Wait, L1))"

definition sub_round :: "nat \<Rightarrow> pref \<Rightarrow> 'a peer_side_scheme \<Rightarrow> sub_end \<times> 'a peer_side_scheme" where
  "sub_round k p L =
     (case sub_fill k p L of
        (d, L1) \<Rightarrow>
          if d \<noteq> [] then (SR_Data d, L1)
          else if sub_gone p L1 then (SR_Err ErrClosedPipe, L1)
          else sub_second k p (sub_set_waiting True p L1))"

text \<open>The loop that pops what is left and gives it back (\<^verbatim>\<open>drainRing\<close>, and the deferred function of
  \<^verbatim>\<open>Read\<close>); the ring's length bounds its turns.\<close>

fun drain_loop :: "nat \<Rightarrow> pref \<Rightarrow> 'a peer_side_scheme \<Rightarrow> 'a peer_side_scheme" where
  "drain_loop 0 p L = L"
| "drain_loop (Suc fuel) p L =
     (case Pop (sc_queue (pt_subs L p)) of
        Panic \<Rightarrow> L\<lparr>pt_panic := True\<rparr>
      | Ret (None, r) \<Rightarrow> upd_sub p (\<lambda>s. s\<lparr>sc_queue := r\<rparr>) L
      | Ret (Some (_, h), r) \<Rightarrow> drain_loop fuel p (pt_put h (upd_sub p (\<lambda>s. s\<lparr>sc_queue := r\<rparr>) L)))"

definition sub_drainRing :: "pref \<Rightarrow> 'a peer_side_scheme \<Rightarrow> 'a peer_side_scheme" where
  "sub_drainRing p L = drain_loop (Suc (length (ring_items (sc_queue (pt_subs L p))))) p L"

definition sub_unlock :: "pref \<Rightarrow> sub_end \<times> 'a peer_side_scheme \<Rightarrow> sub_end \<times> 'a peer_side_scheme" where
  "sub_unlock p r =
     (case r of
        (SR_Wait, L) \<Rightarrow> (SR_Wait, L)
      | (x, L) \<Rightarrow>
          (x, upd_sub p (\<lambda>s. s\<lparr>sc_readMu := False\<rparr>) (if sub_gone p L then sub_drainRing p L else L)))"

text \<open>\<open>None\<close>: another reader holds \<^verbatim>\<open>readMu\<close>.\<close>

definition sub_Read :: "nat \<Rightarrow> pref \<Rightarrow> 'a peer_side_scheme \<Rightarrow> (sub_end \<times> 'a peer_side_scheme) option" where
  "sub_Read k p L =
     (if k = 0 then Some (SR_Data [], L)
      else if sub_gone p L then Some (SR_Err ErrClosedPipe, L)
      else if sc_readMu (pt_subs L p) then None
      else
        let L1 = upd_sub p (\<lambda>s. s\<lparr>sc_readMu := True\<rparr>) L in
        Some (sub_unlock p
          (case sc_readDeadline (pt_subs L1 p) of
             None \<Rightarrow> sub_round k p L1
           | Some dl \<Rightarrow> if dl - pt_now L1 \<le> 0 then (SR_Err ErrDeadlineExceeded, L1) else sub_round k p L1)))"

datatype wake = WakeDie | WakeTimer | WakeNotify

text \<open>The \<^verbatim>\<open>select\<close>; \<open>timer\<close> is when the timer set at the beginning fires.\<close>

definition sub_wake :: "wake \<Rightarrow> time option \<Rightarrow> nat \<Rightarrow> pref \<Rightarrow> 'a peer_side_scheme \<Rightarrow> sub_end \<times> 'a peer_side_scheme" where
  "sub_wake w timer k p L =
     (case w of
        WakeDie \<Rightarrow>
          if sc_die (pt_subs L p) then sub_unlock p (SR_Err ErrClosedPipe, sub_set_waiting False p L)
          else (SR_Wait, L)
      | WakeTimer \<Rightarrow>
          (case timer of
             Some t \<Rightarrow>
               if t \<le> pt_now L then sub_unlock p (SR_Err ErrDeadlineExceeded, sub_set_waiting False p L)
               else (SR_Wait, L)
           | None \<Rightarrow> (SR_Wait, L))
      | WakeNotify \<Rightarrow>
          if sc_notify (pt_subs L p)
          then sub_unlock p (sub_round k p (upd_sub p (\<lambda>s. s\<lparr>sc_notify := False, sc_waiting := False\<rparr>) L))
          else (SR_Wait, L))"

subsection \<open>ReadPacket\<close>

datatype packet_round = PR_Packet pbuf | PR_Err go_error | PR_Wait

text \<open>The loop up to the \<^verbatim>\<open>select\<close>, first as its three steps: the \<^verbatim>\<open>Pop\<close>, the look at the flags, and
  setting \<^verbatim>\<open>waitState\<close>.\<close>

definition rp_pop :: "pref \<Rightarrow> 'a peer_side_scheme \<Rightarrow> pbuf option \<times> 'a peer_side_scheme" where
  "rp_pop p L =
     (case Pop (sc_queue (pt_subs L p)) of
        Panic \<Rightarrow> (None, L\<lparr>pt_panic := True\<rparr>)
      | Ret (x, r) \<Rightarrow>
          let L1 = upd_sub p (\<lambda>s. s\<lparr>sc_queue := r\<rparr>) L in
          case x of
            Some (_, Some h) \<Rightarrow> (Some (h, pt_bufs L h), L1)
          | _ \<Rightarrow> (None, L1))"

definition rp_round :: "pref \<Rightarrow> 'a peer_side_scheme \<Rightarrow> packet_round \<times> 'a peer_side_scheme" where
  "rp_round p L =
     (case rp_pop p L of
        (Some b, L1) \<Rightarrow> (PR_Packet b, L1)
      | (None, L1) \<Rightarrow>
          if sub_gone p L1 then (PR_Err ErrClosedPipe, L1)
          else (PR_Wait, sub_set_waiting True p L1))"

definition rp_unlock :: "pref \<Rightarrow> packet_round \<times> 'a peer_side_scheme \<Rightarrow> packet_round \<times> 'a peer_side_scheme" where
  "rp_unlock p r =
     (case r of
        (PR_Wait, L) \<Rightarrow> (PR_Wait, L)
      | (x, L) \<Rightarrow> (x, upd_sub p (\<lambda>s. s\<lparr>sc_readMu := False\<rparr>) L))"

definition sub_ReadPacket :: "pref \<Rightarrow> 'a peer_side_scheme \<Rightarrow> (packet_round \<times> 'a peer_side_scheme) option" where
  "sub_ReadPacket p L =
     (if sub_gone p L then Some (PR_Err ErrClosedPipe, L)
      else if sc_readMu (pt_subs L p) then None
      else Some (rp_unlock p (rp_round p (upd_sub p (\<lambda>s. s\<lparr>sc_readMu := True\<rparr>) L))))"

definition rp_wake :: "bool \<Rightarrow> pref \<Rightarrow> 'a peer_side_scheme \<Rightarrow> packet_round \<times> 'a peer_side_scheme" where
  "rp_wake die p L =
     (if die then
        if sc_die (pt_subs L p) then rp_unlock p (PR_Err ErrClosedPipe, L) else (PR_Wait, L)
      else if sc_notify (pt_subs L p)
      then rp_unlock p (rp_round p (upd_sub p (\<lambda>s. s\<lparr>sc_notify := False, sc_waiting := False\<rparr>) L))
      else (PR_Wait, L))"

subsection \<open>Write and the rest\<close>

text \<open>\<open>sock\<close> is the socket: what a write of these bytes to that address returns.\<close>

definition sub_Write ::
  "(net_addr \<Rightarrow> bytes \<Rightarrow> nat \<times> go_error option) \<Rightarrow> bytes \<Rightarrow> pref \<Rightarrow> 'a peer_side_scheme \<Rightarrow> nat \<times> go_error option" where
  "sub_Write sock b p L =
     (if sub_gone p L then (0, Some ErrClosedPipe)
      else if \<not> pt_pconn L then (length b, None)
      else
        let r = (case sc_udp (pt_subs L p) of
                   Some (a, port) \<Rightarrow> if pt_isUDP L then sock (UDPAddr a port) b else sock (sc_remote (pt_subs L p)) b
                 | None \<Rightarrow> sock (sc_remote (pt_subs L p)) b)
        in case snd r of
             Some e \<Rightarrow> if isTransientDatagramErr e then (length b, None) else r
           | None \<Rightarrow> r)"

definition sub_maxDatagramSize :: "'a peer_side_scheme \<Rightarrow> nat" where
  "sub_maxDatagramSize L = (if pt_mtu L = 0 then 1400 else pt_mtu L)"

definition sub_SetDeadline :: "time option \<Rightarrow> pref \<Rightarrow> 'a peer_side_scheme \<Rightarrow> 'a peer_side_scheme" where
  "sub_SetDeadline t p L = upd_sub p (\<lambda>s. s\<lparr>sc_readDeadline := t, sc_writeDeadline := t\<rparr>) L"

definition sub_SetReadDeadline :: "time option \<Rightarrow> pref \<Rightarrow> 'a peer_side_scheme \<Rightarrow> 'a peer_side_scheme" where
  "sub_SetReadDeadline t p L = upd_sub p (\<lambda>s. s\<lparr>sc_readDeadline := t\<rparr>) L"

definition sub_SetWriteDeadline :: "time option \<Rightarrow> pref \<Rightarrow> 'a peer_side_scheme \<Rightarrow> 'a peer_side_scheme" where
  "sub_SetWriteDeadline t p L = upd_sub p (\<lambda>s. s\<lparr>sc_writeDeadline := t\<rparr>) L"

subsection \<open>Close\<close>

text \<open>The steps of \<^verbatim>\<open>Close\<close>: the flags; under \<^verbatim>\<open>peerMu\<close> the map entries of this address; the ring, which
  waits for a reader.  \<open>str\<close> is \<^verbatim>\<open>net.Addr.String\<close>.\<close>

definition sub_close_mark :: "pref \<Rightarrow> 'a peer_side_scheme \<Rightarrow> 'a peer_side_scheme" where
  "sub_close_mark p L = upd_sub p (\<lambda>s. s\<lparr>sc_closeOnce := True, sc_closed := True, sc_die := True\<rparr>) L"

definition sub_close_unmap :: "(net_addr \<Rightarrow> bytes) \<Rightarrow> pref \<Rightarrow> 'a peer_side_scheme \<Rightarrow> 'a peer_side_scheme" where
  "sub_close_unmap str p L =
     (let s = pt_subs L p;
          L1 = (case sc_udp s of None \<Rightarrow> L | Some a \<Rightarrow> L\<lparr>pt_udp := AList.delete a (pt_udp L)\<rparr>);
          L2 = (case sc_ip s of None \<Rightarrow> L1 | Some a \<Rightarrow> L1\<lparr>pt_ip := AList.delete a (pt_ip L1)\<rparr>)
      in L2\<lparr>pt_conns := AList.delete (str (sc_remote s)) (pt_conns L2)\<rparr>)"

definition sub_close_drain :: "pref \<Rightarrow> 'a peer_side_scheme \<Rightarrow> 'a peer_side_scheme" where
  "sub_close_drain p L =
     (if sc_readMu (pt_subs L p) then upd_sub p (\<lambda>s. s\<lparr>sc_closeWait := True\<rparr>) L
      else upd_sub p (\<lambda>s. s\<lparr>sc_queue := fst (ring_Close (sc_queue s)), sc_closeWait := False\<rparr>) (sub_drainRing p L))"

definition sub_Close :: "(net_addr \<Rightarrow> bytes) \<Rightarrow> pref \<Rightarrow> 'a peer_side_scheme \<Rightarrow> 'a peer_side_scheme" where
  "sub_Close str p L =
     (if sc_closeOnce (pt_subs L p) then L
      else sub_close_drain p (sub_close_unmap str p (sub_close_mark p L)))"

definition sub_close_step :: "pref \<Rightarrow> 'a peer_side_scheme \<Rightarrow> 'a peer_side_scheme" where
  "sub_close_step p L = (if sc_closeWait (pt_subs L p) then sub_close_drain p L else L)"

section \<open>packetReadLoop\<close>

text \<open>The map lookup for a datagram's source.\<close>

definition route :: "(net_addr \<Rightarrow> bytes) \<Rightarrow> net_addr \<Rightarrow> 'a peer_side_scheme \<Rightarrow> pref option" where
  "route str raddr L =
     (if pt_isUDP L then Option.bind (addr_port raddr) (map_of (pt_udp L))
      else
        case addr_ip raddr of
          Some a \<Rightarrow> map_of (pt_ip L) a
        | None \<Rightarrow> map_of (pt_conns L) (str raddr))"

definition register :: "(net_addr \<Rightarrow> bytes) \<Rightarrow> net_addr \<Rightarrow> 'a peer_side_scheme \<Rightarrow> pref \<times> 'a peer_side_scheme" where
  "register str raddr L =
     (let p = pt_next L;
          L0 = L\<lparr>pt_next := Suc p, pt_subs := (pt_subs L)(p := newPacketSubConn raddr)\<rparr>;
          L1 = (if pt_isUDP L0
                then (case addr_port raddr of
                        Some a \<Rightarrow> L0\<lparr>pt_udp := AList.update a p (pt_udp L0)\<rparr> | None \<Rightarrow> L0)
                else
                  case addr_ip raddr of
                    Some a \<Rightarrow> L0\<lparr>pt_ip := AList.update a p (pt_ip L0)\<rparr>
                  | None \<Rightarrow> L0)
      in (p, L1\<lparr>pt_conns := AList.update (str raddr) p (pt_conns L1)\<rparr>))"

definition feed_or_put :: "pbuf \<Rightarrow> pref \<Rightarrow> 'a peer_side_scheme \<Rightarrow> 'a peer_side_scheme" where
  "feed_or_put b p L =
     (case sub_feed b p L of
        (None, L1) \<Rightarrow> L1
      | (Some e, L1) \<Rightarrow> pt_put (Some (fst b)) L1)"

text \<open>A datagram that passed the checks: to its peer's connection, or to a new one.  Looking the peer up and
  feeding its connection is one step here; a \<^verbatim>\<open>Close\<close> that comes between the two makes \<^verbatim>\<open>feed\<close> refuse the
  datagram, as a \<^verbatim>\<open>Close\<close> before the next datagram would.\<close>

definition new_peer :: "(net_addr \<Rightarrow> bytes) \<Rightarrow> net_addr \<Rightarrow> pbuf \<Rightarrow> 'a peer_side_scheme \<Rightarrow> 'a peer_side_scheme" where
  "new_peer str raddr b L =
     (case register str raddr L of
        (q, L1) \<Rightarrow> (feed_or_put b q L1)\<lparr>pt_goHandshake := pt_goHandshake L1 @ [q]\<rparr>)"

definition deliver :: "(net_addr \<Rightarrow> bytes) \<Rightarrow> net_addr \<Rightarrow> pbuf \<Rightarrow> 'a peer_side_scheme \<Rightarrow> 'a peer_side_scheme" where
  "deliver str raddr b L =
     (case route str raddr L of
        Some p \<Rightarrow> if \<not> sc_closed (pt_subs L p) then feed_or_put b p L else new_peer str raddr b L
      | None \<Rightarrow> new_peer str raddr b L)"

text \<open>One turn; \<open>ev\<close> is what the socket returns for a buffer of \<open>bufSize\<close> bytes.  \<open>False\<close>: the loop
  ends.\<close>

definition read_buf_size :: "nat \<Rightarrow> nat" where
  "read_buf_size mtu = (if mtu + 64 > MaxAllocSize then MaxAllocSize else mtu + 64)"

definition packetReadLoop_turn ::
  "(net_addr \<Rightarrow> bytes) \<Rightarrow> go_error + bytes \<times> net_addr \<Rightarrow> 'a peer_side_scheme \<Rightarrow> bool \<times> 'a peer_side_scheme" where
  "packetReadLoop_turn str ev L =
     (if pt_closed L then (False, L)
      else
        let h = pt_nextB L;
            L1 = L\<lparr>pt_nextB := Suc h\<rparr>
        in case ev of
             Inl e \<Rightarrow> (\<not> pt_closed L1, pt_put (Some h) L1)
           | Inr (dgram, raddr) \<Rightarrow>
               let d = take (read_buf_size (pt_mtu L)) dgram in
               if length d > pt_mtu L \<or> length d = 0 then (True, pt_put (Some h) L1)
               else (True, deliver str raddr (h, d) (L1\<lparr>pt_bufs := (pt_bufs L1)(h := d)\<rparr>)))"

section \<open>The queue of a connection\<close>

lemma upd_sub_simps [simp]:
  "pt_subs (upd_sub p f L) q = (if q = p then f (pt_subs L p) else pt_subs L q)"
  "pt_closed (upd_sub p f L) = pt_closed L" "pt_udp (upd_sub p f L) = pt_udp L"
  "pt_ip (upd_sub p f L) = pt_ip L" "pt_conns (upd_sub p f L) = pt_conns L"
  "pt_isUDP (upd_sub p f L) = pt_isUDP L" "pt_next (upd_sub p f L) = pt_next L"
  "pt_panic (upd_sub p f L) = pt_panic L" "pt_now (upd_sub p f L) = pt_now L"
  "pt_freed (upd_sub p f L) = pt_freed L" "pt_bufs (upd_sub p f L) = pt_bufs L"
  by (simp_all add: upd_sub_def)

lemma pt_put_simps [simp]:
  "pt_subs (pt_put h L) = pt_subs L" "pt_closed (pt_put h L) = pt_closed L" "pt_udp (pt_put h L) = pt_udp L"
  "pt_ip (pt_put h L) = pt_ip L" "pt_conns (pt_put h L) = pt_conns L" "pt_isUDP (pt_put h L) = pt_isUDP L"
  "pt_next (pt_put h L) = pt_next L" "pt_panic (pt_put h L) = pt_panic L" "pt_now (pt_put h L) = pt_now L"
  "pt_put None L = L"
  by (simp_all add: pt_put_def split: option.split)

abbreviation sub_items :: "pref \<Rightarrow> 'a peer_side_scheme \<Rightarrow> slot list" where
  "sub_items p L \<equiv> ring_items (sc_queue (pt_subs L p))"

abbreviation sub_live :: "pref \<Rightarrow> 'a peer_side_scheme \<Rightarrow> bool" where
  "sub_live p L \<equiv> ring_live (sc_queue (pt_subs L p))"

text \<open>What the queue operations do to the queue; everything else of the connection stays.\<close>

lemma sub_push_queue:
  assumes "sub_live p L"
  obtains r where "sub_push b p L = upd_sub p (\<lambda>s. s\<lparr>sc_queue := r\<rparr>) L" "ring_live r"
    "ring_items r = sub_items p L @ [\<lparr>sbuf = Some (snd b), shead = Some (fst b)\<rparr>]"
proof -
  obtain r where "Push (Some (snd b)) (Some (fst b)) (sc_queue (pt_subs L p)) = Ret (r, None)" "ring_live r"
    "ring_items r = sub_items p L @ [\<lparr>sbuf = Some (snd b), shead = Some (fst b)\<rparr>]"
    using rb.push_law [OF assms] by metis
  then show ?thesis using that by (simp add: sub_push_def)
qed

lemma sub_partial_queue:
  assumes "sub_live p L"
  obtains r bk where "sub_partial k p L =
      (fst (read_items k (sub_items p L)), pt_put bk (upd_sub p (\<lambda>s. s\<lparr>sc_queue := r\<rparr>) L))" "ring_live r"
    "ring_items r = snd (snd (read_items k (sub_items p L)))"
proof -
  obtain r where "PartialRead k (sc_queue (pt_subs L p)) = Ret (fst (read_items k (sub_items p L)),
      fst (snd (read_items k (sub_items p L))), r)" "ring_live r"
    "ring_items r = snd (snd (read_items k (sub_items p L)))"
    using rb.rd_law [OF assms] by metis
  then show ?thesis using that by (simp add: sub_partial_def)
qed

text \<open>The connection apart from its queue, and what other connections and the maps are.\<close>

type_synonym flags = "bool \<times> bool \<times> bool \<times> bool \<times> bool \<times> time option \<times> bool \<times> time"

definition sub_flags :: "pref \<Rightarrow> 'a peer_side_scheme \<Rightarrow> flags" where
  "sub_flags p L = (sc_waiting (pt_subs L p), sc_notify (pt_subs L p), sc_closed (pt_subs L p), sc_die (pt_subs L p),
     sc_readMu (pt_subs L p), sc_readDeadline (pt_subs L p), pt_closed L, pt_now L)"

interpretation sq: ring_reader "\<lambda>k. sub_partial k p" "\<lambda>k. sub_fill k p" "\<lambda>L. sc_queue (pt_subs L p)" "sub_flags p" for p
proof unfold_locales
  show "sub_fill k p L = (if k = 0 then ([], L)
      else case sub_partial k p L of (d, L1) \<Rightarrow>
        if d = [] then ([], L1) else (case sub_fill (k - length d) p L1 of (e, L2) \<Rightarrow> (d @ e, L2)))" for k L
    by (rule sub_fill.simps)
  show "d = fst (read_items k (sub_items p L)) \<and> sub_live p L1 \<and>
      sub_items p L1 = snd (snd (read_items k (sub_items p L))) \<and> sub_flags p L1 = sub_flags p L"
    if a: "sub_live p L" "sub_partial k p L = (d, L1)" for L :: "'a peer_side_scheme" and k d L1
  proof -
    obtain r bk where "sub_partial k p L =
        (fst (read_items k (sub_items p L)), pt_put bk (upd_sub p (\<lambda>s. s\<lparr>sc_queue := r\<rparr>) L))" "ring_live r"
      "ring_items r = snd (snd (read_items k (sub_items p L)))"
      by (rule sub_partial_queue [OF a(1)])
    with a(2) show ?thesis by (auto simp: sub_flags_def)
  qed
qed

abbreviation taken :: "nat \<Rightarrow> pref \<Rightarrow> 'a peer_side_scheme \<Rightarrow> bytes \<Rightarrow> 'a peer_side_scheme \<Rightarrow> bool" where
  "taken k p \<equiv> ring_taken (\<lambda>L. sc_queue (pt_subs L p)) (sub_flags p) k"

lemmas sub_partial_taken = sq.partial_taken
lemmas sub_fill_taken = sq.fill_taken

subsection \<open>A peer connection is a byte stream\<close>

text \<open>\<^verbatim>\<open>Read\<close> as a reader, and when it is free to be called.\<close>

definition sub_src :: "pref \<Rightarrow> 'a peer_side_scheme reader_fun" where
  "sub_src p k L =
     (case sub_Read k p L of
        Some (SR_Data d, L1) \<Rightarrow> Some (Inr d, L1)
      | Some (SR_Err e, L1) \<Rightarrow> Some (Inl e, L1)
      | _ \<Rightarrow> None)"

definition sub_ready :: "pref \<Rightarrow> 'a peer_side_scheme \<Rightarrow> bool" where
  "sub_ready p L \<longleftrightarrow> sub_live p L \<and> full_slots (sub_items p L) \<and> \<not> sub_gone p L \<and> \<not> sc_readMu (pt_subs L p) \<and>
     (case sc_readDeadline (pt_subs L p) of None \<Rightarrow> True | Some dl \<Rightarrow> pt_now L < dl)"

lemma sub_Read_takes:
  assumes "sub_ready p L" "0 < k" "bytes_of (sub_items p L) \<noteq> []"
  obtains d L1 where "sub_Read k p L = Some (SR_Data d, L1)" "sub_ready p L1"
    "d @ bytes_of (sub_items p L1) = bytes_of (sub_items p L)" "d \<noteq> []" "length d \<le> k"
proof -
  define M where "M = upd_sub p (\<lambda>s. s\<lparr>sc_readMu := True\<rparr>) L"
  obtain d N where f: "sub_fill k p M = (d, N)" by force
  define L1 where "L1 = upd_sub p (\<lambda>s. s\<lparr>sc_readMu := False\<rparr>) N"
  have M: "sub_items p M = sub_items p L" "sub_live p M" "full_slots (sub_items p M)" "\<not> sub_gone p M"
    using assms(1) by (simp_all add: M_def sub_ready_def sub_gone_def)
  have t: "taken k p M d N" by (rule sub_fill_taken [OF M(2,3) f])
  then have fl: "sub_flags p N = sub_flags p M" and d: "d \<noteq> []"
    using assms(2,3) M(1) by (auto simp: ring_taken_def)
  have gone: "\<not> sub_gone p N" using fl M(4) by (simp add: sub_flags_def sub_gone_def)
  then have "sub_unlock p (sub_round k p M) = (SR_Data d, L1)"
    using d by (simp add: sub_round_def f sub_unlock_def L1_def)
  then have "sub_Read k p L = Some (SR_Data d, L1)"
    using assms(1,2) by (auto simp: sub_Read_def sub_ready_def M_def Let_def split: option.splits)
  moreover have "sub_ready p L1" using t fl gone assms(1)
    by (auto simp: sub_ready_def L1_def ring_taken_def sub_flags_def sub_gone_def M_def split: option.splits)
  moreover have "d @ bytes_of (sub_items p L1) = bytes_of (sub_items p L)" "length d \<le> k"
    using t M(1) by (simp_all add: ring_taken_def L1_def)
  ultimately show ?thesis using d that by blast
qed

interpretation pk: byte_source "sub_src p" "\<lambda>L. bytes_of (sub_items p L)" "sub_ready p" for p
proof unfold_locales
  fix L :: "'a peer_side_scheme" and k :: nat and d L'
  assume a: "sub_ready p L" "0 < k" "bytes_of (sub_items p L) \<noteq> []"
  obtain x M where x: "sub_Read k p L = Some (SR_Data x, M)" "sub_ready p M"
    "x @ bytes_of (sub_items p M) = bytes_of (sub_items p L)" "x \<noteq> []" "length x \<le> k"
    by (rule sub_Read_takes [OF a])
  then show "\<exists>d L'. sub_src p k L = Some (Inr d, L')" by (simp add: sub_src_def)
  assume "sub_src p k L = Some (Inr d, L')"
  then show "sub_ready p L' \<and> d @ bytes_of (sub_items p L') = bytes_of (sub_items p L) \<and> d \<noteq> [] \<and> length d \<le> k"
    using x by (auto simp: sub_src_def)
qed

text \<open>A turn of the read loop with a datagram of a peer whose connection is in use.\<close>

lemma route_same:
  assumes "pt_isUDP L' = pt_isUDP L" "pt_udp L' = pt_udp L" "pt_ip L' = pt_ip L" "pt_conns L' = pt_conns L"
  shows "route str raddr L' = route str raddr L"
  unfolding route_def assms ..

lemma turn_feeds:
  assumes "sub_ready p L" "route str raddr L = Some p" "d \<noteq> []" "length d \<le> pt_mtu L" "pt_mtu L \<le> MaxAllocSize"
  obtains L1 where "packetReadLoop_turn str (Inr (d, raddr)) L = (True, L1)" "sub_ready p L1"
    "bytes_of (sub_items p L1) = bytes_of (sub_items p L) @ d" "route str raddr L1 = Some p" "pt_mtu L1 = pt_mtu L"
proof -
  define M where "M = L\<lparr>pt_nextB := Suc (pt_nextB L), pt_bufs := (pt_bufs L)(pt_nextB L := d)\<rparr>"
  have M: "pt_subs M = pt_subs L" "pt_closed M = pt_closed L" "pt_now M = pt_now L" "route str raddr M = Some p"
    using assms(2) route_same [of M L] by (simp_all add: M_def)
  have r: "sub_live p M" "full_slots (sub_items p M)" "\<not> sc_closed (pt_subs M p)" "\<not> pt_closed L"
    using assms(1) by (simp_all add: M(1) sub_ready_def sub_gone_def)
  obtain q where q: "sub_push (pt_nextB L, d) p M = upd_sub p (\<lambda>s. s\<lparr>sc_queue := q\<rparr>) M" "ring_live q"
    "ring_items q = sub_items p M @ [\<lparr>sbuf = Some d, shead = Some (pt_nextB L)\<rparr>]"
    using sub_push_queue [OF r(1), of "(pt_nextB L, d)"] by auto
  define L1 where "L1 = sub_signal p (sub_push (pt_nextB L, d) p M)"
  have L1: "L1 = (if sc_waiting (pt_subs M p) then sub_wakeReader p (upd_sub p (\<lambda>s. s\<lparr>sc_queue := q\<rparr>) M)
      else upd_sub p (\<lambda>s. s\<lparr>sc_queue := q\<rparr>) M)"
    by (simp add: L1_def q(1) sub_signal_def)
  have "take (read_buf_size (pt_mtu L)) d = d" using assms(4,5) by (simp add: read_buf_size_def)
  then have "packetReadLoop_turn str (Inr (d, raddr)) L = (True, deliver str raddr (pt_nextB L, d) M)"
    using assms(3,4) r(4) by (simp add: packetReadLoop_turn_def M_def Let_def read_buf_size_def MaxAllocSize_def)
  also have "deliver str raddr (pt_nextB L, d) M = L1"
    using r(3) by (simp add: deliver_def M(4) feed_or_put_def sub_feed_def L1_def)
  finally have turn: "packetReadLoop_turn str (Inr (d, raddr)) L = (True, L1)" .
  have "sub_items p L1 = sub_items p L @ [\<lparr>sbuf = Some d, shead = Some (pt_nextB L)\<rparr>]"
    by (simp add: L1 sub_wakeReader_def q(3) M(1))
  moreover have "sub_ready p L1"
    using assms(1,3) r q(2,3) by (auto simp: L1 sub_wakeReader_def sub_ready_def sub_gone_def M slot_bytes_def split: option.splits)
  moreover have "route str raddr L1 = Some p"
    using M(4) route_same [of L1 M] by (simp add: L1 sub_wakeReader_def)
  moreover have "pt_mtu L1 = pt_mtu L" by (simp add: L1 sub_wakeReader_def upd_sub_def M_def)
  ultimately show ?thesis using turn that by (simp add: slot_bytes_def)
qed

lemma turns_feed:
  assumes "sub_ready p L" "route str raddr L = Some p" "pt_mtu L \<le> MaxAllocSize"
    "list_all (\<lambda>d. d \<noteq> [] \<and> length d \<le> pt_mtu L) ds"
  defines "L1 \<equiv> fold (\<lambda>d L. snd (packetReadLoop_turn str (Inr (d, raddr)) L)) ds L"
  shows "sub_ready p L1 \<and> bytes_of (sub_items p L1) = bytes_of (sub_items p L) @ concat ds"
  using assms(1-4) unfolding L1_def
proof (induction ds arbitrary: L)
  case (Cons d ds)
  obtain M where "packetReadLoop_turn str (Inr (d, raddr)) L = (True, M)" "sub_ready p M"
    "bytes_of (sub_items p M) = bytes_of (sub_items p L) @ d" "route str raddr M = Some p" "pt_mtu M = pt_mtu L"
    using turn_feeds [OF Cons.prems(1,2) _ _ Cons.prems(3)] Cons.prems(4) by auto
  with Cons.IH [of M] Cons.prems show ?case by simp
qed simp

text \<open>C12: A peer connection of the listener carries its peer's datagrams as a byte stream.  While a
  connection is open, the datagrams received from its address are delivered to it by the read loop one
  after the other; whenever \<^verbatim>\<open>io.ReadFull\<close> on the bytes queued before followed by the concatenated datagrams
  returns \<open>n\<close> bytes, the same call on the connection returns the same bytes, and what it holds
  afterwards is the rest: datagram boundaries leave no trace.\<close>

theorem peer_stream_refines:
  assumes "sub_ready p L" "route str raddr L = Some p" "pt_mtu L \<le> MaxAllocSize"
    "list_all (\<lambda>d. d \<noteq> [] \<and> length d \<le> pt_mtu L) ds"
    "ReadFull n (bytes_of (sub_items p L) @ concat ds, e) = ok (d, rest)"
  shows "\<exists>L'. io_ReadFull (sub_src p) n (fold (\<lambda>d L. snd (packetReadLoop_turn str (Inr (d, raddr)) L)) ds L) =
      Some (Inr d, L') \<and> sub_ready p L' \<and> (bytes_of (sub_items p L'), e) = rest"
  using pk.ReadFull_refines turns_feed [OF assms(1-4)] assms(5) by metis

definition sample_side :: peer_side where
  "sample_side = \<lparr>pt_conns = [], pt_udp = [], pt_ip = [],
     pt_subs = (\<lambda>_. newPacketSubConn (UDPAddr [10, 0, 0, 1] 9)), pt_next = 1,
     pt_bufs = (\<lambda>_. [1, 2, 3]), pt_nextB = 8, pt_freed = [], pt_panic = False, pt_now = 0,
     pt_closed = False, pt_isUDP = True, pt_pconn = True, pt_mtu = 1400, pt_goHandshake = []\<rparr>"

lemma sample_side_simps [simp]:
  "pt_subs sample_side p = newPacketSubConn (UDPAddr [10, 0, 0, 1] 9)" "\<not> pt_closed sample_side"
  "pt_isUDP sample_side" "pt_udp sample_side = []" "pt_mtu sample_side = 1400"
  by (simp_all add: sample_side_def)

lemma newPacketSubConn_simps [simp]:
  "ring_live (sc_queue (newPacketSubConn a))" "ring_items (sc_queue (newPacketSubConn a)) = []"
  "\<not> sc_waiting (newPacketSubConn a)" "\<not> sc_notify (newPacketSubConn a)" "\<not> sc_closed (newPacketSubConn a)"
  "\<not> sc_die (newPacketSubConn a)" "\<not> sc_readMu (newPacketSubConn a)" "sc_remote (newPacketSubConn a) = a"
  "sc_udp (newPacketSubConn a) = addr_port a" "sc_ip (newPacketSubConn a) = addr_ip a"
  "\<not> sc_closeOnce (newPacketSubConn a)" "sc_readDeadline (newPacketSubConn a) = None"
  by (simp_all add: newPacketSubConn_def NewBufferRing_ok)

theorem peer_stream_refines_witness:
  "\<exists>L'. io_ReadFull (sub_src 0) 4 (fold (\<lambda>d L. snd (packetReadLoop_turn (\<lambda>_. []) (Inr (d, UDPAddr [10, 0, 0, 1] 9)) L))
      [[1, 2, 3], [4, 5]] (sample_side\<lparr>pt_udp := [(([10, 0, 0, 1], 9), 0)]\<rparr>)) = Some (Inr [1, 2, 3, 4], L') \<and>
     bytes_of (sub_items 0 L') = [5]"
  using peer_stream_refines [of 0 "sample_side\<lparr>pt_udp := [(([10, 0, 0, 1], 9), 0)]\<rparr>" "\<lambda>_. []" "UDPAddr [10, 0, 0, 1] 9"
      "[[1, 2, 3], [4, 5]]" 4 ErrEOF]
  by (auto simp: sub_ready_def sub_gone_def route_def addr_port_def AddrFromSlice_def ReadFull_def MaxAllocSize_def)

section \<open>Wake-ups\<close>

text \<open>A reader in \<^verbatim>\<open>Read\<close> and the read loop in \<^verbatim>\<open>feed\<close>, interleaved at their accesses to the shared state:
  the reader's first look at the queue, setting \<^verbatim>\<open>waitState\<close>, its second look, and the \<^verbatim>\<open>select\<close>; the
  feeder's push, and its look at \<^verbatim>\<open>waitState\<close>.  A \<^verbatim>\<open>Close\<close> may set its flags at any time, and a sleeping
  reader may give up on its deadline or on \<^verbatim>\<open>die\<close>.  The draining of the queue at the end of \<^verbatim>\<open>Close\<close>,
  after which nothing is queued, is left out.\<close>

datatype rd_pc = RdLook | RdArm nat | RdAgain nat | RdAsleep nat
datatype fd_pc = FdIdle | FdPushed

inductive wstep ::
  "pref \<Rightarrow> peer_side \<times> rd_pc \<times> fd_pc \<Rightarrow> peer_side \<times> rd_pc \<times> fd_pc \<Rightarrow> bool" for p where
  look: "0 < k \<Longrightarrow> sub_fill k p L = (d, L1) \<Longrightarrow>
    wstep p (L, RdLook, f) (L1, if d \<noteq> [] \<or> sub_gone p L1 then RdLook else RdArm k, f)"
| arm: "wstep p (L, RdArm k, f) (sub_set_waiting True p L, RdAgain k, f)"
| again: "sub_second k p L = (x, L1) \<Longrightarrow>
    wstep p (L, RdAgain k, f) (L1, if x = SR_Wait then RdAsleep k else RdLook, f)"
| awake: "sc_notify (pt_subs L p) \<Longrightarrow>
    wstep p (L, RdAsleep k, f) (upd_sub p (\<lambda>s. s\<lparr>sc_notify := False, sc_waiting := False\<rparr>) L, RdLook, f)"
| give_up: "wstep p (L, RdAsleep k, f) (sub_set_waiting False p L, RdLook, f)"
| push: "snd b \<noteq> [] \<Longrightarrow> wstep p (L, r, FdIdle) (sub_push b p L, r, FdPushed)"
| signal: "wstep p (L, r, FdPushed) (sub_signal p L, r, FdIdle)"
| close: "wstep p (L, r, f) (sub_close_mark p L, r, f)"

inductive_cases wstep_signalE: "wstep p (L, r, FdPushed) S"

definition wake_ok :: "pref \<Rightarrow> peer_side \<times> rd_pc \<times> fd_pc \<Rightarrow> bool" where
  "wake_ok p S =
     (case S of
        (L, r, f) \<Rightarrow>
          sub_live p L \<and> full_slots (sub_items p L) \<and>
          (case r of
             RdAgain k \<Rightarrow> 0 < k \<and> sc_waiting (pt_subs L p)
           | RdAsleep k \<Rightarrow> 0 < k \<and> sc_waiting (pt_subs L p) \<and>
               (sub_items p L \<noteq> [] \<longrightarrow> sc_notify (pt_subs L p) \<or> f = FdPushed)
           | RdArm k \<Rightarrow> 0 < k
           | RdLook \<Rightarrow> True))"

lemma sub_second_queue:
  assumes "sub_live p L" "full_slots (sub_items p L)" "0 < k" "sub_second k p L = (x, L1)"
  shows "sub_live p L1 \<and> full_slots (sub_items p L1) \<and>
    (x = SR_Wait \<longrightarrow> sub_items p L1 = [] \<and> sub_flags p L1 = sub_flags p L)"
proof -
  obtain d M where par: "sub_partial k p L = (d, M)" by force
  note t = sub_partial_taken [OF assms(1,2) par]
  show ?thesis
  proof (cases "d = []")
    case True
    then have "x = SR_Err ErrClosedPipe \<and> L1 = sub_set_waiting False p M \<or> x = SR_Wait \<and> L1 = M"
      using assms(4) par by (auto simp: sub_second_def split: if_splits)
    with t True assms(3) show ?thesis by (auto simp: sub_set_waiting_def)
  next
    case False
    define N where "N = upd_sub p (\<lambda>s. s\<lparr>sc_waiting := False, sc_notify := False\<rparr>) M"
    obtain e O1 where f: "sub_fill (k - length d) p N = (e, O1)" by force
    then have "x = SR_Data (d @ e)" "L1 = O1"
      using assms(4) par False by (simp_all add: sub_second_def flip: N_def)
    moreover have "taken (k - length d) p N e O1"
      using t(1,2) by (intro sub_fill_taken [OF _ _ f]) (simp_all add: N_def)
    ultimately show ?thesis by (simp add: ring_taken_def)
  qed
qed

lemma wstep_wake_ok: "wstep p S S' \<Longrightarrow> wake_ok p S \<Longrightarrow> wake_ok p S'"
proof (induction rule: wstep.induct)
  case (look k L d L1 f)
  have "taken k p L d L1" using look by (intro sub_fill_taken) (auto simp: wake_ok_def)
  with look(1) show ?case by (simp add: wake_ok_def ring_taken_def)
next
  case (arm L k f)
  then show ?case by (simp add: wake_ok_def sub_set_waiting_def)
next
  case (again k L x L1 f)
  have "sub_live p L1 \<and> full_slots (sub_items p L1) \<and>
    (x = SR_Wait \<longrightarrow> sub_items p L1 = [] \<and> sub_flags p L1 = sub_flags p L)"
    using again by (intro sub_second_queue) (auto simp: wake_ok_def)
  with again(2) show ?case by (simp add: wake_ok_def sub_flags_def)
next
  case (awake L k f)
  then show ?case by (simp add: wake_ok_def)
next
  case (give_up L k f)
  then show ?case by (simp add: wake_ok_def sub_set_waiting_def)
next
  case (push b L r)
  then obtain q where "sub_push b p L = upd_sub p (\<lambda>s. s\<lparr>sc_queue := q\<rparr>) L" "ring_live q"
    "ring_items q = sub_items p L @ [\<lparr>sbuf = Some (snd b), shead = Some (fst b)\<rparr>]"
    using sub_push_queue [where p = p and L = L and b = b] by (auto simp: wake_ok_def)
  with push show ?case by (simp add: wake_ok_def split: rd_pc.splits)
next
  case (signal L r)
  then show ?case by (auto simp: wake_ok_def sub_signal_def sub_wakeReader_def split: rd_pc.splits)
next
  case (close L r f)
  then show ?case by (auto simp: wake_ok_def sub_close_mark_def split: rd_pc.splits)
qed

interpretation waking: step_invariant "wstep p" "wake_ok p" for p
  by unfold_locales (rule wstep_wake_ok)

text \<open>C13: \<^verbatim>\<open>Read\<close> of a peer connection misses no wake-up.  However the reader's accesses interleave with
  the read loop feeding datagrams into the connection and with a \<^verbatim>\<open>Close\<close>, whenever the reader is
  asleep in its \<^verbatim>\<open>select\<close>, bytes are queued and the read loop is not in the middle of a \<^verbatim>\<open>feed\<close>, a
  wake-up token is waiting for the reader.\<close>

theorem read_no_lost_wakeup:
  assumes "sub_live p L0" "sub_items p L0 = []" "(wstep p)\<^sup>*\<^sup>* (L0, RdLook, FdIdle) (L, RdAsleep k, FdIdle)"
    "bytes_of (sub_items p L) \<noteq> []"
  shows "sc_notify (pt_subs L p)"
proof -
  have "wake_ok p (L, RdAsleep k, FdIdle)"
    using assms(1,2) by (intro waking.inv_run [OF assms(3)]) (simp add: wake_ok_def)
  with assms(4) show ?thesis by (auto simp: wake_ok_def)
qed

text \<open>Looking at an empty queue.\<close>

lemma sub_partial_empty:
  assumes "sub_live p L" "sub_items p L = []" "0 < k"
  obtains r where "sub_partial k p L = ([], upd_sub p (\<lambda>s. s\<lparr>sc_queue := r\<rparr>) L)" "ring_live r" "ring_items r = []"
proof -
  obtain r where "PartialRead k (sc_queue (pt_subs L p)) = Ret ([], None, r)" "ring_live r" "ring_items r = []"
    using rb.rd_law [OF assms(1), of k] assms(2) by auto
  then show ?thesis using that by (simp add: sub_partial_def)
qed

lemma asleep_then_fed:
  assumes "sub_live p L" "sub_items p L = []" "\<not> sub_gone p L" "0 < k" "snd b \<noteq> []"
  obtains L' where "(wstep p)\<^sup>*\<^sup>* (L, RdLook, FdIdle) (L', RdAsleep k, FdIdle)"
    "sub_items p L' = [\<lparr>sbuf = Some (snd b), shead = Some (fst b)\<rparr>]"
proof -
  obtain r where r: "sub_partial k p L = ([], upd_sub p (\<lambda>s. s\<lparr>sc_queue := r\<rparr>) L)" "ring_live r" "ring_items r = []"
    using sub_partial_empty [OF assms(1,2,4)] by metis
  define L1 where "L1 = upd_sub p (\<lambda>s. s\<lparr>sc_queue := r\<rparr>) L"
  define L2 where "L2 = sub_set_waiting True p L1"
  have g: "\<not> sub_gone p L1" "\<not> sub_gone p L2"
    using assms(3) by (simp_all add: L2_def L1_def sub_gone_def sub_set_waiting_def)
  have live: "sub_live p L2" "sub_items p L2 = []" by (simp_all add: L2_def L1_def sub_set_waiting_def r)
  obtain q where q: "sub_partial k p L2 = ([], upd_sub p (\<lambda>s. s\<lparr>sc_queue := q\<rparr>) L2)" "ring_live q" "ring_items q = []"
    using sub_partial_empty [OF live assms(4)] by metis
  define L3 where "L3 = upd_sub p (\<lambda>s. s\<lparr>sc_queue := q\<rparr>) L2"
  have g3: "\<not> sub_gone p L3" using g(2) by (simp add: L3_def sub_gone_def)
  have 1: "wstep p (L, RdLook, FdIdle) (L1, RdArm k, FdIdle)"
    using wstep.look [OF assms(4), of p L "[]" L1 FdIdle] r(1) g(1) assms(4)
    by (simp add: sub_fill.simps [of k] L1_def)
  have 2: "wstep p (L1, RdArm k, FdIdle) (L2, RdAgain k, FdIdle)" unfolding L2_def by (rule wstep.arm)
  have "sub_second k p L2 = (SR_Wait, L3)" using g3 q(1) by (simp add: sub_second_def L3_def)
  from wstep.again [OF this] have 3: "wstep p (L2, RdAgain k, FdIdle) (L3, RdAsleep k, FdIdle)" by simp
  have live3: "sub_live p L3" "sub_items p L3 = []" by (simp_all add: L3_def q)
  obtain t where t: "sub_push b p L3 = upd_sub p (\<lambda>s. s\<lparr>sc_queue := t\<rparr>) L3"
    "ring_items t = [\<lparr>sbuf = Some (snd b), shead = Some (fst b)\<rparr>]"
    using sub_push_queue [OF live3(1)] live3(2) by (metis append_Nil)
  have 4: "wstep p (L3, RdAsleep k, FdIdle) (sub_push b p L3, RdAsleep k, FdPushed)"
    by (rule wstep.push [OF assms(5)])
  have 5: "wstep p (sub_push b p L3, RdAsleep k, FdPushed) (sub_signal p (sub_push b p L3), RdAsleep k, FdIdle)"
    by (rule wstep.signal)
  have "sub_items p (sub_signal p (sub_push b p L3)) = [\<lparr>sbuf = Some (snd b), shead = Some (fst b)\<rparr>]"
    by (simp add: sub_signal_def sub_wakeReader_def t)
  moreover have "(wstep p)\<^sup>*\<^sup>* (L, RdLook, FdIdle) (sub_signal p (sub_push b p L3), RdAsleep k, FdIdle)"
    using 1 2 3 4 5 by (meson converse_rtranclp_into_rtranclp rtranclp.rtrancl_refl)
  ultimately show ?thesis using that by blast
qed

theorem read_no_lost_wakeup_witness:
  "\<exists>L. (wstep 0)\<^sup>*\<^sup>* (sample_side, RdLook, FdIdle) (L, RdAsleep 4, FdIdle) \<and>
     bytes_of (sub_items 0 L) = [5, 6] \<and> sc_notify (pt_subs L 0)"
proof -
  obtain L where L: "(wstep 0)\<^sup>*\<^sup>* (sample_side, RdLook, FdIdle) (L, RdAsleep 4, FdIdle)"
    "sub_items 0 L = [\<lparr>sbuf = Some [5, 6], shead = Some 3\<rparr>]"
    using asleep_then_fed [where p = 0 and L = sample_side and k = 4 and b = "(3, [5, 6])"]
    by (auto simp: sub_gone_def)
  have "sc_notify (pt_subs L 0)" using L by (intro read_no_lost_wakeup [OF _ _ L(1)]) simp_all
  with L show ?thesis by auto
qed

text \<open>\<^verbatim>\<open>ReadPacket\<close> on an empty and on a non-empty queue.\<close>

lemma rp_pop_empty:
  assumes "sub_live p L" "sub_items p L = []"
  obtains r where "rp_pop p L = (None, upd_sub p (\<lambda>s. s\<lparr>sc_queue := r\<rparr>) L)" "ring_live r" "ring_items r = []"
proof -
  obtain r where "Pop (sc_queue (pt_subs L p)) = Ret (None, r)" "ring_live r" "ring_items r = []"
    using rb.pop_empty [OF assms] by metis
  then show ?thesis using that by (simp add: rp_pop_def)
qed

lemma rp_pop_head:
  assumes "sub_live p L" "sub_items p L = s # xs" "shead s = Some h"
  shows "fst (rp_pop p L) = Some (h, pt_bufs L h)"
  using rb.pop_item [OF assms(1,2)] assms(3) by (auto simp: rp_pop_def Let_def)

text \<open>C38: \<^verbatim>\<open>ReadPacket\<close>, unlike \<^verbatim>\<open>Read\<close>, does not look at the queue again after setting \<^verbatim>\<open>waitState\<close>, and
  loses a wake-up.  On any open connection with an empty queue: when a datagram is fed between the
  reader's \<^verbatim>\<open>Pop\<close> and its store to \<^verbatim>\<open>waitState\<close>, the feed succeeds, the datagram is queued, and the
  reader sleeps with no case of its \<^verbatim>\<open>select\<close> ready; fed just after the store, the same datagram is
  returned.\<close>

theorem readPacket_lost_wakeup:
  assumes "sub_live p L" "sub_items p L = []" "\<not> sub_gone p L" "\<not> sc_die (pt_subs L p)"
    "\<not> sc_waiting (pt_subs L p)" "\<not> sc_notify (pt_subs L p)"
  shows "\<exists>L1. rp_pop p L = (None, L1) \<and> \<not> sub_gone p L1 \<and> fst (sub_feed b p L1) = None \<and>
    (let L3 = sub_set_waiting True p (snd (sub_feed b p L1)) in
       sub_items p L3 = [\<lparr>sbuf = Some (snd b), shead = Some (fst b)\<rparr>] \<and>
       rp_wake False p L3 = (PR_Wait, L3) \<and> rp_wake True p L3 = (PR_Wait, L3)) \<and>
    fst (rp_wake False p (snd (sub_feed b p (sub_set_waiting True p L1)))) = PR_Packet (fst b, pt_bufs L (fst b))"
proof -
  obtain r where r: "rp_pop p L = (None, upd_sub p (\<lambda>s. s\<lparr>sc_queue := r\<rparr>) L)" "ring_live r" "ring_items r = []"
    using rp_pop_empty [OF assms(1,2)] by metis
  define L1 where "L1 = upd_sub p (\<lambda>s. s\<lparr>sc_queue := r\<rparr>) L"
  define W where "W = sub_set_waiting True p L1"
  have live: "sub_live p L1" "sub_items p L1 = []" "sub_live p W" "sub_items p W = []"
    by (simp_all add: L1_def W_def sub_set_waiting_def r)
  have open1: "\<not> sub_gone p L1" "\<not> sc_closed (pt_subs L1 p)" "\<not> sc_closed (pt_subs W p)"
    using assms(3) by (simp_all add: L1_def W_def sub_set_waiting_def sub_gone_def)
  obtain q where q: "sub_push b p L1 = upd_sub p (\<lambda>s. s\<lparr>sc_queue := q\<rparr>) L1"
    "ring_items q = [\<lparr>sbuf = Some (snd b), shead = Some (fst b)\<rparr>]"
    using sub_push_queue [OF live(1)] live(2) by (metis append_Nil)
  obtain t where t: "sub_push b p W = upd_sub p (\<lambda>s. s\<lparr>sc_queue := t\<rparr>) W" "ring_live t"
    "ring_items t = [\<lparr>sbuf = Some (snd b), shead = Some (fst b)\<rparr>]"
    using sub_push_queue [OF live(3)] live(4) by (metis append_Nil)
  have f1: "sub_feed b p L1 = (None, upd_sub p (\<lambda>s. s\<lparr>sc_queue := q\<rparr>) L1)"
    using open1(2) assms(5) by (simp add: sub_feed_def sub_signal_def q) (simp add: L1_def)
  define X where "X = sub_wakeReader p (upd_sub p (\<lambda>s. s\<lparr>sc_queue := t\<rparr>) W)"
  have f2: "sub_feed b p W = (None, X)"
    using open1(3) by (simp add: sub_feed_def sub_signal_def t X_def) (simp add: W_def sub_set_waiting_def)
  define Y where "Y = upd_sub p (\<lambda>s. s\<lparr>sc_notify := False, sc_waiting := False\<rparr>) X"
  have "fst (rp_pop p Y) = Some (fst b, pt_bufs Y (fst b))"
    by (rule rp_pop_head [where s = "\<lparr>sbuf = Some (snd b), shead = Some (fst b)\<rparr>" and xs = "[]"])
      (simp_all add: Y_def X_def sub_wakeReader_def t)
  then obtain Z where "rp_pop p Y = (Some (fst b, pt_bufs Y (fst b)), Z)" by (metis prod.collapse)
  then have "rp_round p Y = (PR_Packet (fst b, pt_bufs Y (fst b)), Z)" by (simp add: rp_round_def)
  moreover have "sc_notify (pt_subs X p)" by (simp add: X_def sub_wakeReader_def)
  ultimately have "fst (rp_wake False p X) = PR_Packet (fst b, pt_bufs Y (fst b))"
    by (simp add: rp_wake_def rp_unlock_def flip: Y_def)
  moreover have "pt_bufs Y = pt_bufs L"
    by (simp add: Y_def X_def sub_wakeReader_def W_def sub_set_waiting_def L1_def)
  ultimately have after: "fst (rp_wake False p (snd (sub_feed b p (sub_set_waiting True p L1)))) =
      PR_Packet (fst b, pt_bufs L (fst b))"
    by (simp add: f2 flip: W_def)
  define L3 where "L3 = sub_set_waiting True p (snd (sub_feed b p L1))"
  have L3: "sub_items p L3 = [\<lparr>sbuf = Some (snd b), shead = Some (fst b)\<rparr>]"
    "\<not> sc_die (pt_subs L3 p)" "\<not> sc_notify (pt_subs L3 p)"
    unfolding L3_def f1 sub_set_waiting_def using assms(4,6) by (simp_all add: q(2) L1_def)
  have "rp_wake False p L3 = (PR_Wait, L3)" "rp_wake True p L3 = (PR_Wait, L3)"
    using L3 by (simp_all add: rp_wake_def)
  moreover have "fst (sub_feed b p L1) = None" by (simp add: f1)
  ultimately show ?thesis
    using r(1) [folded L1_def] open1(1) after L3(1) unfolding L3_def Let_def by blast
qed

theorem readPacket_lost_wakeup_witness:
  "\<exists>L1. rp_pop 0 sample_side = (None, L1) \<and>
     rp_wake False 0 (sub_set_waiting True 0 (snd (sub_feed (3, [5, 6]) 0 L1))) =
       (PR_Wait, sub_set_waiting True 0 (snd (sub_feed (3, [5, 6]) 0 L1)))"
  using readPacket_lost_wakeup [where p = 0 and L = sample_side and b = "(3, [5, 6])"]
  by (auto simp: sub_gone_def Let_def)

section \<open>Routing\<close>

text \<open>The maps lead to connections of the right address, and an open connection's ring is in use and
  holds non-empty datagrams.\<close>

definition sub_fine :: "sub_conn \<Rightarrow> bool" where
  "sub_fine s \<longleftrightarrow> sc_closed s \<or> ring_live (sc_queue s) \<and> full_slots (ring_items (sc_queue s))"

definition peers_ok :: "(net_addr \<Rightarrow> bytes) \<Rightarrow> 'a peer_side_scheme \<Rightarrow> bool" where
  "peers_ok str L \<longleftrightarrow>
     (\<forall>a p. map_of (pt_udp L) a = Some p \<longrightarrow> p < pt_next L \<and> sc_udp (pt_subs L p) = Some a) \<and>
     (\<forall>a p. map_of (pt_ip L) a = Some p \<longrightarrow> p < pt_next L \<and> sc_ip (pt_subs L p) = Some a) \<and>
     (\<forall>k p. map_of (pt_conns L) k = Some p \<longrightarrow> p < pt_next L \<and> str (sc_remote (pt_subs L p)) = k) \<and>
     (\<forall>p < pt_next L. sub_fine (pt_subs L p))"

lemma peers_okD:
  assumes "peers_ok str L"
  shows "map_of (pt_udp L) a = Some p \<Longrightarrow> p < pt_next L \<and> sc_udp (pt_subs L p) = Some a"
    "map_of (pt_ip L) i = Some p \<Longrightarrow> p < pt_next L \<and> sc_ip (pt_subs L p) = Some i"
    "map_of (pt_conns L) k = Some p \<Longrightarrow> p < pt_next L \<and> str (sc_remote (pt_subs L p)) = k"
    "p < pt_next L \<Longrightarrow> sub_fine (pt_subs L p)"
  using assms unfolding peers_ok_def by blast+

definition same_addr :: "sub_conn \<Rightarrow> sub_conn \<Rightarrow> bool" where
  "same_addr s s' \<longleftrightarrow> sc_udp s' = sc_udp s \<and> sc_ip s' = sc_ip s \<and> sc_remote s' = sc_remote s"

text \<open>A step that takes entries out of the maps at most and changes connections but not their
  addresses keeps this.\<close>

lemma peers_ok_keeps:
  assumes "peers_ok str L" "pt_next L' = pt_next L"
    "\<And>a p. map_of (pt_udp L') a = Some p \<Longrightarrow> map_of (pt_udp L) a = Some p"
    "\<And>a p. map_of (pt_ip L') a = Some p \<Longrightarrow> map_of (pt_ip L) a = Some p"
    "\<And>a p. map_of (pt_conns L') a = Some p \<Longrightarrow> map_of (pt_conns L) a = Some p"
    "\<And>p. same_addr (pt_subs L p) (pt_subs L' p)"
    "\<And>p. p < pt_next L \<Longrightarrow> sub_fine (pt_subs L p) \<Longrightarrow> sub_fine (pt_subs L' p)"
  shows "peers_ok str L'"
  unfolding peers_ok_def
proof (intro conjI allI impI)
  fix a p
  assume "map_of (pt_udp L') a = Some p"
  from peers_okD(1) [OF assms(1) assms(3) [OF this]]
  show "p < pt_next L'" "sc_udp (pt_subs L' p) = Some a" using assms(2,6) by (simp_all add: same_addr_def)
next
  fix a p
  assume "map_of (pt_ip L') a = Some p"
  from peers_okD(2) [OF assms(1) assms(4) [OF this]]
  show "p < pt_next L'" "sc_ip (pt_subs L' p) = Some a" using assms(2,6) by (simp_all add: same_addr_def)
next
  fix k p
  assume "map_of (pt_conns L') k = Some p"
  from peers_okD(3) [OF assms(1) assms(5) [OF this]]
  show "p < pt_next L'" "str (sc_remote (pt_subs L' p)) = k" using assms(2,6) by (simp_all add: same_addr_def)
next
  fix p
  assume "p < pt_next L'"
  then have "p < pt_next L" by (simp add: assms(2))
  then show "sub_fine (pt_subs L' p)" using assms(7) peers_okD(4) [OF assms(1)] by blast
qed

lemma sub_feed_fine:
  assumes "sub_fine (pt_subs L p)" "\<not> sc_closed (pt_subs L p)" "snd b \<noteq> []"
  obtains L1 where "sub_feed b p L = (None, L1)" "\<And>q. q \<noteq> p \<Longrightarrow> pt_subs L1 q = pt_subs L q"
    "sub_fine (pt_subs L1 p)" "same_addr (pt_subs L p) (pt_subs L1 p)" "sc_closed (pt_subs L1 p) = sc_closed (pt_subs L p)"
    "sub_items p L1 = sub_items p L @ [\<lparr>sbuf = Some (snd b), shead = Some (fst b)\<rparr>]"
    "pt_udp L1 = pt_udp L" "pt_ip L1 = pt_ip L" "pt_conns L1 = pt_conns L" "pt_next L1 = pt_next L"
    "pt_isUDP L1 = pt_isUDP L" "pt_closed L1 = pt_closed L"
proof -
  have live: "sub_live p L" "full_slots (sub_items p L)" using assms by (simp_all add: sub_fine_def)
  obtain r where r: "sub_push b p L = upd_sub p (\<lambda>s. s\<lparr>sc_queue := r\<rparr>) L" "ring_live r"
    "ring_items r = sub_items p L @ [\<lparr>sbuf = Some (snd b), shead = Some (fst b)\<rparr>]"
    using sub_push_queue [OF live(1)] by metis
  show ?thesis
    by (rule that [of "sub_signal p (sub_push b p L)"])
      (use assms live r in \<open>simp_all add: sub_feed_def sub_signal_def sub_wakeReader_def sub_fine_def same_addr_def\<close>)
qed

lemma feed_or_put_fine:
  assumes "sub_feed b p L = (None, L1)"
  shows "feed_or_put b p L = L1"
  using assms by (simp add: feed_or_put_def)

text \<open>Registering a peer: the address now leads to a fresh, open, empty connection.\<close>

lemma register_ok:
  assumes "peers_ok str L" "register str raddr L = (q, L1)"
  shows "q = pt_next L" "pt_subs L1 = (pt_subs L)(q := newPacketSubConn raddr)" "pt_isUDP L1 = pt_isUDP L"
    "pt_closed L1 = pt_closed L" "pt_next L1 = Suc q" "peers_ok str L1"
    "pt_isUDP L \<Longrightarrow> addr_port raddr = Some a \<Longrightarrow> map_of (pt_udp L1) = (map_of (pt_udp L))(a \<mapsto> q)"
proof -
  show q: "q = pt_next L" and subs: "pt_subs L1 = (pt_subs L)(q := newPacketSubConn raddr)"
    and "pt_isUDP L1 = pt_isUDP L" and "pt_closed L1 = pt_closed L" and nxt: "pt_next L1 = Suc q"
    and "pt_isUDP L \<Longrightarrow> addr_port raddr = Some a \<Longrightarrow> map_of (pt_udp L1) = (map_of (pt_udp L))(a \<mapsto> q)"
    using assms by (auto simp: register_def Let_def update_conv' split: option.splits if_splits)
  have cs: "map_of (pt_conns L1) = (map_of (pt_conns L))(str raddr \<mapsto> q)"
    using assms by (auto simp: register_def Let_def update_conv' split: option.splits if_splits)
  have udp: "map_of (pt_udp L1) a = Some p \<Longrightarrow> map_of (pt_udp L) a = Some p \<or> p = q \<and> addr_port raddr = Some a" for a p
    using assms by (auto simp: register_def Let_def update_conv' split: option.splits if_splits)
  have ip: "map_of (pt_ip L1) a = Some p \<Longrightarrow> map_of (pt_ip L) a = Some p \<or> p = q \<and> addr_ip raddr = Some a" for a p
    using assms by (auto simp: register_def Let_def update_conv' split: option.splits if_splits)
  have old: "p < pt_next L \<Longrightarrow> pt_subs L1 p = pt_subs L p" for p by (simp add: subs q)
  have new: "pt_subs L1 q = newPacketSubConn raddr" by (simp add: subs)
  show "peers_ok str L1"
    unfolding peers_ok_def nxt
  proof (intro conjI allI impI)
    fix a p
    assume "map_of (pt_udp L1) a = Some p"
    then show "p < Suc q" "sc_udp (pt_subs L1 p) = Some a"
      using udp [of a p] peers_okD(1) [OF assms(1), of a p] old [of p] new by (auto simp: q)
  next
    fix a p
    assume "map_of (pt_ip L1) a = Some p"
    then show "p < Suc q" "sc_ip (pt_subs L1 p) = Some a"
      using ip [of a p] peers_okD(2) [OF assms(1), of a p] old [of p] new by (auto simp: q)
  next
    fix k p
    assume "map_of (pt_conns L1) k = Some p"
    then show "p < Suc q" "str (sc_remote (pt_subs L1 p)) = k"
      using peers_okD(3) [OF assms(1), of k p] old [of p] new by (auto simp: q cs split: if_splits)
  next
    fix p
    assume "p < Suc q"
    then show "sub_fine (pt_subs L1 p)"
      using peers_okD(4) [OF assms(1), of p] old [of p] new by (cases "p = q") (auto simp: q sub_fine_def)
  qed
qed

text \<open>Where a datagram goes.\<close>

lemma deliver_cases:
  assumes "peers_ok str L" "snd b \<noteq> []"
  obtains q L0 L1 where "sub_feed b q L0 = (None, L1)" "\<not> sc_closed (pt_subs L0 q)" "q < pt_next L0"
    "peers_ok str L0" "\<And>r. r < pt_next L \<Longrightarrow> pt_subs L0 r = pt_subs L r"
    "pt_isUDP L0 = pt_isUDP L" "pt_closed L0 = pt_closed L"
    "\<exists>g. deliver str raddr b L = L1\<lparr>pt_goHandshake := g\<rparr>"
    "pt_isUDP L \<Longrightarrow> addr_port raddr = Some a \<Longrightarrow> map_of (pt_udp L0) a = Some q"
    "route str raddr L = Some q \<and> L0 = L \<or>
     q = pt_next L \<and> sub_items q L0 = [] \<and> register str raddr L = (q, L0) \<and>
       (\<forall>p. route str raddr L = Some p \<longrightarrow> sc_closed (pt_subs L p))"
proof -
  have known: "route str raddr L = Some p \<Longrightarrow> p < pt_next L" for p
    using peers_okD(1-3) [OF assms(1)] by (auto simp: route_def bind_eq_Some_conv split: if_splits option.splits)
  show ?thesis
  proof (cases "\<exists>p. route str raddr L = Some p \<and> \<not> sc_closed (pt_subs L p)")
    case True
    then obtain p where p: "route str raddr L = Some p" "\<not> sc_closed (pt_subs L p)" by blast
    have fine: "sub_fine (pt_subs L p)" using known [OF p(1)] assms(1) by (simp add: peers_ok_def)
    obtain L1 where L1: "sub_feed b p L = (None, L1)" using sub_feed_fine [OF fine p(2) assms(2)] by metis
    have "deliver str raddr b L = L1\<lparr>pt_goHandshake := pt_goHandshake L1\<rparr>"
      using p by (simp add: deliver_def feed_or_put_def L1)
    then have "\<exists>g. deliver str raddr b L = L1\<lparr>pt_goHandshake := g\<rparr>" by blast
    moreover have "pt_isUDP L \<Longrightarrow> addr_port raddr = Some a \<Longrightarrow> map_of (pt_udp L) a = Some p"
      using p(1) by (simp add: route_def)
    ultimately show ?thesis using that [of p L L1] L1 p known [OF p(1)] assms(1) by blast
  next
    case False
    obtain q L0 where reg: "register str raddr L = (q, L0)" by force
    note r = register_ok [OF assms(1) reg]
    have o: "\<not> sc_closed (pt_subs L0 q)" "sub_fine (pt_subs L0 q)" "sub_items q L0 = []"
      by (simp_all add: r(2) sub_fine_def)
    obtain L1 where L1: "sub_feed b q L0 = (None, L1)" using sub_feed_fine [OF o(2,1) assms(2)] by metis
    have "deliver str raddr b L = new_peer str raddr b L"
      using False by (auto simp: deliver_def split: option.split)
    then have "\<exists>g. deliver str raddr b L = L1\<lparr>pt_goHandshake := g\<rparr>"
      by (auto simp: new_peer_def reg feed_or_put_def L1)
    moreover have "pt_isUDP L \<Longrightarrow> addr_port raddr = Some a \<Longrightarrow> map_of (pt_udp L0) a = Some q"
      using r(7) by simp
    moreover have "\<And>s. s < pt_next L \<Longrightarrow> pt_subs L0 s = pt_subs L s" "q < pt_next L0"
      by (simp_all add: r(1,2,5))
    ultimately show ?thesis using that [of q L0 L1] L1 o r(1,3,4,6) reg False by blast
  qed
qed

lemma deliver_ok:
  assumes "peers_ok str L" "snd b \<noteq> []"
  shows "peers_ok str (deliver str raddr b L)"
proof -
  obtain q L0 L1 g where d: "sub_feed b q L0 = (None, L1)" "\<not> sc_closed (pt_subs L0 q)" "q < pt_next L0"
    "peers_ok str L0" "deliver str raddr b L = L1\<lparr>pt_goHandshake := g\<rparr>"
    using deliver_cases [OF assms] by metis
  have "sub_fine (pt_subs L0 q)" using d(3,4) by (simp add: peers_ok_def)
  from sub_feed_fine [OF this d(2) assms(2)] obtain L1' where f:
    "sub_feed b q L0 = (None, L1')" "\<And>p. p \<noteq> q \<Longrightarrow> pt_subs L1' p = pt_subs L0 p" "sub_fine (pt_subs L1' q)"
    "same_addr (pt_subs L0 q) (pt_subs L1' q)" "pt_udp L1' = pt_udp L0" "pt_ip L1' = pt_ip L0"
    "pt_conns L1' = pt_conns L0" "pt_next L1' = pt_next L0" by metis
  have eq: "L1' = L1" using f(1) d(1) by simp
  have "same_addr (pt_subs L0 p) (pt_subs L1 p)" for p
    using f(2,4) by (cases "p = q") (simp_all add: eq same_addr_def)
  moreover have "sub_fine (pt_subs L0 p) \<Longrightarrow> sub_fine (pt_subs L1 p)" for p
    using f(2,3) by (cases "p = q") (simp_all add: eq)
  ultimately show ?thesis
    unfolding d(5) using f by (intro peers_ok_keeps [OF d(4)]) (simp_all add: eq)
qed

text \<open>The runs of the peer side: datagrams arrive or the socket fails, connections are read from and
  closed, step by step and in any order.\<close>

inductive peer_run :: "(net_addr \<Rightarrow> bytes) \<Rightarrow> peer_side \<Rightarrow> bool" for str where
  start: "pt_udp L = [] \<Longrightarrow> pt_ip L = [] \<Longrightarrow> pt_conns L = [] \<Longrightarrow> pt_next L = 0 \<Longrightarrow> peer_run str L"
| turn: "peer_run str L \<Longrightarrow> peer_run str (snd (packetReadLoop_turn str ev L))"
| take: "peer_run str L \<Longrightarrow> peer_run str (snd (sub_fill k p L))"
| packet: "peer_run str L \<Longrightarrow> peer_run str (snd (rp_pop p L))"
| flags: "peer_run str L \<Longrightarrow> peer_run str (upd_sub p (\<lambda>s. s\<lparr>sc_waiting := w, sc_notify := n, sc_readMu := m\<rparr>) L)"
| mark: "peer_run str L \<Longrightarrow> peer_run str (sub_close_mark p L)"
| unmap: "peer_run str L \<Longrightarrow> peer_run str (sub_close_unmap str p L)"
| drained: "peer_run str L \<Longrightarrow> sc_closed (pt_subs L p) \<Longrightarrow> peer_run str (sub_close_drain p L)"
| listener_closes: "peer_run str L \<Longrightarrow> peer_run str (L\<lparr>pt_closed := True\<rparr>)"

text \<open>Reading changes the queue of one connection only.\<close>

definition one_queue :: "pref \<Rightarrow> 'a peer_side_scheme \<Rightarrow> 'a peer_side_scheme \<Rightarrow> bool" where
  "one_queue p L L1 \<longleftrightarrow>
     pt_udp L1 = pt_udp L \<and> pt_ip L1 = pt_ip L \<and> pt_conns L1 = pt_conns L \<and> pt_next L1 = pt_next L \<and>
     (\<forall>q. q \<noteq> p \<longrightarrow> pt_subs L1 q = pt_subs L q) \<and>
     same_addr (pt_subs L p) (pt_subs L1 p) \<and> sc_closed (pt_subs L1 p) = sc_closed (pt_subs L p)"

lemma one_queue_simps [simp]:
  "one_queue p L (upd_sub p (\<lambda>s. s\<lparr>sc_queue := r\<rparr>) L)" "one_queue p L (L\<lparr>pt_panic := b\<rparr>)"
  "one_queue p L (pt_put h M) = one_queue p L M" "one_queue p L L"
  by (auto simp: one_queue_def same_addr_def)

lemma one_queue_trans: "one_queue p L M \<Longrightarrow> one_queue p M N \<Longrightarrow> one_queue p L N"
  by (simp add: one_queue_def same_addr_def)

lemma sub_partial_one: "one_queue p L (snd (sub_partial k p L))"
  by (auto simp: sub_partial_def split: outcome.split)

lemma sub_fill_one: "one_queue p L (snd (sub_fill k p L))"
proof (induction k arbitrary: L rule: less_induct)
  case (less k)
  obtain d M where par: "sub_partial k p L = (d, M)" by force
  then have M: "one_queue p L M" using sub_partial_one [of p L k] by simp
  show ?case
  proof (cases "k = 0 \<or> d = []")
    case True
    then show ?thesis using M par by (auto simp: sub_fill.simps [of k])
  next
    case False
    then have "one_queue p M (snd (sub_fill (k - length d) p M))" by (intro less) auto
    then have "one_queue p L (snd (sub_fill (k - length d) p M))" by (rule one_queue_trans [OF M])
    then show ?thesis using False par by (simp add: sub_fill.simps [of k] case_prod_beta)
  qed
qed

lemma peers_ok_one_queue:
  assumes "peers_ok str L" "one_queue p L L1"
    "p < pt_next L \<Longrightarrow> \<not> sc_closed (pt_subs L p) \<Longrightarrow> sub_live p L1 \<and> full_slots (sub_items p L1)"
  shows "peers_ok str L1"
proof (rule peers_ok_keeps [OF assms(1)])
  fix q
  show "same_addr (pt_subs L q) (pt_subs L1 q)"
    using assms(2) by (cases "q = p") (simp_all add: one_queue_def same_addr_def)
  assume "q < pt_next L" "sub_fine (pt_subs L q)"
  then show "sub_fine (pt_subs L1 q)"
    using assms(2,3) by (cases "q = p") (auto simp: one_queue_def sub_fine_def)
qed (use assms(2) in \<open>simp_all add: one_queue_def\<close>)

lemma drain_loop_one: "one_queue p L (drain_loop n p L)"
proof (induction n arbitrary: L)
  case (Suc n)
  have "one_queue p L (drain_loop n p (pt_put h (upd_sub p (\<lambda>s. s\<lparr>sc_queue := r\<rparr>) L)))" for h r
    by (rule one_queue_trans [OF _ Suc]) simp
  then show ?case by (auto split: outcome.split option.split)
qed simp

lemma unmap_fields:
  "map_of (pt_udp (sub_close_unmap str p L)) = (case sc_udp (pt_subs L p) of None \<Rightarrow> map_of (pt_udp L) | Some a \<Rightarrow> (map_of (pt_udp L))(a := None))"
  "map_of (pt_ip (sub_close_unmap str p L)) = (case sc_ip (pt_subs L p) of None \<Rightarrow> map_of (pt_ip L) | Some a \<Rightarrow> (map_of (pt_ip L))(a := None))"
  "map_of (pt_conns (sub_close_unmap str p L)) = (map_of (pt_conns L))(str (sc_remote (pt_subs L p)) := None)"
  "pt_subs (sub_close_unmap str p L) = pt_subs L" "pt_next (sub_close_unmap str p L) = pt_next L"
  "pt_isUDP (sub_close_unmap str p L) = pt_isUDP L"
  by (simp_all add: sub_close_unmap_def Let_def delete_conv' split: option.split)

lemma sub_fill_ok: "peers_ok str L \<Longrightarrow> peers_ok str (snd (sub_fill k p L))"
proof (rule peers_ok_one_queue [OF _ sub_fill_one])
  assume ok: "peers_ok str L" and p: "p < pt_next L" "\<not> sc_closed (pt_subs L p)"
  obtain d L1 where f: "sub_fill k p L = (d, L1)" by force
  have "taken k p L d L1"
    using peers_okD(4) [OF ok p(1)] p(2) by (intro sub_fill_taken [OF _ _ f]) (simp_all add: sub_fine_def)
  then show "sub_live p (snd (sub_fill k p L)) \<and> full_slots (sub_items p (snd (sub_fill k p L)))"
    by (simp add: f ring_taken_def)
qed

lemma rp_pop_one: "one_queue p L (snd (rp_pop p L))"
  by (auto simp: rp_pop_def Let_def split: outcome.split option.split)

lemma rp_pop_ok: "peers_ok str L \<Longrightarrow> peers_ok str (snd (rp_pop p L))"
proof (rule peers_ok_one_queue [OF _ rp_pop_one])
  assume ok: "peers_ok str L" and p: "p < pt_next L" "\<not> sc_closed (pt_subs L p)"
  have live: "sub_live p L" "full_slots (sub_items p L)"
    using peers_okD(4) [OF ok p(1)] p(2) by (simp_all add: sub_fine_def)
  obtain x r where pop: "Pop (sc_queue (pt_subs L p)) = Ret (x, r)" "ring_live r" "full_slots (ring_items r)"
  proof (cases "sub_items p L")
    case Nil
    then show ?thesis using rb.pop_empty [OF live(1) Nil] that by auto
  next
    case (Cons s xs)
    then show ?thesis using rb.pop_item [OF live(1) Cons] that live(2) by auto
  qed
  then have "sc_queue (pt_subs (snd (rp_pop p L)) p) = r"
    by (auto simp: rp_pop_def Let_def split: option.split)
  with pop show "sub_live p (snd (rp_pop p L)) \<and> full_slots (sub_items p (snd (rp_pop p L)))" by simp
qed

lemma one_queue_upd:
  "same_addr (pt_subs L p) (f (pt_subs L p)) \<Longrightarrow> sc_closed (f (pt_subs L p)) = sc_closed (pt_subs L p) \<Longrightarrow>
   one_queue p L (upd_sub p f L)"
  by (simp add: one_queue_def)

lemma close_drain_one: "one_queue p L (sub_close_drain p L)"
proof (cases "sc_readMu (pt_subs L p)")
  case True
  then show ?thesis unfolding sub_close_drain_def if_P [OF True]
    by (intro one_queue_upd) (simp_all add: same_addr_def)
next
  case False
  have "one_queue p L (sub_drainRing p L)" unfolding sub_drainRing_def by (rule drain_loop_one)
  moreover have "one_queue p (sub_drainRing p L)
      (upd_sub p (\<lambda>s. s\<lparr>sc_queue := fst (ring_Close (sc_queue s)), sc_closeWait := False\<rparr>) (sub_drainRing p L))"
    by (rule one_queue_upd) (simp_all add: same_addr_def)
  ultimately show ?thesis
    unfolding sub_close_drain_def if_not_P [OF False] by (rule one_queue_trans)
qed

lemma turn_ok:
  assumes "peers_ok str L"
  shows "peers_ok str (snd (packetReadLoop_turn str ev L))"
proof (cases "pt_closed L")
  case False
  have ok: "peers_ok str (L\<lparr>pt_nextB := n, pt_bufs := f\<rparr>)" "peers_ok str (pt_put h (L\<lparr>pt_nextB := n\<rparr>))" for n f h
    by (rule peers_ok_keeps [OF assms]; simp add: same_addr_def)+
  show ?thesis
  proof (cases ev)
    case (Inl e)
    then show ?thesis using ok False by (simp add: packetReadLoop_turn_def Let_def)
  next
    case (Inr x)
    define d where "d = take (read_buf_size (pt_mtu L)) (fst x)"
    define M where "M = L\<lparr>pt_nextB := Suc (pt_nextB L), pt_bufs := (pt_bufs L)(pt_nextB L := d)\<rparr>"
    have "d \<noteq> [] \<Longrightarrow> peers_ok str (deliver str (snd x) (pt_nextB L, d) M)"
      unfolding M_def by (rule deliver_ok [OF ok(1)]) simp
    moreover have "snd (packetReadLoop_turn str ev L) =
        (if length d > pt_mtu L \<or> d = [] then pt_put (Some (pt_nextB L)) (L\<lparr>pt_nextB := Suc (pt_nextB L)\<rparr>)
         else deliver str (snd x) (pt_nextB L, d) M)"
      using False Inr by (simp add: packetReadLoop_turn_def Let_def case_prod_beta M_def d_def)
    ultimately show ?thesis using ok(2) by simp
  qed
qed (simp add: packetReadLoop_turn_def assms)

lemma peer_run_ok: "peer_run str L \<Longrightarrow> peers_ok str L"
proof (induction rule: peer_run.induct)
  case (start L)
  then show ?case by (simp add: peers_ok_def)
next
  case (turn L ev)
  then show ?case by (simp add: turn_ok)
next
  case (take L k p)
  then show ?case by (simp add: sub_fill_ok)
next
  case (packet L p)
  then show ?case by (simp add: rp_pop_ok)
next
  case (flags L p w n m)
  show ?case
  proof (rule peers_ok_one_queue [OF flags.IH one_queue_upd])
    assume "p < pt_next L" "\<not> sc_closed (pt_subs L p)"
    then show "sub_live p (upd_sub p (\<lambda>s. s\<lparr>sc_waiting := m, sc_notify := n, sc_readMu := w\<rparr>) L) \<and>
        full_slots (sub_items p (upd_sub p (\<lambda>s. s\<lparr>sc_waiting := m, sc_notify := n, sc_readMu := w\<rparr>) L))"
      using peers_okD(4) [OF flags.IH, of p] by (simp add: sub_fine_def)
  qed (simp_all add: same_addr_def)
next
  case (mark L p)
  show ?case
    by (rule peers_ok_keeps [OF mark.IH]) (simp_all add: sub_close_mark_def same_addr_def sub_fine_def)
next
  case (unmap L p)
  show ?case
    by (rule peers_ok_keeps [OF unmap.IH])
      (simp_all add: unmap_fields same_addr_def split: option.splits if_splits)
next
  case (drained L p)
  then show ?case by (intro peers_ok_one_queue [OF drained.IH close_drain_one]) simp
next
  case (listener_closes L)
  show ?case by (rule peers_ok_keeps [OF listener_closes.IH]) (simp_all add: same_addr_def)
qed

text \<open>A datagram for a UDP listener: it ends up alone in its sender's queue.\<close>

lemma deliver_udp:
  assumes "peers_ok str L" "pt_isUDP L" "addr_port raddr = Some a" "snd b \<noteq> []"
    and L': "L' = deliver str raddr b L"
  obtains q where "route str raddr L' = Some q" "sc_udp (pt_subs L' q) = Some a" "\<not> sc_closed (pt_subs L' q)"
    "sub_items q L' = sub_items q L @ [\<lparr>sbuf = Some (snd b), shead = Some (fst b)\<rparr>] \<and> route str raddr L = Some q \<and>
       \<not> sc_closed (pt_subs L q) \<or>
     sub_items q L' = [\<lparr>sbuf = Some (snd b), shead = Some (fst b)\<rparr>] \<and> q = pt_next L \<and>
       (\<forall>p. route str raddr L = Some p \<longrightarrow> sc_closed (pt_subs L p))"
    "\<And>p. p < pt_next L \<Longrightarrow> p \<noteq> q \<Longrightarrow> pt_subs L' p = pt_subs L p" "pt_isUDP L'"
    "map_of (pt_udp L') a = Some q"
proof (rule deliver_cases [OF assms(1,4), of raddr a])
  fix q L0 L1
  assume f: "sub_feed b q L0 = (None, L1)" and o: "\<not> sc_closed (pt_subs L0 q)" "q < pt_next L0"
    and ok0: "peers_ok str L0" and old: "\<And>r. r < pt_next L \<Longrightarrow> pt_subs L0 r = pt_subs L r"
    and udp: "pt_isUDP L0 = pt_isUDP L" and del: "\<exists>g. deliver str raddr b L = L1\<lparr>pt_goHandshake := g\<rparr>"
    and q: "pt_isUDP L \<Longrightarrow> addr_port raddr = Some a \<Longrightarrow> map_of (pt_udp L0) a = Some q"
    and where_to: "route str raddr L = Some q \<and> L0 = L \<or>
      q = pt_next L \<and> sub_items q L0 = [] \<and> register str raddr L = (q, L0) \<and>
      (\<forall>p. route str raddr L = Some p \<longrightarrow> sc_closed (pt_subs L p))"
  obtain L1' where g: "sub_feed b q L0 = (None, L1')" "\<And>p. p \<noteq> q \<Longrightarrow> pt_subs L1' p = pt_subs L0 p"
    "same_addr (pt_subs L0 q) (pt_subs L1' q)" "sc_closed (pt_subs L1' q) = sc_closed (pt_subs L0 q)"
    "sub_items q L1' = sub_items q L0 @ [\<lparr>sbuf = Some (snd b), shead = Some (fst b)\<rparr>]"
    "pt_udp L1' = pt_udp L0" "pt_isUDP L1' = pt_isUDP L0"
    by (rule sub_feed_fine [OF peers_okD(4) [OF ok0 o(2)] o(1) assms(4)]) blast
  have L1: "L1' = L1" using g(1) f by simp
  have L'1: "pt_subs L' = pt_subs L1" "pt_udp L' = pt_udp L0" "pt_isUDP L'"
    using del g(6,7) udp assms(2) by (auto simp: L1 L')
  have q0: "map_of (pt_udp L0) a = Some q" by (rule q [OF assms(2,3)])
  have items: "sub_items q L' = sub_items q L0 @ [\<lparr>sbuf = Some (snd b), shead = Some (fst b)\<rparr>]"
    using g(5) by (simp add: L'1(1) L1)
  show thesis
  proof (rule that)
    show "route str raddr L' = Some q" "map_of (pt_udp L') a = Some q" "pt_isUDP L'"
      using q0 L'1 assms(3) by (simp_all add: route_def)
    show "sc_udp (pt_subs L' q) = Some a" "\<not> sc_closed (pt_subs L' q)"
      using peers_okD(1) [OF ok0 q0] g(3,4) o(1) by (simp_all add: L'1(1) L1 same_addr_def)
    show "p < pt_next L \<Longrightarrow> p \<noteq> q \<Longrightarrow> pt_subs L' p = pt_subs L p" for p
      using g(2) old by (simp add: L'1(1) L1)
    show "sub_items q L' = sub_items q L @ [\<lparr>sbuf = Some (snd b), shead = Some (fst b)\<rparr>] \<and> route str raddr L = Some q \<and>
       \<not> sc_closed (pt_subs L q) \<or>
     sub_items q L' = [\<lparr>sbuf = Some (snd b), shead = Some (fst b)\<rparr>] \<and> q = pt_next L \<and>
       (\<forall>p. route str raddr L = Some p \<longrightarrow> sc_closed (pt_subs L p))"
      using where_to items o(1) by (elim disjE conjE) simp_all
  qed
qed

text \<open>C14: Datagrams are routed to their sender's connection and nowhere else.  In every state a UDP
  listener can reach, whatever was received, read and closed before in whatever order, a datagram
  of at most MTU bytes is appended to the queue of an open connection whose address is the
  datagram's source, to which the source is from then on routed: the connection already serving
  that source if it is open, and otherwise a new one with nothing else in its queue.  No other
  connection is touched.\<close>

theorem datagram_routed:
  assumes "peer_run str L" "\<not> pt_closed L" "pt_isUDP L" "addr_port raddr = Some a"
    "d \<noteq> []" "length d \<le> pt_mtu L" "pt_mtu L \<le> MaxAllocSize"
    and L': "L' = snd (packetReadLoop_turn str (Inr (d, raddr)) L)"
  shows "\<exists>q. route str raddr L' = Some q \<and> sc_udp (pt_subs L' q) = Some a \<and> \<not> sc_closed (pt_subs L' q) \<and>
    (sub_items q L' = sub_items q L @ [\<lparr>sbuf = Some d, shead = Some (pt_nextB L)\<rparr>] \<and> route str raddr L = Some q \<or>
     sub_items q L' = [\<lparr>sbuf = Some d, shead = Some (pt_nextB L)\<rparr>] \<and> q = pt_next L \<and>
       (\<forall>p. route str raddr L = Some p \<longrightarrow> sc_closed (pt_subs L p))) \<and>
    (\<forall>p < pt_next L. p \<noteq> q \<longrightarrow> pt_subs L' p = pt_subs L p)"
proof -
  define h where "h = pt_nextB L"
  define M where "M = L\<lparr>pt_nextB := Suc h, pt_bufs := (pt_bufs L)(h := d)\<rparr>"
  have M: "pt_subs M = pt_subs L" "pt_next M = pt_next L" "pt_isUDP M" "route str raddr M = route str raddr L"
    using assms(3) by (simp_all add: M_def route_def)
  have ok: "peers_ok str M"
    by (rule peers_ok_keeps [OF peer_run_ok [OF assms(1)]]) (simp_all add: M_def same_addr_def)
  have "take (read_buf_size (pt_mtu L)) d = d" using assms(6,7) by (simp add: read_buf_size_def)
  then have del: "L' = deliver str raddr (h, d) M"
    using assms(2,5,6) by (auto simp: L' packetReadLoop_turn_def Let_def M_def h_def)
  have "snd (h, d) \<noteq> []" using assms(5) by simp
  from deliver_udp [OF ok M(3) assms(4) this del, unfolded M(1,2,4)] show ?thesis
    unfolding h_def fst_conv snd_conv by blast
qed

definition sample_start :: peer_side where
  "sample_start = sample_side\<lparr>pt_next := 0\<rparr>"

lemma sample_start_run: "peer_run str sample_start"
  by (rule peer_run.start) (simp_all add: sample_start_def sample_side_def)

theorem datagram_routed_witness:
  "\<exists>q. route (\<lambda>_. []) (UDPAddr [10, 0, 0, 2] 7)
      (snd (packetReadLoop_turn (\<lambda>_. []) (Inr ([1, 2, 3], UDPAddr [10, 0, 0, 2] 7)) sample_start)) = Some q \<and>
    sub_items q (snd (packetReadLoop_turn (\<lambda>_. []) (Inr ([1, 2, 3], UDPAddr [10, 0, 0, 2] 7)) sample_start)) =
      [\<lparr>sbuf = Some [1, 2, 3], shead = Some 8\<rparr>]"
  using datagram_routed [OF sample_start_run [of "\<lambda>_. []"], where raddr = "UDPAddr [10, 0, 0, 2] 7" and
      a = "([10, 0, 0, 2], 7)" and d = "[1, 2, 3]", OF _ _ _ _ _ _ refl]
  by (auto simp: sample_start_def sample_side_def addr_port_def AddrFromSlice_def MaxAllocSize_def route_def)


text \<open>C39: \<^verbatim>\<open>Close\<close> takes its address out of the maps without checking who is registered there.  When a
  datagram of the same peer arrives after a closing connection has set its flags and before it has
  removed its entries, the datagram opens a new connection, and then the closing one removes the new
  entry: the new connection is open and has the datagram, but no later datagram will be routed to
  it.  Had the entries been removed first, it would be found.\<close>

theorem close_drops_successor:
  assumes "peer_run str L" "pt_isUDP L" "addr_port raddr = Some a" "route str raddr L = Some p" "snd b \<noteq> []"
    and L2: "L2 = deliver str raddr b (sub_close_mark p L)"
    and L3: "L3 = sub_close_unmap str p L2"
    and L4: "L4 = deliver str raddr b (sub_close_unmap str p (sub_close_mark p L))"
  shows "route str raddr L2 = Some (pt_next L) \<and> \<not> sc_closed (pt_subs L3 (pt_next L)) \<and>
    sub_items (pt_next L) L3 = [\<lparr>sbuf = Some (snd b), shead = Some (fst b)\<rparr>] \<and>
    route str raddr L3 = None \<and> route str raddr L4 = Some (pt_next L)"
proof -
  have p: "map_of (pt_udp L) a = Some p" using assms(2-4) by (simp add: route_def)
  note pD = peers_okD(1) [OF peer_run_ok [OF assms(1)] p]
  define K where "K = sub_close_mark p L"
  have run: "peer_run str K" unfolding K_def by (rule peer_run.mark [OF assms(1)])
  have K: "pt_isUDP K" "pt_next K = pt_next L" "route str raddr K = Some p" "sc_closed (pt_subs K p)"
    "sc_udp (pt_subs K p) = Some a"
    using assms(2,4) pD by (simp_all add: K_def sub_close_mark_def route_def)
  obtain q where q: "route str raddr L2 = Some q" "\<not> sc_closed (pt_subs L2 q)" "q = pt_next L"
    "sub_items q L2 = [\<lparr>sbuf = Some (snd b), shead = Some (fst b)\<rparr>]" "pt_subs L2 p = pt_subs K p" "pt_isUDP L2"
    by (rule deliver_udp [OF peer_run_ok [OF run] K(1) assms(3,5) L2 [folded K_def]])
      (use K(2-4) pD in \<open>auto simp: less_le\<close>)
  have M: "route str raddr (sub_close_unmap str p K) = None"
    "peers_ok str (sub_close_unmap str p K)" "pt_isUDP (sub_close_unmap str p K)"
    using K(1,5) assms(3) peer_run_ok [OF peer_run.unmap [OF run, of p]]
    by (simp_all add: route_def unmap_fields)
  obtain r where "route str raddr L4 = Some r" "r = pt_next L"
    by (rule deliver_udp [OF M(2,3) assms(3,5) L4 [folded K_def]])
      (use M(1) K(2) in \<open>simp add: unmap_fields\<close>)
  moreover have "route str raddr L3 = None"
    using q(5,6) K(5) assms(3) by (simp add: L3 route_def unmap_fields)
  ultimately show ?thesis using q(1-4) by (simp add: L3 unmap_fields)
qed

theorem close_drops_successor_witness:
  "\<exists>L p. peer_run (\<lambda>_. []) L \<and> route (\<lambda>_. []) (UDPAddr [10, 0, 0, 2] 7) L = Some p \<and>
     route (\<lambda>_. []) (UDPAddr [10, 0, 0, 2] 7)
       (sub_close_unmap (\<lambda>_. []) p (deliver (\<lambda>_. []) (UDPAddr [10, 0, 0, 2] 7) (9, [4]) (sub_close_mark p L))) = None"
proof -
  let ?a = "UDPAddr [10, 0, 0, 2] 7"
  define M where "M = sample_start\<lparr>pt_nextB := 9, pt_bufs := (pt_bufs sample_start)(8 := [1, 2, 3])\<rparr>"
  define L where "L = snd (packetReadLoop_turn (\<lambda>_. []) (Inr ([1, 2, 3], ?a)) sample_start)"
  have run: "peer_run (\<lambda>_. []) L" unfolding L_def by (rule peer_run.turn [OF sample_start_run])
  have port: "addr_port ?a = Some ([10, 0, 0, 2], 7)" by (simp add: addr_port_def AddrFromSlice_def)
  have ok: "peers_ok (\<lambda>_. []) M"
    by (rule peers_ok_keeps [OF peer_run_ok [OF sample_start_run]]) (simp_all add: M_def same_addr_def)
  have del: "L = deliver (\<lambda>_. []) ?a (8, [1, 2, 3]) M" and udp: "pt_isUDP M"
    by (simp_all add: L_def M_def packetReadLoop_turn_def sample_start_def sample_side_def Let_def
        read_buf_size_def MaxAllocSize_def)
  obtain p where p: "route (\<lambda>_. []) ?a L = Some p" "pt_isUDP L"
    by (rule deliver_udp [OF ok udp port _ del]) simp_all
  have "route (\<lambda>_. []) ?a (sub_close_unmap (\<lambda>_. []) p (deliver (\<lambda>_. []) ?a (9, [4]) (sub_close_mark p L))) = None"
    using close_drops_successor [OF run p(2) port p(1) _ refl refl refl, of "(9, [4])"] by simp
  with run p(1) show ?thesis by blast
qed

end
