(* ===== verification/Listener.thy ===== *)
theory Listener
  imports Lifecycle Handshake PacketConn
begin

text \<open>
  The listener (\<^verbatim>\<open>src/listener.go\<close>, and \<^verbatim>\<open>ListenPacket\<close> and \<^verbatim>\<open>handleIncomingPacketConn\<close> of
  \<^verbatim>\<open>src/packetListener.go\<close>): the table of sessions, the responder's side of the handshake with fresh
  sessions and resumption, \<^verbatim>\<open>Accept\<close>, the accept loop and \<^verbatim>\<open>Close\<close>.

  A transport is a number; what its peer sends is the argument \<open>ci\<close>, what a write of the reply returns
  the argument \<open>wr\<close>.  Sessions and \<^verbatim>\<open>activeSession\<close> objects are shared by pointer and live in stores.
  The close hook that \<^verbatim>\<open>handshake\<close> adds to a session is the number of its \<^verbatim>\<open>activeSession\<close>: when the
  session runs it, the listener forgets that object.
\<close>

section \<open>State\<close>

type_synonym aref = nat
type_synonym sref = nat

record active_session =
  as_id :: bytes
  as_session :: sref
  as_nonce :: u32
  as_initiatorPublicKey :: bytes
  as_responderPrivateKey :: bytes

text \<open>The fields of \<^verbatim>\<open>Listener\<close> beside those of the peer side; \<open>ln_goConn\<close> are the goroutines
  \<^verbatim>\<open>handleIncomingStreamConn\<close> that have been started, \<open>ln_connClosed\<close> the transports closed by the
  listener.\<close>

record listener = peer_side +
  ln_sessionConfig :: "config option"
  ln_handshakeTimeout :: time
  ln_AllowConnectionResumption :: bool
  ln_ConnectionResumeTimeout :: time
  ln_TransparentResumption :: bool
  ln_sessions :: "(bytes, aref) gomap"
  ln_acts :: "aref \<Rightarrow> active_session"
  ln_nextA :: aref
  ln_sess :: "sref \<Rightarrow> session"
  ln_nextS :: sref
  ln_acceptChan :: "sref list"
  ln_acceptOnce :: bool
  ln_acceptErr :: "go_error option"
  ln_acceptDone :: bool
  ln_die :: bool
  ln_goConn :: "nat list"
  ln_connClosed :: "nat list"

definition acceptCap :: nat where "acceptCap = 64"

text \<open>\<open>mem\<close> is the memory the listener is created in: its unused stores.\<close>

definition Listen :: "listener \<Rightarrow> config option \<Rightarrow> listener" where
  "Listen mem config =
     (let cfg = (case config of None \<Rightarrow> DefaultConfig | Some c \<Rightarrow> c) in
      mem\<lparr>pt_conns := [], pt_udp := [], pt_ip := [], pt_next := 0, pt_closed := False, pt_isUDP := False,
        pt_pconn := False, pt_mtu := 0, pt_goHandshake := [], pt_panic := False,
        ln_sessionConfig := Some cfg, ln_handshakeTimeout := 10 * second,
        ln_AllowConnectionResumption := True,
        ln_ConnectionResumeTimeout := ConnectionResumeTimeout cfg, ln_TransparentResumption := False,
        ln_sessions := [], ln_nextA := 0, ln_nextS := 0, ln_acceptChan := [], ln_acceptOnce := False,
        ln_acceptErr := None, ln_acceptDone := False, ln_die := False, ln_goConn := [],
        ln_connClosed := []\<rparr>)"

text \<open>\<open>udp\<close>: the socket is a \<^verbatim>\<open>*net.UDPConn\<close>; \<open>nilConn\<close>: it is nil.\<close>

definition ListenPacket :: "listener \<Rightarrow> bool \<Rightarrow> bool \<Rightarrow> int \<Rightarrow> config option \<Rightarrow> go_error + listener" where
  "ListenPacket mem nilConn udp MTU config =
     (if nilConn then Inl (ErrText ''packetConn cannot be nil'')
      else if MTU < 64 \<or> MTU > 65535 \<or> MTU > int MaxAllocSize
      then Inl (ErrText ''MTU must be between 64 and 65535'')
      else
        let cfg0 = (case config of None \<Rightarrow> DefaultConfig | Some c \<Rightarrow> c);
            maxData = (word_of_int (MTU - 17) :: u32);
            cfg = (if MaxFrameDataSize cfg0 = 0 \<or> MaxFrameDataSize cfg0 > maxData
                   then cfg0\<lparr>MaxFrameDataSize := maxData\<rparr> else cfg0)
        in Inr ((Listen mem (Some cfg))\<lparr>pt_isUDP := udp, pt_pconn := True, pt_mtu := nat MTU,
             ln_TransparentResumption := True\<rparr>))"

section \<open>The table of sessions\<close>

definition getSession :: "bytes \<Rightarrow> listener \<Rightarrow> aref option" where
  "getSession ident ln =
     (case map_of (ln_sessions ln) ident of
        None \<Rightarrow> None
      | Some a \<Rightarrow> if s_closed (ln_sess ln (as_session (ln_acts ln a))) then None else Some a)"

definition saveSession :: "bytes \<Rightarrow> aref \<Rightarrow> listener \<Rightarrow> listener" where
  "saveSession ident a ln = ln\<lparr>ln_sessions := AList.update ident a (ln_sessions ln)\<rparr>"

definition forgetSession :: "bytes \<Rightarrow> aref \<Rightarrow> listener \<Rightarrow> listener" where
  "forgetSession ident a ln =
     (case map_of (ln_sessions ln) ident of
        Some cur \<Rightarrow> if cur = a then ln\<lparr>ln_sessions := AList.delete ident (ln_sessions ln)\<rparr> else ln
      | None \<Rightarrow> ln)"

definition upd_sess :: "sref \<Rightarrow> (session \<Rightarrow> session) \<Rightarrow> listener \<Rightarrow> listener" where
  "upd_sess r f ln = ln\<lparr>ln_sess := (ln_sess ln)(r := f (ln_sess ln r))\<rparr>"

definition upd_act :: "aref \<Rightarrow> (active_session \<Rightarrow> active_session) \<Rightarrow> listener \<Rightarrow> listener" where
  "upd_act a f ln = ln\<lparr>ln_acts := (ln_acts ln)(a := f (ln_acts ln a))\<rparr>"

definition deleteSession :: "bytes \<Rightarrow> listener \<Rightarrow> listener" where
  "deleteSession ident ln =
     (case map_of (ln_sessions ln) ident of
        None \<Rightarrow> ln
      | Some a \<Rightarrow>
          upd_sess (as_session (ln_acts ln a)) (\<lambda>s. s\<lparr>s_goClose := s_goClose s + 1\<rparr>)
            (ln\<lparr>ln_sessions := AList.delete ident (ln_sessions ln)\<rparr>))"

text \<open>A session's own step, with the close hooks it runs.\<close>

definition run_hooks :: "nat list \<Rightarrow> listener \<Rightarrow> listener" where
  "run_hooks hooks ln = fold (\<lambda>a l. forgetSession (as_id (ln_acts l a)) a l) hooks ln"

definition set_session :: "sref \<Rightarrow> session \<Rightarrow> listener \<Rightarrow> listener" where
  "set_session r s ln =
     run_hooks (drop (length (s_hooksRun (ln_sess ln r))) (s_hooksRun s)) (upd_sess r (\<lambda>_. s) ln)"

section \<open>The responder's handshake\<close>

text \<open>From reading the length prefix to the version check.\<close>

definition hs_read :: "conn_in \<Rightarrow> (initiator_message \<times> bytes \<times> conn_in) res" where
  "hs_read ci =
     rbind (ReadFull 2 ci) (\<lambda>(lenBuf, ci1).
       let len = unat (be_get16 lenBuf) in
       if len < MinInitiatorHandshakeLen then err (ErrText ''handshake message too short'')
       else if len > MaxHandshakeLen then err (ErrText ''handshake message too long'')
       else rbind (ReadFull len ci1) (\<lambda>(buf, ci2).
         rbind (parseInitiatorHandshakeMessage buf) (\<lambda>msg.
           if im_ProtocolVersion msg \<noteq> PROTOCOL_VERSION then err ErrProtocolVersionMismatch
           else ok (msg, buf, ci2))))"

text \<open>The checks before anything changes: \<open>Some a\<close> for a resumption, \<open>None\<close> for a fresh session.\<close>

definition hs_resumable :: "crypto \<Rightarrow> initiator_message \<Rightarrow> bytes \<Rightarrow> listener \<Rightarrow> aref res" where
  "hs_resumable cr msg signedData ln =
     (if \<not> ln_AllowConnectionResumption ln then err ErrResumptionDisabled
      else
        case getSession (im_SessionID msg) ln of
          None \<Rightarrow> err ErrSessionNotFound
        | Some a \<Rightarrow>
            let s = ln_acts ln a in
            if ucast (im_Nonce msg) \<le> as_nonce s \<or> im_Nonce msg = 0 then err ErrInvalidNonce
            else if length (im_PublicKey msg) \<noteq> PublicKeySize \<or> im_PublicKey msg \<noteq> as_initiatorPublicKey s
            then err (ErrText ''invalid public key for session resumption'')
            else rbind (ed_verify cr (as_initiatorPublicKey s) signedData (im_Signature msg))
              (\<lambda>verified. if \<not> verified then err ErrInvalidSignature else ok a))"

definition hs_startable :: "crypto \<Rightarrow> initiator_message \<Rightarrow> bytes \<Rightarrow> unit res" where
  "hs_startable cr msg signedData =
     (if im_Nonce msg \<noteq> 0 then err (ErrText ''invalid nonce for new session: must be 0'')
      else if length (im_PublicKey msg) \<noteq> PublicKeySize
      then err (ErrText ''invalid public key size: expected 32-byte Ed25519 key'')
      else rbind (ed_verify cr (im_PublicKey msg) signedData (im_Signature msg))
        (\<lambda>verified. if \<not> verified then err ErrInvalidSignature else ok ()))"

definition hs_check :: "crypto \<Rightarrow> initiator_message \<Rightarrow> bytes \<Rightarrow> listener \<Rightarrow> aref option res" where
  "hs_check cr msg buf ln =
     rbind (go_slice buf 0 (68 + unat (im_publicKeyLen msg))) (\<lambda>signedData.
       if \<not> isZeroID (im_SessionID msg)
       then rbind (hs_resumable cr msg signedData ln) (\<lambda>a. ok (Some a))
       else rbind (hs_startable cr msg signedData) (\<lambda>_. ok None))"

text \<open>The loop around \<^verbatim>\<open>CompareAndSwap\<close>: its last turn, which is atomic.\<close>

definition hs_commit :: "aref \<Rightarrow> u16 \<Rightarrow> listener \<Rightarrow> go_error + listener" where
  "hs_commit a nonce ln =
     (if ucast nonce \<le> as_nonce (ln_acts ln a) then Inl ErrInvalidNonce
      else Inr (upd_act a (\<lambda>s. s\<lparr>as_nonce := ucast nonce\<rparr>) ln))"

definition resumeSession :: "aref \<Rightarrow> nat \<Rightarrow> listener \<Rightarrow> listener" where
  "resumeSession a conn ln = upd_sess (as_session (ln_acts ln a)) (alterConnection conn) ln"

text \<open>What follows the checks.  The results: the session and whether it was resumed; the reply if one
  was built; the listener.\<close>

type_synonym hs_result = "(aref \<times> bool) res \<times> bytes option \<times> listener"

definition hs_resume ::
  "crypto \<Rightarrow> (bytes \<Rightarrow> go_error option) \<Rightarrow> nat \<Rightarrow> aref \<Rightarrow> u16 \<Rightarrow> bytes \<Rightarrow> listener \<Rightarrow> hs_result" where
  "hs_resume cr wr conn a nonce buf ln =
     (case hs_commit a nonce ln of
        Inl e \<Rightarrow> (err e, None, ln)
      | Inr ln1 \<Rightarrow>
          (case buildResponderHandshake cr (ln_sessionConfig ln1) (ln_AllowConnectionResumption ln1)
                  (as_id (ln_acts ln1 a)) nonce (as_responderPrivateKey (ln_acts ln1 a)) buf of
             Panic \<Rightarrow> (Panic, None, ln1)
           | Ret (Inl e) \<Rightarrow> (err e, None, ln1)
           | Ret (Inr res) \<Rightarrow>
               (case wr res of
                  Some e \<Rightarrow> (err e, Some res, ln1)
                | None \<Rightarrow> (ok (a, True), Some res, resumeSession a conn ln1))))"

text \<open>\<open>sid\<close> and \<open>key\<close> are what \<^verbatim>\<open>genSessID\<close> and \<^verbatim>\<open>ed25519.GenerateKey\<close> yield.\<close>

definition new_active :: "bytes \<Rightarrow> sref \<Rightarrow> bytes \<Rightarrow> bytes \<Rightarrow> active_session" where
  "new_active sid r pub priv =
     \<lparr>as_id = sid, as_session = r, as_nonce = 0, as_initiatorPublicKey = pub, as_responderPrivateKey = priv\<rparr>"

definition hs_register :: "nat \<Rightarrow> bytes \<Rightarrow> bytes \<Rightarrow> bytes \<Rightarrow> listener \<Rightarrow> aref \<times> listener" where
  "hs_register conn sid priv pub ln =
     (let r = ln_nextS ln; a = ln_nextA ln; mem = ln_sess ln r;
          s = NewSessionWithID (s_objs mem) (s_uobjs mem) (s_now mem) (Some conn) (ln_sessionConfig ln) sid;
          ln1 = ln\<lparr>ln_nextS := Suc r, ln_nextA := Suc a, ln_sess := (ln_sess ln)(r := s),
            ln_acts := (ln_acts ln)(a := new_active sid r pub priv)\<rparr>
      in (a, upd_sess r (addCloseHook a) (saveSession sid a ln1)))"

definition hs_fresh ::
  "crypto \<Rightarrow> (bytes \<Rightarrow> go_error option) \<Rightarrow> nat \<Rightarrow> bytes \<Rightarrow> go_error + bytes \<Rightarrow> initiator_message \<Rightarrow> bytes \<Rightarrow>
   listener \<Rightarrow> hs_result" where
  "hs_fresh cr wr conn sid key msg buf ln =
     (case key of
        Inl e \<Rightarrow> (err e, None, ln)
      | Inr priv \<Rightarrow>
          (case buildResponderHandshake cr (ln_sessionConfig ln) (ln_AllowConnectionResumption ln) sid 0 priv buf of
             Panic \<Rightarrow> (Panic, None, ln)
           | Ret (Inl e) \<Rightarrow> (err e, None, ln)
           | Ret (Inr res) \<Rightarrow>
               (case wr res of
                  Some e \<Rightarrow> (err e, Some res, ln)
                | None \<Rightarrow>
                    (case hs_register conn sid priv (im_PublicKey msg) ln of
                       (a, ln1) \<Rightarrow> (ok (a, False), Some res, ln1)))))"

definition hs_finish ::
  "crypto \<Rightarrow> (bytes \<Rightarrow> go_error option) \<Rightarrow> nat \<Rightarrow> bytes \<Rightarrow> go_error + bytes \<Rightarrow> initiator_message \<Rightarrow> bytes \<Rightarrow>
   aref option \<Rightarrow> listener \<Rightarrow> hs_result" where
  "hs_finish cr wr conn sid key msg buf kind ln =
     (case kind of
        Some a \<Rightarrow> hs_resume cr wr conn a (im_Nonce msg) buf ln
      | None \<Rightarrow> hs_fresh cr wr conn sid key msg buf ln)"

definition handshake ::
  "crypto \<Rightarrow> (bytes \<Rightarrow> go_error option) \<Rightarrow> nat \<Rightarrow> bytes \<Rightarrow> go_error + bytes \<Rightarrow> conn_in \<Rightarrow> listener \<Rightarrow> hs_result" where
  "handshake cr wr conn sid key ci ln =
     (case hs_read ci of
        Panic \<Rightarrow> (Panic, None, ln)
      | Ret (Inl e) \<Rightarrow> (err e, None, ln)
      | Ret (Inr (msg, buf, ci1)) \<Rightarrow>
          (case hs_check cr msg buf ln of
             Panic \<Rightarrow> (Panic, None, ln)
           | Ret (Inl e) \<Rightarrow> (err e, None, ln)
           | Ret (Inr kind) \<Rightarrow> hs_finish cr wr conn sid key msg buf kind ln))"

section \<open>Accepting\<close>

text \<open>Handing an established session over: the \<^verbatim>\<open>select\<close> between \<^verbatim>\<open>die\<close> and \<^verbatim>\<open>acceptChan\<close>.  \<open>pickDie\<close> says which
  case fires when both are ready; \<open>HO_Wait\<close>: neither is.\<close>

datatype handover = HO_Done | HO_Die | HO_Wait

definition hand_over :: "bool \<Rightarrow> sref \<Rightarrow> listener \<Rightarrow> handover \<times> listener" where
  "hand_over pickDie r ln =
     (let room = (length (ln_acceptChan ln) < acceptCap) in
      if ln_die ln \<and> (pickDie \<or> \<not> room) then (HO_Die, ln)
      else if room then (HO_Done, ln\<lparr>ln_acceptChan := ln_acceptChan ln @ [r]\<rparr>)
      else (HO_Wait, ln))"

text \<open>What remains of the goroutine: nothing, waiting to hand session \<open>r\<close> over, or the session's \<^verbatim>\<open>Close\<close>.\<close>

datatype incoming = IC_Done | IC_Wait sref | IC_Closing sref close_state | IC_Panic

definition stream_offer :: "bool \<Rightarrow> sref \<Rightarrow> listener \<Rightarrow> incoming \<times> listener" where
  "stream_offer pickDie r ln =
     (case hand_over pickDie r ln of
        (HO_Done, l) \<Rightarrow> (IC_Done, l)
      | (HO_Wait, l) \<Rightarrow> (IC_Wait r, l)
      | (HO_Die, l) \<Rightarrow>
          (case session_Close (ln_sess l r) of
             (cs, s) \<Rightarrow> (if cs = CS_Done then IC_Done else IC_Closing r cs, set_session r s l)))"

definition handleIncomingStreamConn ::
  "crypto \<Rightarrow> (bytes \<Rightarrow> go_error option) \<Rightarrow> nat \<Rightarrow> bytes \<Rightarrow> go_error + bytes \<Rightarrow> conn_in \<Rightarrow> bool \<Rightarrow> listener \<Rightarrow>
   incoming \<times> listener" where
  "handleIncomingStreamConn cr wr conn sid key ci pickDie ln =
     (case handshake cr wr conn sid key ci ln of
        (Panic, _, l) \<Rightarrow> (IC_Panic, l)
      | (Ret (Inl e), _, l) \<Rightarrow> (IC_Done, l\<lparr>ln_connClosed := ln_connClosed l @ [conn]\<rparr>)
      | (Ret (Inr (a, isResumed)), _, l) \<Rightarrow>
          if isResumed \<and> ln_TransparentResumption l then (IC_Done, l)
          else stream_offer pickDie (as_session (ln_acts l a)) l)"

text \<open>The datagram side closes the peer's connection where the stream side closes the session.\<close>

definition packet_offer :: "(net_addr \<Rightarrow> bytes) \<Rightarrow> bool \<Rightarrow> pref \<Rightarrow> sref \<Rightarrow> listener \<Rightarrow> incoming \<times> listener" where
  "packet_offer str pickDie p r ln =
     (case hand_over pickDie r ln of
        (HO_Done, l) \<Rightarrow> (IC_Done, l)
      | (HO_Wait, l) \<Rightarrow> (IC_Wait r, l)
      | (HO_Die, l) \<Rightarrow> (IC_Done, sub_Close str p l))"

definition handleIncomingPacketConn ::
  "(net_addr \<Rightarrow> bytes) \<Rightarrow> crypto \<Rightarrow> (bytes \<Rightarrow> go_error option) \<Rightarrow> pref \<Rightarrow> bytes \<Rightarrow> go_error + bytes \<Rightarrow> conn_in \<Rightarrow>
   bool \<Rightarrow> listener \<Rightarrow> incoming \<times> listener" where
  "handleIncomingPacketConn str cr wr p sid key ci pickDie ln =
     (case handshake cr wr p sid key ci ln of
        (Panic, _, l) \<Rightarrow> (IC_Panic, l)
      | (Ret (Inl e), _, l) \<Rightarrow> (IC_Done, sub_Close str p l)
      | (Ret (Inr (a, isResumed)), _, l) \<Rightarrow>
          if isResumed \<and> ln_TransparentResumption l then (IC_Done, l)
          else packet_offer str pickDie p (as_session (ln_acts l a)) l)"

text \<open>\<^verbatim>\<open>Accept\<close>: the case of its \<^verbatim>\<open>select\<close> that fires; \<open>None\<close>: that case is not ready.\<close>

datatype accept_case = AC_Die | AC_Session | AC_Done

definition Accept :: "accept_case \<Rightarrow> listener \<Rightarrow> ((go_error + sref) \<times> listener) option" where
  "Accept c ln0 =
     (let ln = (if \<not> pt_pconn ln0 then ln0\<lparr>ln_acceptOnce := True\<rparr> else ln0) in
      case c of
        AC_Die \<Rightarrow> if ln_die ln then Some (Inl ErrListenerClosed, ln) else None
      | AC_Session \<Rightarrow>
          (case ln_acceptChan ln of
             [] \<Rightarrow> None
           | r # rs \<Rightarrow> Some (Inr r, ln\<lparr>ln_acceptChan := rs\<rparr>))
      | AC_Done \<Rightarrow>
          if ln_acceptDone ln
          then Some (Inl (case ln_acceptErr ln of Some e \<Rightarrow> e | None \<Rightarrow> ErrListenerClosed), ln)
          else None)"

text \<open>One turn of \<^verbatim>\<open>streamAcceptLoop\<close>, given what \<^verbatim>\<open>ln.ln.Accept\<close> returns (an error with whether it is a
  timeout, or a transport); \<open>Some\<close> of the next back-off, \<open>None\<close> when the loop ends.\<close>

definition acceptBackoff :: "time \<Rightarrow> time" where
  "acceptBackoff b = (if b = 0 then 5 * millisecond else if b < second then b * 2 else b)"

definition streamAcceptLoop_turn ::
  "go_error \<times> bool + nat \<Rightarrow> time \<Rightarrow> listener \<Rightarrow> time option \<times> listener" where
  "streamAcceptLoop_turn ev backoff ln =
     (case ev of
        Inl (e, isTimeout) \<Rightarrow>
          if isTimeout \<and> \<not> pt_closed ln then (Some (acceptBackoff backoff), ln)
          else (None, ln\<lparr>ln_acceptErr := Some e, ln_acceptDone := True\<rparr>)
      | Inr conn \<Rightarrow> (Some 0, ln\<lparr>ln_goConn := ln_goConn ln @ [conn]\<rparr>))"

section \<open>Close\<close>

text \<open>\<^verbatim>\<open>Close\<close> collects the sessions, closes them one after the other, then the peers' connections.  It waits
  inside a session's \<^verbatim>\<open>Close\<close>; the result says where it stands.\<close>

datatype ln_close = LC_Session sref close_state "sref list" | LC_Done

definition ln_close_peers :: "(net_addr \<Rightarrow> bytes) \<Rightarrow> listener \<Rightarrow> listener" where
  "ln_close_peers str ln =
     (let subs = map snd (pt_conns ln)
      in fold (\<lambda>p l. sub_Close str p l) subs (ln\<lparr>pt_conns := []\<rparr>))"

fun ln_close_sessions :: "(net_addr \<Rightarrow> bytes) \<Rightarrow> sref list \<Rightarrow> listener \<Rightarrow> ln_close \<times> listener" where
  "ln_close_sessions str [] ln = (LC_Done, ln_close_peers str ln)"
| "ln_close_sessions str (r # rs) ln =
     (case session_Close (ln_sess ln r) of
        (cs, s) \<Rightarrow>
          if cs = CS_Done then ln_close_sessions str rs (set_session r s ln)
          else (LC_Session r cs rs, set_session r s ln))"

definition ln_Close :: "(net_addr \<Rightarrow> bytes) \<Rightarrow> listener \<Rightarrow> ln_close \<times> listener" where
  "ln_Close str ln =
     (if pt_closed ln then (LC_Done, ln)
      else
        let toClose = map (\<lambda>e. as_session (ln_acts ln (snd e))) (ln_sessions ln)
        in ln_close_sessions str toClose (ln\<lparr>pt_closed := True, ln_die := True, ln_sessions := []\<rparr>))"

text \<open>\<open>goOn\<close>: the session's writer has exited or its time is over.\<close>

definition ln_Close_resume ::
  "(net_addr \<Rightarrow> bytes) \<Rightarrow> closer \<Rightarrow> bool \<Rightarrow> ln_close \<Rightarrow> listener \<Rightarrow> ln_close \<times> listener" where
  "ln_Close_resume str cw goOn st ln =
     (case st of
        LC_Done \<Rightarrow> (LC_Done, ln)
      | LC_Session r cs rs \<Rightarrow>
          (case Close_resume cw goOn cs (ln_sess ln r) of
             (cs1, s) \<Rightarrow>
               if cs1 = CS_Done then ln_close_sessions str rs (set_session r s ln)
               else (LC_Session r cs1 rs, set_session r s ln)))"

section \<open>Well-formedness\<close>

text \<open>What the table promises: its entries lead to existing objects filed under their own ID, with a
  session ID and keys of the documented sizes.\<close>

definition act_ok :: "active_session \<Rightarrow> bool" where
  "act_ok s \<longleftrightarrow> length (as_id s) = 32 \<and> length (as_initiatorPublicKey s) = PublicKeySize \<and>
     length (as_responderPrivateKey s) = PrivateKeySize"

definition ln_ok :: "listener \<Rightarrow> bool" where
  "ln_ok ln \<longleftrightarrow>
     (\<forall>sid a. map_of (ln_sessions ln) sid = Some a \<longrightarrow> a < ln_nextA ln \<and> as_id (ln_acts ln a) = sid) \<and>
     (\<forall>a < ln_nextA ln. act_ok (ln_acts ln a) \<and> as_session (ln_acts ln a) < ln_nextS ln)"

lemma ln_okD:
  assumes "ln_ok ln"
  shows "map_of (ln_sessions ln) sid = Some a \<Longrightarrow> a < ln_nextA ln \<and> as_id (ln_acts ln a) = sid"
    "a < ln_nextA ln \<Longrightarrow> act_ok (ln_acts ln a)" "a < ln_nextA ln \<Longrightarrow> as_session (ln_acts ln a) < ln_nextS ln"
  using assms unfolding ln_ok_def by blast+

text \<open>Steps that do not add objects keep it if the table only loses entries and objects keep their
  fixed fields.\<close>

definition same_act :: "active_session \<Rightarrow> active_session \<Rightarrow> bool" where
  "same_act s s' \<longleftrightarrow> as_id s' = as_id s \<and> as_session s' = as_session s \<and>
     as_initiatorPublicKey s' = as_initiatorPublicKey s \<and> as_responderPrivateKey s' = as_responderPrivateKey s"

lemma ln_ok_keeps:
  assumes "ln_ok ln" "ln_nextA ln' = ln_nextA ln" "ln_nextS ln' = ln_nextS ln"
    "\<And>a. same_act (ln_acts ln a) (ln_acts ln' a)"
    "\<And>sid a. map_of (ln_sessions ln') sid = Some a \<Longrightarrow> map_of (ln_sessions ln) sid = Some a"
  shows "ln_ok ln'"
  unfolding ln_ok_def
proof (intro conjI allI impI)
  fix sid a
  assume "map_of (ln_sessions ln') sid = Some a"
  from ln_okD(1) [OF assms(1) assms(5) [OF this]]
  show "a < ln_nextA ln'" "as_id (ln_acts ln' a) = sid" using assms(2,4) by (simp_all add: same_act_def)
next
  fix a
  assume "a < ln_nextA ln'"
  then have "a < ln_nextA ln" by (simp add: assms(2))
  from ln_okD(2,3) [OF assms(1) this]
  show "act_ok (ln_acts ln' a)" "as_session (ln_acts ln' a) < ln_nextS ln'"
    using assms(3,4) by (simp_all add: same_act_def act_ok_def)
qed

lemma ln_fields [simp]:
  "ln_acts (upd_sess r f ln) = ln_acts ln" "ln_sessions (upd_sess r f ln) = ln_sessions ln"
  "ln_nextA (upd_sess r f ln) = ln_nextA ln" "ln_nextS (upd_sess r f ln) = ln_nextS ln"
  "ln_sessions (upd_act a g ln) = ln_sessions ln" "ln_nextA (upd_act a g ln) = ln_nextA ln"
  "ln_nextS (upd_act a g ln) = ln_nextS ln" "ln_sess (upd_act a g ln) = ln_sess ln"
  "ln_acts (upd_act a g ln) b = (if b = a then g (ln_acts ln a) else ln_acts ln b)"
  "ln_sess (upd_sess r f ln) q = (if q = r then f (ln_sess ln r) else ln_sess ln q)"
  "ln_acts (resumeSession a k ln) = ln_acts ln" "ln_sessions (resumeSession a k ln) = ln_sessions ln"
  "ln_nextA (resumeSession a k ln) = ln_nextA ln" "ln_nextS (resumeSession a k ln) = ln_nextS ln"
  by (simp_all add: upd_sess_def upd_act_def resumeSession_def)

text \<open>The responder's steps.\<close>

lemma Listen_ok: "ln_ok (Listen mem cfg)"
  by (simp add: Listen_def ln_ok_def Let_def)

lemma hs_commit_acts:
  assumes "hs_commit a nonce ln = Inr ln1"
  shows "as_nonce (ln_acts ln a) < ucast nonce" "as_nonce (ln_acts ln1 a) = ucast nonce"
    "same_act (ln_acts ln b) (ln_acts ln1 b)" "b \<noteq> a \<Longrightarrow> ln_acts ln1 b = ln_acts ln b"
    "ln_nextA ln1 = ln_nextA ln" "ln_nextS ln1 = ln_nextS ln" "ln_sessions ln1 = ln_sessions ln"
    "ln_sess ln1 = ln_sess ln"
  using assms by (auto simp: hs_commit_def same_act_def split: if_splits)

lemma hs_register_acts:
  assumes "hs_register conn sid priv pub ln = (a, ln1)"
  shows "a = ln_nextA ln" "ln_nextA ln1 = Suc a" "ln_nextS ln1 = Suc (ln_nextS ln)"
    "ln_acts ln1 = (ln_acts ln)(a := new_active sid (ln_nextS ln) pub priv)"
    "map_of (ln_sessions ln1) = (map_of (ln_sessions ln))(sid \<mapsto> a)"
  using assms by (auto simp: hs_register_def saveSession_def upd_sess_def Let_def update_conv')

lemma hs_register_ok:
  assumes "ln_ok ln" "hs_register conn sid priv pub ln = (a, ln1)"
    "length sid = 32" "length pub = PublicKeySize" "length priv = PrivateKeySize"
  shows "ln_ok ln1"
  using assms(1,3-5) ln_okD [OF assms(1)] less_SucI
  unfolding ln_ok_def hs_register_acts [OF assms(2)]
  by (auto simp: new_active_def act_ok_def less_Suc_eq)

lemma hs_read_ok:
  assumes "hs_read ci = ok (msg, buf, rest)"
  shows "parseInitiatorHandshakeMessage buf = ok msg"
  using assms by (auto simp: hs_read_def rbind_ok_iff Let_def split: if_splits)

lemma hs_read_no_panic: "hs_read ci \<noteq> Panic"
  by (auto simp: hs_read_def Let_def rbind_Panic_iff parseInitiator_no_panic split: if_splits)

lemma hs_resumable_ok:
  assumes "hs_resumable cr msg sd ln = ok a"
  shows "map_of (ln_sessions ln) (im_SessionID msg) = Some a"
    "\<not> s_closed (ln_sess ln (as_session (ln_acts ln a)))"
    "as_nonce (ln_acts ln a) < ucast (im_Nonce msg)" "im_Nonce msg \<noteq> 0"
    "im_PublicKey msg = as_initiatorPublicKey (ln_acts ln a)"
    "cr_verify cr (as_initiatorPublicKey (ln_acts ln a)) sd (im_Signature msg)"
  using assms
  by (auto simp: hs_resumable_def getSession_def Let_def rbind_ok_iff ed_verify_def not_le
      split: if_splits option.splits)

lemma hs_resumable_no_panic: "hs_resumable cr msg sd ln \<noteq> Panic"
  by (auto simp: hs_resumable_def Let_def ed_verify_def rbind_Panic_iff split: option.split)

lemma hs_startable_no_panic: "hs_startable cr msg sd \<noteq> Panic"
  by (auto simp: hs_startable_def ed_verify_def rbind_Panic_iff)

lemma hs_check_resume:
  assumes "parseInitiatorHandshakeMessage buf = ok msg" "hs_check cr msg buf ln = ok (Some a)"
  shows "hs_resumable cr msg (take (68 + unat (im_publicKeyLen msg)) buf) ln = ok a"
proof -
  have "68 + unat (im_publicKeyLen msg) \<le> length buf" using parseInitiator_ok(2) [OF assms(1)] by simp
  then show ?thesis
    using assms(2) by (auto simp: hs_check_def rbind_ok_iff slice_def split: if_splits)
qed

lemma hs_check_fresh:
  assumes "parseInitiatorHandshakeMessage buf = ok msg" "hs_check cr msg buf ln = ok None"
  shows "length (im_PublicKey msg) = PublicKeySize"
  using assms(2) by (auto simp: hs_check_def hs_startable_def rbind_ok_iff split: if_splits)

lemma hs_check_no_panic:
  assumes "parseInitiatorHandshakeMessage buf = ok msg"
  shows "hs_check cr msg buf ln \<noteq> Panic"
proof -
  have "68 + unat (im_publicKeyLen msg) \<le> length buf" using parseInitiator_ok(2) [OF assms] by simp
  then show ?thesis
    by (simp add: hs_check_def rbind_Panic_iff hs_resumable_no_panic hs_startable_no_panic)
qed

lemma build_no_panic:
  "length priv = PrivateKeySize \<Longrightarrow> \<exists>res. buildResponderHandshake cr oc allow sid nonce priv buf = ok res"
  by (simp add: buildResponderHandshake_def ed_sign_def Let_def)

lemma hs_resume_safe:
  assumes "ln_ok ln" "a < ln_nextA ln" "hs_resume cr wr conn a nonce buf ln = (r, rep, ln')"
  shows "r \<noteq> Panic \<and> ln_ok ln'"
proof (cases "hs_commit a nonce ln")
  case (Inl e)
  then show ?thesis using assms by (auto simp: hs_resume_def)
next
  case (Inr ln1)
  note c = hs_commit_acts [OF Inr]
  have ok1: "ln_ok ln1" by (rule ln_ok_keeps [OF assms(1) c(5,6) c(3)]) (simp add: c(7))
  have "act_ok (ln_acts ln1 a)" using ln_okD(2) [OF ok1] assms(2) c(5) by simp
  then obtain res where res: "buildResponderHandshake cr (ln_sessionConfig ln1) (ln_AllowConnectionResumption ln1)
      (as_id (ln_acts ln1 a)) nonce (as_responderPrivateKey (ln_acts ln1 a)) buf = ok res"
    using build_no_panic unfolding act_ok_def by blast
  have "ln_ok (resumeSession a conn ln1)" by (rule ln_ok_keeps [OF ok1]) (simp_all add: same_act_def)
  then show ?thesis using assms(3) ok1 by (auto simp: hs_resume_def Inr res split: option.splits)
qed

lemma hs_fresh_safe:
  assumes "ln_ok ln" "length sid = 32" "\<And>k. key = Inr k \<Longrightarrow> length k = PrivateKeySize"
    "length (im_PublicKey msg) = PublicKeySize" "hs_fresh cr wr conn sid key msg buf ln = (r, rep, ln')"
  shows "r \<noteq> Panic \<and> ln_ok ln'"
proof (cases key)
  case (Inl e)
  then show ?thesis using assms by (auto simp: hs_fresh_def)
next
  case (Inr priv)
  note priv = assms(3) [OF Inr]
  obtain res where res: "buildResponderHandshake cr (ln_sessionConfig ln) (ln_AllowConnectionResumption ln) sid 0 priv buf = ok res"
    using build_no_panic [OF priv] by blast
  obtain a ln1 where reg: "hs_register conn sid priv (im_PublicKey msg) ln = (a, ln1)" by force
  have "ln_ok ln1" by (rule hs_register_ok [OF assms(1) reg assms(2,4) priv])
  then show ?thesis using assms(1,5) by (auto simp: hs_fresh_def Inr res reg split: option.splits)
qed

text \<open>C20: The responder's handshake is safe on any input.  Whatever bytes a peer sends, however many of
  them, and whatever the write of the reply returns, no index, slice or key size makes
  \<^verbatim>\<open>handshake\<close> panic, and the table of sessions stays well-formed: every entry leads to an existing
  object filed under its own ID, with keys of the sizes Ed25519 needs.\<close>

theorem handshake_safe:
  assumes "ln_ok ln" "length sid = 32" "\<And>k. key = Inr k \<Longrightarrow> length k = PrivateKeySize"
    and "handshake cr wr conn sid key ci ln = (r, rep, ln')"
  shows "r \<noteq> Panic \<and> ln_ok ln'"
proof (cases "hs_read ci")
  case (Ret x)
  show ?thesis
  proof (cases x)
    case (Inr y)
    obtain msg buf rest where y: "y = (msg, buf, rest)" by (cases y)
    note p = hs_read_ok [OF Ret [unfolded Inr y]]
    show ?thesis
    proof (cases "hs_check cr msg buf ln")
      case (Ret z)
      show ?thesis
      proof (cases z)
        case (Inr kind)
        note chk = Ret [unfolded Inr]
        have h: "hs_finish cr wr conn sid key msg buf kind ln = (r, rep, ln')"
          using assms(4) by (simp add: handshake_def \<open>hs_read ci = Ret x\<close> \<open>x = Inr y\<close> y chk)
        show ?thesis
        proof (cases kind)
          case (Some a)
          have "a < ln_nextA ln"
            using ln_okD(1) [OF assms(1) hs_resumable_ok(1) [OF hs_check_resume [OF p chk [unfolded Some]]]] by simp
          then show ?thesis using hs_resume_safe [OF assms(1)] h by (simp add: hs_finish_def Some)
        next
          case None
          show ?thesis
            using hs_fresh_safe [OF assms(1-3) hs_check_fresh [OF p chk [unfolded None]]] h
            by (simp add: hs_finish_def None)
        qed
      qed (use assms Ret \<open>hs_read ci = Ret x\<close> \<open>x = Inr y\<close> y in \<open>auto simp: handshake_def\<close>)
    qed (use hs_check_no_panic [OF p] in simp)
  qed (use assms Ret in \<open>auto simp: handshake_def\<close>)
qed (simp add: hs_read_no_panic)

text \<open>A listener for examples.\<close>

definition sample_memory :: listener where
  "sample_memory = peer_side.extend sample_start
     \<lparr>ln_sessionConfig = None, ln_handshakeTimeout = 0, ln_AllowConnectionResumption = False,
      ln_ConnectionResumeTimeout = 0, ln_TransparentResumption = False, ln_sessions = [],
      ln_acts = (\<lambda>_. new_active [] 0 [] []), ln_nextA = 0, ln_sess = (\<lambda>_. sample_session), ln_nextS = 0,
      ln_acceptChan = [], ln_acceptOnce = False, ln_acceptErr = None, ln_acceptDone = False, ln_die = False,
      ln_goConn = [], ln_connClosed = []\<rparr>"

theorem handshake_safe_witness:
  "fst (handshake sample_crypto (\<lambda>_. None) 3 (replicate 32 9) (Inr (replicate 64 1))
     ([0, 165, 1, 2, 3], ErrEOF) (Listen sample_memory None)) \<noteq> Panic"
  using handshake_safe [OF Listen_ok, of "replicate 32 9" "Inr (replicate 64 1)" sample_crypto "\<lambda>_. None" 3
      "([0, 165, 1, 2, 3], ErrEOF)" sample_memory None]
  by (metis Inr_inject PrivateKeySize_def length_replicate prod.collapse)

section \<open>Resumption\<close>

text \<open>Any number of handshakes in progress at once: each reads its request and passes the checks against
  the table of that moment, and later takes its turn at \<^verbatim>\<open>CompareAndSwap\<close>.  \<open>fl\<close> are the requests in
  between, \<open>acc\<close> the resumptions accepted, oldest first.  New sessions are registered meanwhile, and
  anything else may happen that leaves the registered objects alone.\<close>

type_synonym request = "aref \<times> initiator_message \<times> bytes"

inductive hs_world :: "crypto \<Rightarrow> listener \<Rightarrow> request list \<Rightarrow> request list \<Rightarrow> bool" for cr where
  start: "hs_world cr (Listen mem cfg) [] []"
| check: "hs_world cr ln fl acc \<Longrightarrow> hs_read ci = ok (msg, buf, rest) \<Longrightarrow> hs_check cr msg buf ln = ok (Some a) \<Longrightarrow>
    hs_world cr ln ((a, msg, buf) # fl) acc"
| commit: "hs_world cr ln fl acc \<Longrightarrow> (a, msg, buf) \<in> set fl \<Longrightarrow> hs_commit a (im_Nonce msg) ln = Inr ln1 \<Longrightarrow>
    hs_world cr ln1 (remove1 (a, msg, buf) fl) (acc @ [(a, msg, buf)])"
| refused: "hs_world cr ln fl acc \<Longrightarrow> hs_world cr ln (remove1 q fl) acc"
| register: "hs_world cr ln fl acc \<Longrightarrow> hs_register conn sid priv pub ln = (a, ln1) \<Longrightarrow> hs_world cr ln1 fl acc"
| other: "hs_world cr ln fl acc \<Longrightarrow> ln_acts ln1 = ln_acts ln \<Longrightarrow> ln_nextA ln1 = ln_nextA ln \<Longrightarrow>
    (\<And>sid b. map_of (ln_sessions ln1) sid = Some b \<Longrightarrow> map_of (ln_sessions ln) sid = Some b) \<Longrightarrow>
    hs_world cr ln1 fl acc"

abbreviation nonces_of :: "aref \<Rightarrow> request list \<Rightarrow> u16 list" where
  "nonces_of a acc \<equiv> map (\<lambda>(b, msg, buf). im_Nonce msg) (filter (\<lambda>q. fst q = a) acc)"

definition genuine :: "crypto \<Rightarrow> listener \<Rightarrow> request \<Rightarrow> bool" where
  "genuine cr ln q =
     (case q of
        (a, msg, buf) \<Rightarrow>
          a < ln_nextA ln \<and> parseInitiatorHandshakeMessage buf = ok msg \<and>
          im_SessionID msg = as_id (ln_acts ln a) \<and>
          cr_verify cr (as_initiatorPublicKey (ln_acts ln a)) (take (68 + unat (im_publicKeyLen msg)) buf) (im_Signature msg))"

definition hs_inv :: "crypto \<Rightarrow> listener \<Rightarrow> request list \<Rightarrow> request list \<Rightarrow> bool" where
  "hs_inv cr ln fl acc \<longleftrightarrow>
     (\<forall>sid a. map_of (ln_sessions ln) sid = Some a \<longrightarrow> a < ln_nextA ln \<and> as_id (ln_acts ln a) = sid) \<and>
     (\<forall>q \<in> set fl \<union> set acc. genuine cr ln q) \<and>
     (\<forall>a. sorted_wrt (<) (nonces_of a acc) \<and> (\<forall>n \<in> set (nonces_of a acc). n \<noteq> 0 \<and> ucast n \<le> as_nonce (ln_acts ln a)))"

lemma hs_invD:
  assumes "hs_inv cr ln fl acc"
  shows "map_of (ln_sessions ln) sid = Some a \<Longrightarrow> a < ln_nextA ln \<and> as_id (ln_acts ln a) = sid"
    "q \<in> set fl \<union> set acc \<Longrightarrow> genuine cr ln q" "sorted_wrt (<) (nonces_of a acc)"
    "n \<in> set (nonces_of a acc) \<Longrightarrow> n \<noteq> 0 \<and> ucast n \<le> as_nonce (ln_acts ln a)"
  using assms unfolding hs_inv_def by blast+

lemma genuine_same:
  "genuine cr ln q \<Longrightarrow> ln_nextA ln \<le> ln_nextA ln1 \<Longrightarrow>
   (\<And>a. a < ln_nextA ln \<Longrightarrow> same_act (ln_acts ln a) (ln_acts ln1 a)) \<Longrightarrow> genuine cr ln1 q"
  by (auto simp: genuine_def same_act_def)

lemma unat_ucast_u16: "unat (ucast (m :: u16) :: u32) = unat m"
proof -
  have "unat m < 2 ^ 32" by (rule less_trans [OF unat_u16]) simp
  then show ?thesis by (simp add: unsigned_ucast_eq take_bit_nat_eq_self)
qed

lemma ucast_u16_less: "ucast (m :: u16) < (ucast n :: u32) \<longleftrightarrow> m < n"
  by (simp add: word_less_nat_alt unat_ucast_u16)

lemma hs_world_inv: "hs_world cr ln fl acc \<Longrightarrow> hs_inv cr ln fl acc"
proof (induction rule: hs_world.induct)
  case (start mem cfg)
  show ?case by (simp add: hs_inv_def Listen_def Let_def)
next
  case (check ln fl acc ci msg buf rest a)
  note p = hs_read_ok [OF check.hyps(2)]
  note r = hs_resumable_ok [OF hs_check_resume [OF p check.hyps(3)]]
  have "genuine cr ln (a, msg, buf)"
    using hs_invD(1) [OF check.IH r(1)] r(6) p by (simp add: genuine_def)
  with check.IH show ?case by (simp add: hs_inv_def)
next
  case (commit ln fl acc a msg buf ln1)
  note c = hs_commit_acts [OF commit.hyps(3)]
  have gen: "genuine cr ln1 q" if "q \<in> set fl \<union> set acc" for q
    by (rule genuine_same [OF hs_invD(2) [OF commit.IH that]]) (simp_all add: c(3,5))
  show ?case
    unfolding hs_inv_def
  proof (intro conjI allI impI ballI)
    fix sid b
    assume "map_of (ln_sessions ln1) sid = Some b"
    then have "map_of (ln_sessions ln) sid = Some b" by (simp only: c(7))
    from hs_invD(1) [OF commit.IH this]
    show "b < ln_nextA ln1" "as_id (ln_acts ln1 b) = sid" using c(3) [of b] by (simp_all add: c(5) same_act_def)
  next
    fix q
    assume "q \<in> set (remove1 (a, msg, buf) fl) \<union> set (acc @ [(a, msg, buf)])"
    then have "q \<in> set fl \<union> set acc" using commit.hyps(2) set_remove1_subset [of "(a, msg, buf)" fl] by auto
    then show "genuine cr ln1 q" by (rule gen)
  next
    fix b
    note old = hs_invD(3,4) [OF commit.IH, where a = b]
    show "sorted_wrt (<) (nonces_of b (acc @ [(a, msg, buf)]))"
    proof (cases "b = a")
      case True
      have "n < im_Nonce msg" if "n \<in> set (nonces_of a acc)" for n
        using old(2) [of n] that c(1) True ucast_u16_less le_less_trans by blast
      with True old(1) show ?thesis by (simp add: sorted_wrt_append)
    qed (use old(1) in simp)
    fix n
    assume n: "n \<in> set (nonces_of b (acc @ [(a, msg, buf)]))"
    have "n \<noteq> 0 \<and> ucast n \<le> as_nonce (ln_acts ln1 b)"
    proof (cases "b = a")
      case True
      have "nonces_of a (acc @ [(a, msg, buf)]) = nonces_of a acc @ [im_Nonce msg]" by simp
      with n True have "n = im_Nonce msg \<or> n \<in> set (nonces_of a acc)" by simp
      then consider "n \<in> set (nonces_of a acc)" | "n = im_Nonce msg" by blast
      then show ?thesis
      proof cases
        case 1
        then have "n \<noteq> 0" "ucast n \<le> as_nonce (ln_acts ln a)" using old(2) [of n] True by simp_all
        then show ?thesis unfolding True c(2) using le_less_trans [OF _ c(1)] less_imp_le by blast
      next
        case 2
        then show ?thesis using c(1,2) True by auto
      qed
    qed (use n old(2) [of n] c(4) in simp)
    then show "n \<noteq> 0" "ucast n \<le> as_nonce (ln_acts ln1 b)" by blast+
  qed
next
  case (refused ln fl acc q)
  then show ?case
    using set_remove1_subset [of q fl] unfolding hs_inv_def by blast
next
  case (register ln fl acc conn sid priv pub a ln1)
  note r = hs_register_acts [OF register.hyps(2)]
  have old: "b < ln_nextA ln \<Longrightarrow> ln_acts ln1 b = ln_acts ln b" for b by (simp add: r(1,4))
  have gen: "genuine cr ln1 q" if "q \<in> set fl \<union> set acc" for q
    by (rule genuine_same [OF hs_invD(2) [OF register.IH that]]) (simp_all add: r(1,2) old same_act_def)
  have new: "nonces_of a acc = []"
    using hs_invD(2) [OF register.IH] by (fastforce simp: genuine_def r(1) filter_empty_conv)
  show ?case
    unfolding hs_inv_def
  proof (intro conjI allI impI)
    fix sid' b
    assume "map_of (ln_sessions ln1) sid' = Some b"
    then show "b < ln_nextA ln1" "as_id (ln_acts ln1 b) = sid'"
      using hs_invD(1) [OF register.IH, of sid' b] old [of b]
      by (auto simp: r new_active_def less_SucI split: if_splits)
  next
    fix b
    show "sorted_wrt (<) (nonces_of b acc)" by (rule hs_invD(3) [OF register.IH])
    show "\<forall>n \<in> set (nonces_of b acc). n \<noteq> 0 \<and> ucast n \<le> as_nonce (ln_acts ln1 b)"
      using hs_invD(4) [OF register.IH, where a = b] new by (cases "b = a") (simp_all add: r(4))
  qed (use gen in blast)
next
  case (other ln fl acc ln1)
  have "genuine cr ln1 q" if "q \<in> set fl \<union> set acc" for q
    by (rule genuine_same [OF hs_invD(2) [OF other.IH that]]) (simp_all add: other.hyps same_act_def)
  then show ?case
    using other.hyps(4) other.IH unfolding hs_inv_def other.hyps(2,3) by blast
qed

section \<open>Honest requests\<close>

text \<open>The request of an honest initiator, as the listener reads it.\<close>

definition request_fields :: "crypto \<Rightarrow> bytes \<Rightarrow> u16 \<Rightarrow> bytes \<Rightarrow> bytes \<Rightarrow> bytes" where
  "request_fields cr sid nonce rnd priv = initiator_fields sid nonce rnd (cr_public cr priv)"

definition request_body :: "crypto \<Rightarrow> bytes \<Rightarrow> u16 \<Rightarrow> bytes \<Rightarrow> bytes \<Rightarrow> bytes" where
  "request_body cr sid nonce rnd priv =
     request_fields cr sid nonce rnd priv @ 64 # cr_sign cr priv (request_fields cr sid nonce rnd priv)"

definition request_message :: "crypto \<Rightarrow> bytes \<Rightarrow> u16 \<Rightarrow> bytes \<Rightarrow> bytes \<Rightarrow> initiator_message" where
  "request_message cr sid nonce rnd priv =
     \<lparr>im_ProtocolVersion = PROTOCOL_VERSION, im_SessionID = sid, im_Nonce = nonce, im_Random = rnd,
      im_publicKeyLen = 32, im_PublicKey = cr_public cr priv, im_signatureLen = 64,
      im_Signature = cr_sign cr priv (request_fields cr sid nonce rnd priv)\<rparr>"

lemma request_message_simps [simp]:
  "im_SessionID (request_message cr sid nonce rnd priv) = sid" "im_Nonce (request_message cr sid nonce rnd priv) = nonce"
  "im_PublicKey (request_message cr sid nonce rnd priv) = cr_public cr priv"
  "im_publicKeyLen (request_message cr sid nonce rnd priv) = 32"
  "im_Signature (request_message cr sid nonce rnd priv) = cr_sign cr priv (request_fields cr sid nonce rnd priv)"
  by (simp_all add: request_message_def)

lemma request_built:
  assumes "ed25519_sizes cr" "length priv = 64" "length sid = 32" "length rnd = 32"
  shows "BuildInitiatorHandshake cr (Inr rnd) sid nonce priv = ok (be_put16 165 @ request_body cr sid nonce rnd priv)"
    "length (request_body cr sid nonce rnd priv) = 165"
    "hs_read (be_put16 165 @ request_body cr sid nonce rnd priv @ rest, e) =
      ok (request_message cr sid nonce rnd priv, request_body cr sid nonce rnd priv, (rest, e))"
    "go_slice (request_body cr sid nonce rnd priv) 0 100 = ok (request_fields cr sid nonce rnd priv)"
proof -
  note b = initiator_built [OF assms, where nonce = nonce, folded request_fields_def, folded request_body_def,
      folded request_message_def]
  show "BuildInitiatorHandshake cr (Inr rnd) sid nonce priv = ok (be_put16 165 @ request_body cr sid nonce rnd priv)"
    "length (request_body cr sid nonce rnd priv) = 165" by (rule b)+
  show "go_slice (request_body cr sid nonce rnd priv) 0 100 = ok (request_fields cr sid nonce rnd priv)"
    using b(2,3) by (simp add: go_slice_def slice_def)
  have "ReadFull 165 (request_body cr sid nonce rnd priv @ rest, e) = ok (request_body cr sid nonce rnd priv, (rest, e))"
    by (rule ReadFull_exact [OF b(2)])
  then show "hs_read (be_put16 165 @ request_body cr sid nonce rnd priv @ rest, e) =
      ok (request_message cr sid nonce rnd priv, request_body cr sid nonce rnd priv, (rest, e))"
    using b(4) by (simp add: hs_read_def size_defs) (simp add: request_message_def)
qed

text \<open>Such a request passes the checks: a fresh one always, a resumption when the session is there, the
  nonce is new and the key is the one the session was opened with.\<close>

lemma check_fresh_request:
  assumes "ed25519_sizes cr" "ed25519_complete cr" "length priv = 64" "length rnd = 32"
  shows "hs_check cr (request_message cr (replicate 32 0) 0 rnd priv) (request_body cr (replicate 32 0) 0 rnd priv) ln =
    ok None"
proof -
  have "go_slice (request_body cr (replicate 32 0) 0 rnd priv) 0 100 = ok (request_fields cr (replicate 32 0) 0 rnd priv)"
    by (rule request_built(4)) (use assms in simp_all)
  moreover have "isZeroID (replicate 32 0)" by (simp add: isZeroID_def list_all_iff)
  ultimately show ?thesis
    using assms(2) crypto_sizes(1) [OF assms(1)]
    by (simp add: hs_check_def hs_startable_def ed_verify_def ed25519_complete_def size_defs)
qed

lemma check_resume_request:
  assumes "ed25519_sizes cr" "ed25519_complete cr" "length priv = 64" "length sid = 32" "length rnd = 32"
    "\<not> isZeroID sid" "ln_AllowConnectionResumption ln" "getSession sid ln = Some a"
    "as_nonce (ln_acts ln a) < ucast nonce" "as_initiatorPublicKey (ln_acts ln a) = cr_public cr priv"
  shows "hs_check cr (request_message cr sid nonce rnd priv) (request_body cr sid nonce rnd priv) ln = ok (Some a)"
proof -
  have "go_slice (request_body cr sid nonce rnd priv) 0 100 = ok (request_fields cr sid nonce rnd priv)"
    by (rule request_built(4)) (use assms in simp_all)
  moreover have "nonce \<noteq> 0" using assms(9) by auto
  ultimately show ?thesis
    using assms(2,6-10) crypto_sizes(1) [OF assms(1)]
    by (simp add: hs_check_def hs_resumable_def ed_verify_def ed25519_complete_def size_defs Let_def not_le)
qed

text \<open>C6: No resumption request is accepted twice.  However many handshakes run at once and however their
  checks and their turns at \<^verbatim>\<open>CompareAndSwap\<close> interleave, the nonces accepted for one session are
  non-zero and strictly increasing, so a recorded request, or two requests racing with the same
  nonce, can win at most once.  Every request that was accepted named that session's ID and carried
  a signature that verifies under the public key the session was opened with, which never
  changes.\<close>

theorem resumption_no_replay:
  assumes "hs_world cr ln fl acc"
  shows "sorted_wrt (<) (nonces_of a acc) \<and> distinct (nonces_of a acc) \<and> 0 \<notin> set (nonces_of a acc) \<and>
    (\<forall>q \<in> set acc. genuine cr ln q)"
proof -
  note D = hs_invD [OF hs_world_inv [OF assms]]
  have "distinct (nonces_of a acc)" using D(3) [of a] by (simp add: strict_sorted_iff)
  moreover have "0 \<notin> set (nonces_of a acc)" using D(4) [of 0 a] by blast
  ultimately show ?thesis using D(2,3) by (intro conjI ballI) blast+
qed

definition sample_sid :: bytes where "sample_sid = replicate 32 9"
definition sample_key :: bytes where "sample_key = replicate 64 1"

definition sample_listener :: listener where
  "sample_listener = snd (hs_register 3 sample_sid (replicate 64 2) (cr_public sample_crypto sample_key)
     (Listen sample_memory None))"

abbreviation sample_resume :: initiator_message where
  "sample_resume \<equiv> request_message sample_crypto sample_sid 1 (replicate 32 5) sample_key"

abbreviation sample_resume_body :: bytes where
  "sample_resume_body \<equiv> request_body sample_crypto sample_sid 1 (replicate 32 5) sample_key"

lemma sample_sizes: "length sample_sid = 32" "length sample_key = 64" "\<not> isZeroID sample_sid"
  by (simp_all add: sample_sid_def sample_key_def isZeroID_def list_all_iff)

lemma sample_listener_session:
  "getSession sample_sid sample_listener = Some 0" "as_nonce (ln_acts sample_listener 0) = 0"
  "as_initiatorPublicKey (ln_acts sample_listener 0) = cr_public sample_crypto sample_key"
  "ln_AllowConnectionResumption sample_listener"
  by (simp_all add: sample_listener_def hs_register_def Listen_def getSession_def saveSession_def upd_sess_def
      new_active_def addCloseHook_def NewSessionWithID_def Let_def)

lemma sample_check:
  "hs_check sample_crypto sample_resume sample_resume_body sample_listener = ok (Some 0)"
  by (rule check_resume_request [OF sample_crypto_laws])
    (simp_all add: sample_sizes sample_listener_session word_less_nat_alt unat_ucast_u16)

theorem resumption_no_replay_witness:
  "\<exists>ln. hs_world sample_crypto ln [] [(0, sample_resume, sample_resume_body)] \<and>
     nonces_of 0 [(0, sample_resume, sample_resume_body)] = [1] \<and>
     genuine sample_crypto ln (0, sample_resume, sample_resume_body)"
proof -
  have w0: "hs_world sample_crypto sample_listener [] []"
    unfolding sample_listener_def by (rule hs_world.register [OF hs_world.start prod.collapse [symmetric]])
  have read: "hs_read (be_put16 165 @ sample_resume_body @ [], ErrEOF) = ok (sample_resume, sample_resume_body, ([], ErrEOF))"
    by (rule request_built(3)) (simp_all add: sample_sizes sample_crypto_laws)
  note w1 = hs_world.check [OF w0 read sample_check]
  obtain ln1 where c: "hs_commit 0 (im_Nonce sample_resume) sample_listener = Inr ln1"
    by (auto simp: hs_commit_def sample_listener_session)
  have "hs_world sample_crypto ln1 [] [(0, sample_resume, sample_resume_body)]"
    using hs_world.commit [OF w1 _ c, of sample_resume_body] by simp
  with resumption_no_replay [OF this, of 0] show ?thesis by auto
qed

end
