(* ===== verification/DatagramConn.thy ===== *)
theory DatagramConn
  imports Handshake PacketConn
begin

text \<open>
  The dialer's transport for datagrams, \<^verbatim>\<open>datagramConn\<close> (\<^verbatim>\<open>src/dialer.go\<close>), with \<^verbatim>\<open>wrapTransport\<close>: it turns
  a connected packet socket into the byte stream a session reads.  The socket is a parameter: the
  list of what it returns to the calls of \<^verbatim>\<open>Read\<close>, in order.  The abstract stream is the bytes a reader
  has still to get; \<^verbatim>\<open>Read\<close> and \<^verbatim>\<open>io.ReadFull\<close> over it are shown to take from its front.
\<close>

section \<open>The source's adapter\<close>

text \<open>The client's adapter.  \<open>dc_buf\<close> is the buffer, \<open>dc_r\<close> and \<open>dc_w\<close> the unread part.\<close>

record datagram_conn =
  dc_isRawIP :: bool
  dc_buf :: bytes
  dc_r :: nat
  dc_w :: nat
  dc_maxOut :: i32

definition maxUDPPayload :: nat where "maxUDPPayload = 65535"

text \<open>\<^verbatim>\<open>strings.HasPrefix\<close>; the network names as bytes: \<^verbatim>\<open>udp\<close>, \<^verbatim>\<open>ip\<close>, \<^verbatim>\<open>unixgram\<close>, \<^verbatim>\<open>unixpacket\<close>.\<close>

definition HasPrefix :: "string \<Rightarrow> string \<Rightarrow> bool" where
  "HasPrefix s pre \<longleftrightarrow> take (length pre) s = pre"

definition isDatagramNetwork :: "string \<Rightarrow> bool" where
  "isDatagramNetwork network \<longleftrightarrow>
     HasPrefix network ''udp'' \<or> HasPrefix network ''ip'' \<or> network = ''unixgram'' \<or> network = ''unixpacket''"

text \<open>The adapter that \<^verbatim>\<open>wrapTransport\<close> puts around a transport, if it is one: \<open>la\<close> is the network of
  its local address.\<close>

definition wrapTransport :: "string option \<Rightarrow> datagram_conn option" where
  "wrapTransport la =
     (case la of
        None \<Rightarrow> None
      | Some network \<Rightarrow>
          if \<not> isDatagramNetwork network then None
          else Some \<lparr>dc_isRawIP = HasPrefix network ''ip'', dc_buf = replicate maxUDPPayload 0,
                 dc_r = 0, dc_w = 0, dc_maxOut = 1500 - 28\<rparr>)"

definition setMaxOut :: "int \<Rightarrow> datagram_conn \<Rightarrow> datagram_conn" where
  "setMaxOut n c = c\<lparr>dc_maxOut := i32_of (if n > int maxUDPPayload then int maxUDPPayload else n)\<rparr>"

definition dc_maxDatagramSize :: "datagram_conn \<Rightarrow> int" where
  "dc_maxDatagramSize c = sint (dc_maxOut c)"

definition dc_Write :: "(bytes \<Rightarrow> nat \<times> go_error option) \<Rightarrow> bytes \<Rightarrow> nat \<times> go_error option" where
  "dc_Write sock b =
     (let r = sock b in
      case snd r of
        Some e \<Rightarrow> if isTransientDatagramErr e then (length b, None) else r
      | None \<Rightarrow> r)"

text \<open>Where the payload of a datagram of \<open>n\<close> bytes in the buffer starts.\<close>

definition strip_header :: "bool \<Rightarrow> bytes \<Rightarrow> nat \<Rightarrow> nat" where
  "strip_header raw buf n =
     (if raw \<and> n \<ge> 20 \<and> drop_bit 4 (buf ! 0) = 4 then
        let ihl = unat (and (buf ! 0) 15) * 4
        in if ihl \<ge> 20 \<and> ihl \<le> n then ihl else 0
      else 0)"

text \<open>\<^verbatim>\<open>Read\<close> with \<open>k = len(b)\<close>, given what the socket returns to the calls of the loop, in order; \<open>None\<close>:
  it is still waiting when these are used up.  Besides the bytes or the error it leaves the socket
  results it has not asked for.\<close>

fun dc_fetch ::
  "(go_error + bytes) list \<Rightarrow> datagram_conn \<Rightarrow>
   (go_error option \<times> (go_error + bytes) list \<times> datagram_conn) option" where
  "dc_fetch evs c =
     (if dc_r c \<noteq> dc_w c then Some (None, evs, c)
      else
        case evs of
          [] \<Rightarrow> None
        | Inl e # rest \<Rightarrow> if isTransientDatagramErr e then dc_fetch rest c else Some (Some e, rest, c)
        | Inr dgram # rest \<Rightarrow>
            let d = take (length (dc_buf c)) dgram;
                n = length d;
                buf = d @ drop n (dc_buf c)
            in dc_fetch rest (c\<lparr>dc_buf := buf, dc_r := strip_header (dc_isRawIP c) buf n, dc_w := n\<rparr>))"

definition dc_Read ::
  "nat \<Rightarrow> (go_error + bytes) list \<Rightarrow> datagram_conn \<Rightarrow>
   ((go_error + bytes) \<times> (go_error + bytes) list \<times> datagram_conn) option" where
  "dc_Read k evs c =
     (if k = 0 then Some (Inr [], evs, c)
      else
        case dc_fetch evs c of
          None \<Rightarrow> None
        | Some (Some e, rest, c1) \<Rightarrow> Some (Inl e, rest, c1)
        | Some (None, rest, c1) \<Rightarrow>
            let d = take k (slice (dc_r c1) (dc_w c1) (dc_buf c1))
            in Some (Inr d, rest, c1\<lparr>dc_r := dc_r c1 + length d\<rparr>))"

text \<open>\<^verbatim>\<open>io.ReadFull\<close> over it.\<close>

definition dc_ReadFull ::
  "nat \<Rightarrow> (go_error + bytes) list \<Rightarrow> datagram_conn \<Rightarrow>
   ((go_error + bytes) \<times> (go_error + bytes) list \<times> datagram_conn) option" where
  "dc_ReadFull n evs c = io_ReadFull (\<lambda>k (evs, c). dc_Read k evs c) n (evs, c)"

declare dc_fetch.simps [simp del]

section \<open>The stream behind the adapter\<close>

text \<open>What a datagram contributes, and what the socket's results contribute until the first error that
  is not a lost datagram.\<close>

definition dgram_payload :: "bool \<Rightarrow> bytes \<Rightarrow> bytes" where
  "dgram_payload raw dgram = (let d = take maxUDPPayload dgram in drop (strip_header raw d (length d)) d)"

fun socket_stream :: "bool \<Rightarrow> (go_error + bytes) list \<Rightarrow> bytes" where
  "socket_stream raw [] = []"
| "socket_stream raw (Inl e # evs) = (if isTransientDatagramErr e then socket_stream raw evs else [])"
| "socket_stream raw (Inr d # evs) = dgram_payload raw d @ socket_stream raw evs"

definition dc_ok :: "datagram_conn \<Rightarrow> bool" where
  "dc_ok c \<longleftrightarrow> length (dc_buf c) = maxUDPPayload \<and> dc_r c \<le> dc_w c \<and> dc_w c \<le> maxUDPPayload"

definition dc_stream :: "(go_error + bytes) list \<Rightarrow> datagram_conn \<Rightarrow> bytes" where
  "dc_stream evs c = slice (dc_r c) (dc_w c) (dc_buf c) @ socket_stream (dc_isRawIP c) evs"

lemma wrapTransport_ok: "wrapTransport la = Some c \<Longrightarrow> dc_ok c \<and> dc_stream evs c = socket_stream (dc_isRawIP c) evs"
  by (auto simp: wrapTransport_def dc_ok_def dc_stream_def slice_def split: option.splits if_splits)

lemma strip_header_le: "strip_header raw buf n \<le> n"
  by (simp add: strip_header_def Let_def)

lemma strip_header_front: "n = length d \<Longrightarrow> strip_header raw (d @ x) n = strip_header raw d n"
  by (auto simp: strip_header_def nth_append)

text \<open>A datagram put into the buffer is the front of the stream.\<close>

lemma fetched_stream:
  fixes dgram :: bytes
  assumes "dc_ok c" "dc_r c = dc_w c"
  defines "d \<equiv> take maxUDPPayload dgram"
  defines "buf \<equiv> d @ drop (length d) (dc_buf c)"
  defines "c1 \<equiv> c\<lparr>dc_buf := buf, dc_r := strip_header (dc_isRawIP c) buf (length d), dc_w := length d\<rparr>"
  shows "dc_ok c1" "dc_stream evs c1 = dc_stream (Inr dgram # evs) c"
proof -
  have "length (dc_buf c) = maxUDPPayload" "length d \<le> maxUDPPayload"
    using assms(1) by (simp_all add: dc_ok_def d_def)
  then show "dc_ok c1" by (simp add: c1_def dc_ok_def buf_def strip_header_le)
  have "slice (dc_r c1) (dc_w c1) buf = dgram_payload (dc_isRawIP c) dgram"
    by (simp add: c1_def buf_def strip_header_front slice_def dgram_payload_def Let_def drop_take flip: d_def)
  then show "dc_stream evs c1 = dc_stream (Inr dgram # evs) c"
    using assms(2) by (simp add: dc_stream_def c1_def slice_def)
qed

text \<open>Fetching the next datagram leaves the stream as it is.\<close>

lemma dc_fetch_stream:
  "dc_ok c \<Longrightarrow> dc_fetch evs c = Some (None, evs', c') \<Longrightarrow>
   dc_ok c' \<and> dc_stream evs' c' = dc_stream evs c \<and> dc_r c' < dc_w c' \<and> dc_isRawIP c' = dc_isRawIP c"
proof (induction evs arbitrary: c)
  case Nil
  then show ?case by (auto simp: dc_fetch.simps [of "[]"] dc_ok_def split: if_splits)
next
  case (Cons ev evs)
  show ?case
  proof (cases "dc_r c = dc_w c")
    case False
    then show ?thesis using Cons.prems by (auto simp: dc_fetch.simps [of "ev # evs"] dc_ok_def)
  next
    case True
    then have empty: "slice (dc_r c) (dc_w c) (dc_buf c) = []" by (simp add: slice_def)
    show ?thesis
    proof (cases ev)
      case (Inl e)
      then have "isTransientDatagramErr e" "dc_fetch evs c = Some (None, evs', c')"
        using Cons.prems(2) True by (simp_all add: dc_fetch.simps [of "Inl e # evs"] split: if_splits)
      then show ?thesis using Cons.IH [OF Cons.prems(1)] empty Inl by (auto simp: dc_stream_def)
    next
      case (Inr dgram)
      define d where "d = take maxUDPPayload dgram"
      define buf where "buf = d @ drop (length d) (dc_buf c)"
      define c1 where "c1 = c\<lparr>dc_buf := buf, dc_r := strip_header (dc_isRawIP c) buf (length d), dc_w := length d\<rparr>"
      have len: "length (dc_buf c) = maxUDPPayload" using Cons.prems(1) by (simp add: dc_ok_def)
      have ok: "dc_ok c1" and "dc_stream evs c1 = dc_stream (ev # evs) c"
        using fetched_stream [OF Cons.prems(1) True, where dgram = dgram, folded d_def, folded buf_def, folded c1_def] Inr
        by simp_all
      moreover have "dc_fetch evs c1 = Some (None, evs', c')"
        using Cons.prems(2) True len unfolding Inr
        by (simp add: dc_fetch.simps [of "Inr dgram # evs"] Let_def c1_def buf_def d_def)
      ultimately show ?thesis using Cons.IH [OF ok] by (simp add: c1_def)
    qed
  qed
qed

text \<open>A call waits or fails only when the stream has nothing more.\<close>

lemma dc_fetch_nonempty:
  "dc_ok c \<Longrightarrow> dc_stream evs c \<noteq> [] \<Longrightarrow> \<exists>evs' c'. dc_fetch evs c = Some (None, evs', c')"
proof (induction evs arbitrary: c)
  case Nil
  then show ?case by (auto simp: dc_fetch.simps [of "[]"] dc_stream_def slice_def)
next
  case (Cons ev evs)
  show ?case
  proof (cases "dc_r c = dc_w c")
    case True
    then have empty: "slice (dc_r c) (dc_w c) (dc_buf c) = []" by (simp add: slice_def)
    show ?thesis
    proof (cases ev)
      case (Inl e)
      then show ?thesis
        using Cons True empty by (auto simp: dc_fetch.simps [of "Inl e # evs"] dc_stream_def split: if_splits)
    next
      case (Inr dgram)
      define d where "d = take maxUDPPayload dgram"
      define c1 where "c1 = c\<lparr>dc_buf := d @ drop (length d) (dc_buf c),
        dc_r := strip_header (dc_isRawIP c) (d @ drop (length d) (dc_buf c)) (length d), dc_w := length d\<rparr>"
      have c1: "dc_ok c1" "dc_stream evs c1 = dc_stream (ev # evs) c"
        using fetched_stream [OF Cons.prems(1) True, where dgram = dgram, folded d_def, folded c1_def] Inr by simp_all
      have "dc_fetch (ev # evs) c = dc_fetch evs c1"
        using True Cons.prems(1) unfolding Inr
        by (simp add: dc_fetch.simps [of "Inr dgram # evs"] Let_def c1_def d_def dc_ok_def)
      then show ?thesis using Cons.IH [OF c1(1)] Cons.prems(2) c1(2) by simp
    qed
  qed (auto simp: dc_fetch.simps [of "ev # evs"])
qed

text \<open>A read takes a non-empty piece off the front.\<close>

lemma dc_Read_takes:
  assumes "dc_ok c" "0 < k" "dc_Read k evs c = Some (Inr d, evs', c')"
  shows "dc_ok c'" "d @ dc_stream evs' c' = dc_stream evs c" "d \<noteq> []" "length d \<le> k"
proof -
  obtain c1 where f: "dc_fetch evs c = Some (None, evs', c1)"
    and d: "d = take k (slice (dc_r c1) (dc_w c1) (dc_buf c1))" and c': "c' = c1\<lparr>dc_r := dc_r c1 + length d\<rparr>"
    using assms(2,3) by (auto simp: dc_Read_def Let_def split: option.splits prod.splits)
  note s = dc_fetch_stream [OF assms(1) f]
  define u where "u = slice (dc_r c1) (dc_w c1) (dc_buf c1)"
  have u: "length u = dc_w c1 - dc_r c1" using s by (auto simp: u_def dc_ok_def slice_def)
  have le: "length d \<le> dc_w c1 - dc_r c1" "length d = min k (dc_w c1 - dc_r c1)"
    using u by (simp_all add: d flip: u_def)
  then show "dc_ok c'" "d \<noteq> []" "length d \<le> k" using s assms(2) by (auto simp: c' dc_ok_def)
  have "slice (dc_r c1 + length d) (dc_w c1) (dc_buf c1) = drop (length d) u"
    by (simp add: u_def slice_def drop_take add.commute)
  moreover have "d @ drop (length d) u = u" unfolding d u_def [symmetric] by (cases "k \<le> length u") simp_all
  ultimately have "d @ dc_stream evs' c' = dc_stream evs' c1" by (simp add: dc_stream_def c' flip: u_def)
  then show "d @ dc_stream evs' c' = dc_stream evs c" using s by simp
qed

lemma dc_Read_some:
  assumes "dc_ok c" "0 < k" "dc_stream evs c \<noteq> []"
  obtains d evs' c' where "dc_Read k evs c = Some (Inr d, evs', c')"
  using dc_fetch_nonempty [OF assms(1,3)] assms(2) by (auto simp: dc_Read_def Let_def)

interpretation dgc: byte_source "\<lambda>k (evs, c). dc_Read k evs c" "\<lambda>(evs, c). dc_stream evs c" "\<lambda>(evs, c). dc_ok c"
proof unfold_locales
  fix s :: "(go_error + bytes) list \<times> datagram_conn" and k :: nat and d s'
  assume "case s of (evs, c) \<Rightarrow> dc_ok c" and k: "0 < k" and "(case s of (evs, c) \<Rightarrow> dc_stream evs c) \<noteq> []"
  then obtain evs c where s: "s = (evs, c)" "dc_ok c" "dc_stream evs c \<noteq> []" by (cases s) auto
  then show "\<exists>d s'. (case s of (evs, c) \<Rightarrow> dc_Read k evs c) = Some (Inr d, s')"
    by (auto intro: dc_Read_some [OF s(2) k s(3)])
  assume "(case s of (evs, c) \<Rightarrow> dc_Read k evs c) = Some (Inr d, s')"
  then show "(case s' of (evs, c) \<Rightarrow> dc_ok c) \<and> d @ (case s' of (evs, c) \<Rightarrow> dc_stream evs c) =
      (case s of (evs, c) \<Rightarrow> dc_stream evs c) \<and> d \<noteq> [] \<and> length d \<le> k"
    using dc_Read_takes [OF s(2) k] s(1) by (cases s') auto
qed

section \<open>Properties\<close>

text \<open>C11: Reading through the adapter refines reading from a byte stream.  Let the abstract state be the
  unread bytes of the buffered datagram followed by the payloads of the datagrams the socket still
  delivers (the IPv4 header taken off on raw sockets, lost datagrams skipped).  Whenever
  \<^verbatim>\<open>io.ReadFull\<close> on that stream returns \<open>n\<close> bytes, the same call over \<^verbatim>\<open>datagramConn\<close> returns the same
  bytes, and the stream behind the adapter is then the rest of the abstract stream: no byte is
  lost, repeated or reordered at a datagram boundary, however the reads are cut.\<close>

theorem datagram_read_refines:
  assumes "dc_ok c" "ReadFull n (dc_stream evs c, e) = ok (d, rest)"
  shows "\<exists>evs' c'. dc_ReadFull n evs c = Some (Inr d, evs', c') \<and> dc_ok c' \<and> (dc_stream evs' c', e) = rest"
  using dgc.ReadFull_refines [of "(evs, c)" n e d rest] assms by (auto simp: dc_ReadFull_def)

text \<open>A raw IPv4 socket: two datagrams with twenty bytes of header each, one lost in between, read as
  six bytes across the boundary.\<close>

definition raw_conn :: datagram_conn where
  "raw_conn = \<lparr>dc_isRawIP = True, dc_buf = replicate maxUDPPayload 0, dc_r = 0, dc_w = 0, dc_maxOut = 1472\<rparr>"

definition raw_events :: "(go_error + bytes) list" where
  "raw_events = [Inr (69 # replicate 19 0 @ [1, 2, 3, 4]), Inl (ErrIO 111), Inr (69 # replicate 19 0 @ [5, 6, 7])]"

lemma raw_payload:
  assumes "length xs < 100"
  shows "dgram_payload True (69 # replicate 19 0 @ xs) = xs"
proof -
  have "take maxUDPPayload (69 # replicate 19 0 @ xs) = (69 # replicate 19 0 @ xs :: bytes)"
    using assms by (simp add: maxUDPPayload_def)
  then show ?thesis by (simp add: dgram_payload_def strip_header_def Let_def)
qed

lemma raw_stream: "dc_ok raw_conn" "dc_stream raw_events raw_conn = [1, 2, 3, 4, 5, 6, 7]"
  by (simp_all add: dc_ok_def dc_stream_def raw_conn_def raw_events_def slice_def raw_payload
      isTransientDatagramErr_def)

theorem datagram_read_refines_witness:
  "\<exists>evs' c'. dc_ReadFull 6 raw_events raw_conn = Some (Inr [1, 2, 3, 4, 5, 6], evs', c') \<and> dc_stream evs' c' = [7]"
  using datagram_read_refines [OF raw_stream(1), of 6 raw_events ErrEOF] raw_stream(2)
  by (auto simp: ReadFull_def)

end
