(* ===== verification/Dialer.thy ===== *)
theory Dialer
  imports Listener DatagramConn
begin

text \<open>
  The client (\<^verbatim>\<open>src/dialer.go\<close>, and \<^verbatim>\<open>Session.Resume\<close> of \<^verbatim>\<open>src/session.go\<close>): \<^verbatim>\<open>Dial\<close>, resumption with
  its nonce and pinned server key, the loop of \<^verbatim>\<open>autoResume\<close>; and what the two sides of a handshake
  achieve together.

  The transport is given by what a write of the request returns (\<open>wr\<close>) and by what the other end sends
  once it has the request (\<open>peer\<close>); over a packet socket this stream is the one of \<open>DatagramConn\<close>.
\<close>

section \<open>Dialling\<close>

text \<open>\<^verbatim>\<open>Dialer\<close>, the options; and \<^verbatim>\<open>dialer\<close>, what a session remembers for resumption.\<close>

record dial_options =
  do_Config :: "config option"
  do_PrivateKey :: "bytes option"
  do_HandshakeTimeout :: time
  do_Redial :: bool

record dialer =
  d_nonce :: u32
  d_PrivateKey :: bytes
  d_responderPublicKey :: bytes
  d_sessionID :: bytes
  d_timeout :: time
  d_redial :: bool
  d_resuming :: bool

definition DefaultHandshakeTimeout :: time where "DefaultHandshakeTimeout = 5 * second"

definition dial_timeout :: "dial_options \<Rightarrow> time" where
  "dial_timeout opts = (if do_HandshakeTimeout opts > 0 then do_HandshakeTimeout opts else DefaultHandshakeTimeout)"

text \<open>What a transport's local address says (\<open>la\<close>), its write, and its other end.\<close>

record transport =
  tr_id :: nat
  tr_network :: "string option"
  tr_write :: "bytes \<Rightarrow> go_error option"
  tr_peer :: "bytes \<Rightarrow> conn_in"

record dialled =
  dl_session :: session
  dl_dialer :: dialer
  dl_datagram :: "datagram_conn option"
  dl_input :: conn_in

definition frame_limit :: "config \<Rightarrow> int" where
  "frame_limit cfg = int (unat (MaxFrameDataSize cfg)) + 17"

text \<open>\<open>mem\<close> is the memory for the new session.\<close>

definition dial ::
  "crypto \<Rightarrow> go_error + bytes \<Rightarrow> transport \<Rightarrow> dial_options \<Rightarrow> session \<Rightarrow> bytes \<Rightarrow> dialled res" where
  "dial cr rnd tr opts mem priv =
     (let cfg = (case do_Config opts of None \<Rightarrow> DefaultConfig | Some c \<Rightarrow> c);
          tconn = wrapTransport (tr_network tr)
      in rbind (initiatorExchange cr rnd (tr_write tr) (tr_peer tr) (replicate 32 0) 0 priv) (\<lambda>(resp, rest).
           if rm_Nonce resp \<noteq> 0 then err ErrInvalidNonce
           else rbind (Ret (negotiatedConfig cfg resp)) (\<lambda>sessCfg.
             let dc = map_option (setMaxOut (frame_limit sessCfg)) tconn;
                 st = \<lparr>d_nonce = 0, d_PrivateKey = priv, d_responderPublicKey = rm_PublicKey resp,
                       d_sessionID = rm_SessionID resp, d_timeout = dial_timeout opts,
                       d_redial = do_Redial opts, d_resuming = False\<rparr>;
                 sess = NewSessionWithID (s_objs mem) (s_uobjs mem) (s_now mem) (Some (tr_id tr)) (Some sessCfg)
                   (rm_SessionID resp)
             in ok \<lparr>dl_session = sess\<lparr>s_redial := do_Redial opts\<rparr>, dl_dialer = st, dl_datagram = dc, dl_input = rest\<rparr>)))"

text \<open>\<open>key\<close> is what \<^verbatim>\<open>ed25519.GenerateKey\<close> yields; a nil transport is \<open>None\<close>.\<close>

definition Dial ::
  "crypto \<Rightarrow> go_error + bytes \<Rightarrow> go_error + bytes \<Rightarrow> transport option \<Rightarrow> dial_options \<Rightarrow> session \<Rightarrow> dialled res" where
  "Dial cr key rnd conn opts mem =
     (case conn of
        None \<Rightarrow> err (ErrText ''muxocket: nil conn'')
      | Some tr \<Rightarrow>
          rbind
            (case do_PrivateKey opts of
               None \<Rightarrow> Ret key
             | Some priv \<Rightarrow>
                 if length priv \<noteq> PrivateKeySize then err (ErrText ''muxocket: invalid ed25519 private key'')
                 else ok priv)
            (\<lambda>priv. dial cr rnd tr opts mem priv))"

section \<open>Resumption\<close>

text \<open>The part before the exchange: the guards, and the nonce, which is used up first.\<close>

definition resume_begin :: "dialer \<Rightarrow> session \<Rightarrow> (go_error + u16) \<times> dialer" where
  "resume_begin d s =
     (if s_closed s then (Inl ErrSessionClosed, d)
      else if \<not> AllowConnectionResumption (s_config s) then (Inl ErrResumptionDisabled, d)
      else
        let next = d_nonce d + 1;
            d1 = d\<lparr>d_nonce := next\<rparr>
        in if unat next > 65535 then (Inl ErrNonceExhausted, d1) else (Inr (ucast next), d1))"

text \<open>The part after it.\<close>

definition resume_end :: "responder_message \<Rightarrow> transport \<Rightarrow> dialer \<Rightarrow> session \<Rightarrow> go_error option \<times> datagram_conn option \<times> session" where
  "resume_end resp tr d s =
     (let tconn = wrapTransport (tr_network tr) in
      if rm_PublicKey resp \<noteq> d_responderPublicKey d then (Some ErrServerKeyMismatch, tconn, s)
      else
        let dc = map_option (setMaxOut (frame_limit (s_config s))) tconn in
        if s_closed s then (Some ErrSessionClosed, dc, s)
        else (None, dc, resumeWithConnection (tr_id tr) s))"

text \<open>The whole; \<open>meanwhile\<close> is what happens to the session during the exchange.\<close>

definition dialer_resume ::
  "crypto \<Rightarrow> go_error + bytes \<Rightarrow> (session \<Rightarrow> session) \<Rightarrow> transport \<Rightarrow> dialer \<Rightarrow> session \<Rightarrow>
   go_error option outcome \<times> dialer \<times> session" where
  "dialer_resume cr rnd meanwhile tr d s =
     (case resume_begin d s of
        (Inl e, d1) \<Rightarrow> (Ret (Some e), d1, s)
      | (Inr nonce, d1) \<Rightarrow>
          let s1 = meanwhile s in
          case initiatorExchange cr rnd (tr_write tr) (tr_peer tr) (d_sessionID d1) nonce (d_PrivateKey d1) of
            Panic \<Rightarrow> (Panic, d1, s1)
          | Ret (Inl e) \<Rightarrow> (Ret (Some e), d1, s1)
          | Ret (Inr (resp, rest)) \<Rightarrow>
              (case resume_end resp tr d1 s1 of (e, dc, s2) \<Rightarrow> (Ret e, d1, s2)))"

definition session_Resume ::
  "crypto \<Rightarrow> go_error + bytes \<Rightarrow> (session \<Rightarrow> session) \<Rightarrow> transport \<Rightarrow> dialer option \<Rightarrow> session \<Rightarrow>
   go_error option outcome \<times> dialer option \<times> session" where
  "session_Resume cr rnd meanwhile tr od s =
     (case od of
        None \<Rightarrow> (Ret (Some ErrNotResumable), None, s)
      | Some d \<Rightarrow> (case dialer_resume cr rnd meanwhile tr d s of (r, d1, s1) \<Rightarrow> (r, Some d1, s1)))"

subsection \<open>autoResume\<close>

text \<open>The goroutine: its beginning, one turn of the loop up to the \<^verbatim>\<open>select\<close>, and the end of the turn.\<close>

datatype auto_state = AR_End | AR_Loop time time | AR_Sleep time time

definition autoResume_start :: "dialer \<Rightarrow> session \<Rightarrow> auto_state \<times> dialer" where
  "autoResume_start d s =
     (if d_resuming d then (AR_End, d)
      else (AR_Loop (s_now s + ConnectionResumeTimeout (s_config s)) (50 * millisecond), d\<lparr>d_resuming := True\<rparr>))"

definition auto_goes_on :: "time \<Rightarrow> session \<Rightarrow> bool" where
  "auto_goes_on deadline s \<longleftrightarrow> s_now s < deadline \<and> \<not> s_closed s \<and> s_suspended s"

text \<open>\<open>dialled\<close> is what \<^verbatim>\<open>d.redial()\<close> returns; a transport that did not resume the session is closed.\<close>

definition autoResume_turn ::
  "crypto \<Rightarrow> go_error + bytes \<Rightarrow> (session \<Rightarrow> session) \<Rightarrow> go_error + transport \<Rightarrow> time \<Rightarrow> time \<Rightarrow> dialer \<Rightarrow> session \<Rightarrow>
   auto_state outcome \<times> dialer \<times> session" where
  "autoResume_turn cr rnd meanwhile dialled deadline backoff d s =
     (if \<not> auto_goes_on deadline s then (Ret AR_End, d\<lparr>d_resuming := False\<rparr>, s)
      else
        case dialled of
          Inl e \<Rightarrow> (Ret (AR_Sleep deadline backoff), d, s)
        | Inr tr \<Rightarrow>
            (case dialer_resume cr rnd meanwhile tr d s of
               (Panic, d1, s1) \<Rightarrow> (Panic, d1, s1)
             | (Ret None, d1, s1) \<Rightarrow> (Ret AR_End, d1\<lparr>d_resuming := False\<rparr>, s1)
             | (Ret (Some e), d1, s1) \<Rightarrow> (Ret (AR_Sleep deadline backoff), d1, close_conn (tr_id tr) s1)))"

text \<open>\<open>die\<close>: the session's \<^verbatim>\<open>die\<close> fires first.\<close>

definition autoResume_wake :: "bool \<Rightarrow> time \<Rightarrow> time \<Rightarrow> dialer \<Rightarrow> session \<Rightarrow> auto_state \<times> dialer" where
  "autoResume_wake die deadline backoff d s =
     (if die \<and> s_die s then (AR_End, d\<lparr>d_resuming := False\<rparr>)
      else (AR_Loop deadline (if backoff < second then backoff * 2 else backoff), d))"

section \<open>The two sides together\<close>

text \<open>A transport whose other end is the listener: it answers the request with what \<^verbatim>\<open>handshake\<close> writes.\<close>

definition answer :: "crypto \<Rightarrow> nat \<Rightarrow> bytes \<Rightarrow> bytes \<Rightarrow> listener \<Rightarrow> bytes \<Rightarrow> hs_result" where
  "answer cr k sid privS ln req = handshake cr (\<lambda>_. None) k sid (Inr privS) (req, ErrEOF) ln"

definition served_by :: "crypto \<Rightarrow> nat \<Rightarrow> bytes \<Rightarrow> bytes \<Rightarrow> listener \<Rightarrow> transport \<Rightarrow> bool" where
  "served_by cr k sid privS ln tr \<longleftrightarrow>
     (\<forall>req. tr_write tr req = None) \<and>
     (\<forall>req res. fst (snd (answer cr k sid privS ln req)) = Some res \<longrightarrow> tr_peer tr req = (res, ErrEOF))"

text \<open>What a dialler remembers fits what the listener has under \<open>a\<close>: the session ID is found there, each
  has the other's key, and the nonces the listener has seen are not ahead.  Whether the two may resume
  is a matter of the two configurations and no part of this.\<close>

definition paired :: "crypto \<Rightarrow> dialer \<Rightarrow> aref \<Rightarrow> listener \<Rightarrow> bool" where
  "paired cr d a ln \<longleftrightarrow>
     length (d_PrivateKey d) = 64 \<and> length (d_sessionID d) = 32 \<and> \<not> isZeroID (d_sessionID d) \<and>
     getSession (d_sessionID d) ln = Some a \<and> as_id (ln_acts ln a) = d_sessionID d \<and>
     length (as_responderPrivateKey (ln_acts ln a)) = 64 \<and>
     as_initiatorPublicKey (ln_acts ln a) = cr_public cr (d_PrivateKey d) \<and>
     d_responderPublicKey d = cr_public cr (as_responderPrivateKey (ln_acts ln a)) \<and>
     as_nonce (ln_acts ln a) \<le> d_nonce d"

text \<open>What a listener may advertise.\<close>

definition advertisable :: "config \<Rightarrow> bool" where
  "advertisable cfg \<longleftrightarrow> MaxFrameDataSize cfg \<noteq> 0 \<and> unat (MaxFrameDataSize cfg) \<le> MaxAllocSize \<and>
     InitialStreamWindow cfg \<noteq> 0 \<and> int (unat (InitialStreamWindow cfg)) \<le> i32_max \<and>
     int (unat (InitialSessionWindow cfg)) \<le> i32_max"

definition agree :: "config \<Rightarrow> config \<Rightarrow> bool" where
  "agree c c' \<longleftrightarrow> MaxFrameDataSize c' = MaxFrameDataSize c \<and> InitialStreamWindow c' = InitialStreamWindow c \<and>
     InitialSessionWindow c' = InitialSessionWindow c \<and> Reliability c' = Reliability c"

lemma answer_fresh:
  assumes "ed25519_sizes cr" "ed25519_complete cr" "length privC = 64" "length rnd = 32" "length privS = 64"
    "length sid = 32" "ln_sessionConfig ln = Some cfg"
  obtains res a ln1 where
    "buildResponderHandshake cr (Some cfg) (ln_AllowConnectionResumption ln) sid 0 privS
       (request_body cr (replicate 32 0) 0 rnd privC) = ok res"
    "hs_register k sid privS (cr_public cr privC) ln = (a, ln1)"
    "answer cr k sid privS ln (be_put16 165 @ request_body cr (replicate 32 0) 0 rnd privC) =
       (ok (a, False), Some res, ln1)"
proof -
  let ?m = "request_message cr (replicate 32 0) 0 rnd privC"
  let ?b = "request_body cr (replicate 32 0) 0 rnd privC"
  obtain res where res: "buildResponderHandshake cr (Some cfg) (ln_AllowConnectionResumption ln) sid 0 privS ?b = ok res"
    using build_no_panic assms(5) unfolding PrivateKeySize_def by blast
  obtain a ln1 where reg: "hs_register k sid privS (cr_public cr privC) ln = (a, ln1)" by force
  have read: "hs_read (be_put16 165 @ ?b, ErrEOF) = ok (?m, ?b, ([], ErrEOF))"
    using request_built(3) [OF assms(1,3) _ assms(4), of "replicate 32 0" 0 "[]" ErrEOF] by simp
  have "answer cr k sid privS ln (be_put16 165 @ ?b) = (ok (a, False), Some res, ln1)"
    by (simp add: answer_def handshake_def read check_fresh_request [OF assms(1-4)] hs_finish_def hs_fresh_def
        assms(7) res reg)
  with res reg show ?thesis by (rule that)
qed

text \<open>The exchange with such a transport.\<close>

lemma exchange_served:
  assumes "ed25519_sizes cr" "ed25519_complete cr" "length privC = 64" "length rnd = 32" "length sid0 = 32"
    "served_by cr k sidN privN ln tr" "length privS = 64" "length sid = 32"
    "fst (snd (answer cr k sidN privN ln (be_put16 165 @ request_body cr sid0 nonce rnd privC))) = Some res"
    "buildResponderHandshake cr oc allow sid nonce privS (request_body cr sid0 nonce rnd privC) = ok res"
    "isZeroID sid0 \<or> sid0 = sid"
  shows "initiatorExchange cr (Inr rnd) (tr_write tr) (tr_peer tr) sid0 nonce privC =
    ok (reply_message cr oc allow sid nonce privS (request_body cr sid0 nonce rnd privC), ([], ErrEOF))"
proof -
  define req where "req = be_put16 165 @ request_body cr sid0 nonce rnd privC"
  have body: "drop 2 req = request_body cr sid0 nonce rnd privC" "2 \<le> length req" by (simp_all add: req_def)
  have wr: "tr_write tr req = None" "tr_peer tr req = (res, ErrEOF)"
    using assms(6,9) unfolding served_by_def req_def by blast+
  have "read_reply cr sid0 nonce req (res @ [], ErrEOF) =
      ok (reply_message cr oc allow sid nonce privS (drop 2 req), ([], ErrEOF))"
    by (rule honest_reply [OF assms(1) _ assms(7,8) body(2) assms(11)])
      (use assms(2,10) body in \<open>simp_all add: ed25519_complete_def\<close>)
  then show ?thesis
    using request_built(1) [OF assms(1,3,5,4), of nonce] wr body(1)
    by (simp add: initiatorExchange_def flip: req_def)
qed

text \<open>What registering leaves behind.\<close>

lemma registered_session:
  assumes "hs_register k sid privS pub ln = (a, ln1)" "ln_sessionConfig ln = Some cfg"
  shows "getSession sid ln1 = Some a" "ln_acts ln1 a = new_active sid (ln_nextS ln) pub privS"
    "s_id (ln_sess ln1 (ln_nextS ln)) = sid" "s_config (ln_sess ln1 (ln_nextS ln)) = session_config (Some cfg)"
    "s_closeHooks (ln_sess ln1 (ln_nextS ln)) = [a]" "s_conn (ln_sess ln1 (ln_nextS ln)) = Some k"
  using assms
  by (auto simp: hs_register_def getSession_def saveSession_def upd_sess_def new_active_def addCloseHook_def
      NewSessionWithID_def Let_def update_conv')

lemma reply_message_simps [simp]:
  "rm_Nonce (reply_message cr oc allow sid nonce priv ini) = nonce"
  "rm_SessionID (reply_message cr oc allow sid nonce priv ini) = sid"
  "rm_PublicKey (reply_message cr oc allow sid nonce priv ini) = cr_public cr priv"
  "rm_MaxFrameDataLen (reply_message cr (Some cfg) allow sid nonce priv ini) = MaxFrameDataSize cfg"
  "rm_InitialStreamWindow (reply_message cr (Some cfg) allow sid nonce priv ini) = InitialStreamWindow cfg"
  "rm_InitialSessionWindow (reply_message cr (Some cfg) allow sid nonce priv ini) = InitialSessionWindow cfg"
  "rm_Reliability (reply_message cr (Some cfg) allow sid nonce priv ini) = Reliability cfg"
  "rm_AllowConnectionResumption (reply_message cr (Some cfg) allow sid nonce priv ini) = allow"
  by (simp_all add: reply_message_def Let_def)

lemma negotiated_agrees:
  assumes "advertisable cfg" "rm_MaxFrameDataLen resp = MaxFrameDataSize cfg"
    "rm_InitialStreamWindow resp = InitialStreamWindow cfg" "rm_InitialSessionWindow resp = InitialSessionWindow cfg"
    "rm_Reliability resp = Reliability cfg"
  obtains c where "negotiatedConfig local resp = Inr c" "agree (session_config (Some cfg)) (session_config (Some c))"
    "AllowConnectionResumption (session_config (Some c)) = (AllowConnectionResumption local \<and> rm_AllowConnectionResumption resp)"
proof -
  let ?c = "local\<lparr>InitialStreamWindow := InitialStreamWindow cfg, InitialSessionWindow := InitialSessionWindow cfg,
      MaxFrameDataSize := MaxFrameDataSize cfg, Reliability := Reliability cfg,
      AllowConnectionResumption := AllowConnectionResumption local \<and> rm_AllowConnectionResumption resp\<rparr>"
  have "negotiatedConfig local resp = Inr ?c"
    using assms by (simp add: negotiatedConfig_def advertisable_def)
  moreover have "agree (session_config (Some cfg)) (session_config (Some ?c))"
    by (simp add: agree_def session_config_def Let_def fill_frame_def)
  moreover have "AllowConnectionResumption (session_config (Some ?c)) =
      (AllowConnectionResumption local \<and> rm_AllowConnectionResumption resp)"
    by (simp add: session_config_def Let_def)
  ultimately show ?thesis by (rule that)
qed

text \<open>C5: Dialling an honest listener works, and both ends agree.  Given that Ed25519 has the documented
  sizes and verifies its own signatures, and a configuration the listener may advertise: \<^verbatim>\<open>dial\<close> over
  a transport answered by \<^verbatim>\<open>handshake\<close> succeeds, and \<^verbatim>\<open>handshake\<close> has registered a session of the same ID
  with the same frame size, windows and reliability, which is found under that ID; each side has
  stored the other's public key (\<open>paired\<close>).  The client's session allows resumption exactly when both
  the client's options and the listener do: then a first \<^verbatim>\<open>resume\<close> gets past its checks and uses nonce 1,
  otherwise it is refused with \<^verbatim>\<open>ErrResumptionDisabled\<close> and changes nothing.\<close>

theorem handshake_agrees:
  assumes "ed25519_sizes cr" "ed25519_complete cr" "length privC = 64" "length rnd = 32" "length privS = 64"
    "length sid = 32" "\<not> isZeroID sid" "ln_sessionConfig ln = Some cfg" "advertisable cfg"
    "served_by cr k sid privS ln tr"
  shows "\<exists>a res ln1 dl. answer cr k sid privS ln (be_put16 165 @ request_body cr (replicate 32 0) 0 rnd privC) =
        (ok (a, False), Some res, ln1) \<and>
      dial cr (Inr rnd) tr opts mem privC = ok dl \<and>
      s_id (dl_session dl) = sid \<and> s_id (ln_sess ln1 (as_session (ln_acts ln1 a))) = sid \<and>
      agree (s_config (ln_sess ln1 (as_session (ln_acts ln1 a)))) (s_config (dl_session dl)) \<and>
      s_conn (dl_session dl) = Some (tr_id tr) \<and> paired cr (dl_dialer dl) a ln1 \<and>
      (let allowed = AllowConnectionResumption (case do_Config opts of None \<Rightarrow> DefaultConfig | Some c \<Rightarrow> c) \<and>
             ln_AllowConnectionResumption ln
       in AllowConnectionResumption (s_config (dl_session dl)) = allowed \<and>
          resume_begin (dl_dialer dl) (dl_session dl) =
            (if allowed then (Inr 1, (dl_dialer dl)\<lparr>d_nonce := 1\<rparr>)
             else (Inl ErrResumptionDisabled, dl_dialer dl)))"
proof -
  let ?b = "request_body cr (replicate 32 0) 0 rnd privC"
  let ?resp = "reply_message cr (Some cfg) (ln_AllowConnectionResumption ln) sid 0 privS ?b"
  let ?local = "case do_Config opts of None \<Rightarrow> DefaultConfig | Some c \<Rightarrow> c"
  obtain res a ln1 where
    res: "buildResponderHandshake cr (Some cfg) (ln_AllowConnectionResumption ln) sid 0 privS ?b = ok res"
    and reg: "hs_register k sid privS (cr_public cr privC) ln = (a, ln1)"
    and ans: "answer cr k sid privS ln (be_put16 165 @ ?b) = (ok (a, False), Some res, ln1)"
    by (rule answer_fresh [OF assms(1-6,8), of k])
  note r = registered_session [OF reg assms(8)]
  have zero: "isZeroID (replicate 32 0)" by (simp add: isZeroID_def list_all_iff)
  have ex: "initiatorExchange cr (Inr rnd) (tr_write tr) (tr_peer tr) (replicate 32 0) 0 privC = ok (?resp, ([], ErrEOF))"
    by (rule exchange_served [OF assms(1-4) _ assms(10,5,6) _ res]) (simp_all add: ans zero)
  obtain c where c: "negotiatedConfig ?local ?resp = Inr c" "agree (session_config (Some cfg)) (session_config (Some c))"
    "AllowConnectionResumption (session_config (Some c)) =
      (AllowConnectionResumption ?local \<and> ln_AllowConnectionResumption ln)"
    by (rule negotiated_agrees [OF assms(9), of ?resp ?local]) simp_all
  define dl where "dl = \<lparr>dl_session = (NewSessionWithID (s_objs mem) (s_uobjs mem) (s_now mem) (Some (tr_id tr)) (Some c) sid)
        \<lparr>s_redial := do_Redial opts\<rparr>,
      dl_dialer = \<lparr>d_nonce = 0, d_PrivateKey = privC, d_responderPublicKey = cr_public cr privS, d_sessionID = sid,
        d_timeout = dial_timeout opts, d_redial = do_Redial opts, d_resuming = False\<rparr>,
      dl_datagram = map_option (setMaxOut (frame_limit c)) (wrapTransport (tr_network tr)), dl_input = ([], ErrEOF)\<rparr>"
  have "dial cr (Inr rnd) tr opts mem privC = ok dl"
    by (simp add: dial_def ex c(1) dl_def Let_def)
  moreover have "s_id (dl_session dl) = sid" "s_config (dl_session dl) = session_config (Some c)"
    "s_conn (dl_session dl) = Some (tr_id tr)" "\<not> s_closed (dl_session dl)" "d_nonce (dl_dialer dl) = 0"
    by (simp_all add: dl_def NewSessionWithID_def Let_def)
  moreover have "as_session (ln_acts ln1 a) = ln_nextS ln" by (simp add: r(2) new_active_def)
  moreover have "paired cr (dl_dialer dl) a ln1"
    using assms(3,5-7) r(1) by (simp add: paired_def dl_def r(2) new_active_def)
  ultimately show ?thesis
    using ans r(3,4) c(2,3)
    by (intro exI [of _ a] exI [of _ res] exI [of _ ln1] exI [of _ dl]) (simp add: resume_begin_def Let_def)
qed

text \<open>Examples: a transport answered by a listener.\<close>

definition served_transport :: "crypto \<Rightarrow> nat \<Rightarrow> bytes \<Rightarrow> bytes \<Rightarrow> listener \<Rightarrow> transport" where
  "served_transport cr k sid privS ln =
     \<lparr>tr_id = 5, tr_network = Some ''tcp'', tr_write = (\<lambda>_. None),
      tr_peer = (\<lambda>req. (case fst (snd (answer cr k sid privS ln req)) of None \<Rightarrow> [] | Some res \<Rightarrow> res, ErrEOF))\<rparr>"

lemma served_transport: "served_by cr k sid privS ln (served_transport cr k sid privS ln)"
  by (simp add: served_by_def served_transport_def)

definition sample_options :: dial_options where
  "sample_options = \<lparr>do_Config = Some (DefaultConfig\<lparr>AllowConnectionResumption := True\<rparr>), do_PrivateKey = None,
     do_HandshakeTimeout = 0, do_Redial = False\<rparr>"

lemma default_advertisable: "advertisable DefaultConfig"
  by (simp add: advertisable_def DefaultConfig_def default_defs i32_max_def)

theorem handshake_agrees_witness:
  "\<exists>dl. dial sample_crypto (Inr (replicate 32 5))
       (served_transport sample_crypto 3 sample_sid (replicate 64 2) (Listen sample_memory None))
       sample_options sample_session sample_key = ok dl \<and> s_id (dl_session dl) = sample_sid \<and>
     fst (resume_begin (dl_dialer dl) (dl_session dl)) = Inr 1"
  using handshake_agrees [OF sample_crypto_laws, of sample_key "replicate 32 5" "replicate 64 2" sample_sid
      "Listen sample_memory None" DefaultConfig 3, OF _ _ _ _ _ _ default_advertisable served_transport,
      of sample_options sample_session]
  by (auto simp: sample_sizes Listen_def Let_def sample_options_def)

text \<open>Resuming: the listener's side.\<close>

lemma answer_resume:
  assumes "ed25519_sizes cr" "ed25519_complete cr" "paired cr d a ln" "length rnd = 32"
    "ln_AllowConnectionResumption ln" "as_nonce (ln_acts ln a) < ucast nonce"
  obtains res ln1 where
    "buildResponderHandshake cr (ln_sessionConfig ln) True (d_sessionID d) nonce (as_responderPrivateKey (ln_acts ln a))
       (request_body cr (d_sessionID d) nonce rnd (d_PrivateKey d)) = ok res"
    "hs_commit a nonce ln = Inr ln1"
    "answer cr k sid privS ln (be_put16 165 @ request_body cr (d_sessionID d) nonce rnd (d_PrivateKey d)) =
       (ok (a, True), Some res, resumeSession a k ln1)"
proof -
  let ?m = "request_message cr (d_sessionID d) nonce rnd (d_PrivateKey d)"
  let ?b = "request_body cr (d_sessionID d) nonce rnd (d_PrivateKey d)"
  have p: "length (d_PrivateKey d) = 64" "length (d_sessionID d) = 32" "\<not> isZeroID (d_sessionID d)"
    "getSession (d_sessionID d) ln = Some a" "as_id (ln_acts ln a) = d_sessionID d"
    "length (as_responderPrivateKey (ln_acts ln a)) = 64"
    "as_initiatorPublicKey (ln_acts ln a) = cr_public cr (d_PrivateKey d)"
    using assms(3) by (simp_all add: paired_def)
  obtain res where res: "buildResponderHandshake cr (ln_sessionConfig ln) True (d_sessionID d) nonce
      (as_responderPrivateKey (ln_acts ln a)) ?b = ok res"
    using build_no_panic p(6) unfolding PrivateKeySize_def by blast
  define ln1 where "ln1 = upd_act a (\<lambda>s. s\<lparr>as_nonce := ucast nonce\<rparr>) ln"
  have com: "hs_commit a nonce ln = Inr ln1" using assms(6) by (simp add: hs_commit_def ln1_def not_le)
  have same: "ln_sessionConfig ln1 = ln_sessionConfig ln" "ln_AllowConnectionResumption ln1"
    "as_id (ln_acts ln1 a) = d_sessionID d" "as_responderPrivateKey (ln_acts ln1 a) = as_responderPrivateKey (ln_acts ln a)"
    using assms(5) p(5) by (simp_all add: ln1_def upd_act_def)
  have read: "hs_read (be_put16 165 @ ?b, ErrEOF) = ok (?m, ?b, ([], ErrEOF))"
    using request_built(3) [OF assms(1) p(1,2) assms(4), of nonce "[]" ErrEOF] by simp
  have chk: "hs_check cr ?m ?b ln = ok (Some a)"
    by (rule check_resume_request [OF assms(1,2) p(1,2) assms(4) p(3) assms(5) p(4) assms(6) p(7)])
  have "answer cr k sid privS ln (be_put16 165 @ ?b) = (ok (a, True), Some res, resumeSession a k ln1)"
    using same by (simp add: answer_def handshake_def read chk hs_finish_def hs_resume_def com res)
  with res com show ?thesis by (rule that)
qed

lemma next_nonce:
  assumes "unat (d_nonce d) < 65535"
  shows "unat (d_nonce d + 1) = Suc (unat (d_nonce d))" "unat (ucast (d_nonce d + 1) :: u16) = Suc (unat (d_nonce d))"
proof -
  show u: "unat (d_nonce d + 1) = Suc (unat (d_nonce d))" using assms by (simp add: unat_word_ariths)
  have "unat (ucast (d_nonce d + 1) :: u16) = unat (d_nonce d + 1) mod 65536"
    by (simp add: unsigned_ucast_eq take_bit_eq_mod)
  then show "unat (ucast (d_nonce d + 1) :: u16) = Suc (unat (d_nonce d))" using assms by (simp add: u)
qed

lemma resumed_conn:
  "s_conn (resumeWithConnection c s) = Some c" "\<not> s_suspended (resumeWithConnection c s)"
  "s_closed (resumeWithConnection c s) = s_closed s"
  by (simp_all add: resumeWithConnection_def alterConn_def upd_ws_def close_conn_def Let_def split: option.split)

text \<open>The pair after the nonce is used up, whether the listener has seen the request or not.\<close>

lemma paired_nonce:
  assumes "paired cr d a ln" "d_nonce d \<le> n"
  shows "paired cr (d\<lparr>d_nonce := n\<rparr>) a ln"
  using assms by (auto simp: paired_def)

lemma paired_resumed:
  assumes "paired cr d a ln" "hs_commit a nonce ln = Inr ln1"
  shows "paired cr (d\<lparr>d_nonce := ucast nonce\<rparr>) a (resumeSession a k ln1)"
  using assms by (auto simp: paired_def hs_commit_def getSession_def resumeSession_def alterConnection_def resumed_conn
      split: if_splits option.splits)

lemma resume_served:
  assumes "ed25519_sizes cr" "ed25519_complete cr" "paired cr d a ln" "length rnd = 32"
    "ln_AllowConnectionResumption ln" "\<not> s_closed s" "AllowConnectionResumption (s_config s)"
    "\<not> s_closed (meanwhile s)" "unat (d_nonce d) < 65535" "served_by cr k sid privS ln tr"
  obtains nonce res ln1 where "resume_begin d s = (Inr nonce, d\<lparr>d_nonce := d_nonce d + 1\<rparr>)"
    "ucast nonce = d_nonce d + 1" "hs_commit a nonce ln = Inr ln1"
    "answer cr k sid privS ln (be_put16 165 @ request_body cr (d_sessionID d) nonce rnd (d_PrivateKey d)) =
        (ok (a, True), Some res, resumeSession a k ln1)"
    "dialer_resume cr (Inr rnd) meanwhile tr d s =
        (Ret None, d\<lparr>d_nonce := d_nonce d + 1\<rparr>, resumeWithConnection (tr_id tr) (meanwhile s))"
proof -
  define nonce :: u16 where "nonce = ucast (d_nonce d + 1)"
  note nn = next_nonce [OF assms(9)]
  have bg: "resume_begin d s = (Inr nonce, d\<lparr>d_nonce := d_nonce d + 1\<rparr>)"
    using assms(6,7,9) nn(1) by (simp add: resume_begin_def Let_def nonce_def)
  have p: "length (d_PrivateKey d) = 64" "length (d_sessionID d) = 32" "length (as_responderPrivateKey (ln_acts ln a)) = 64"
    "d_responderPublicKey d = cr_public cr (as_responderPrivateKey (ln_acts ln a))" "as_nonce (ln_acts ln a) \<le> d_nonce d"
    using assms(3) by (simp_all add: paired_def)
  have un: "ucast nonce = d_nonce d + 1"
    using nn by (simp add: word_unat_eq_iff unat_ucast_u16 nonce_def)
  have lt: "as_nonce (ln_acts ln a) < ucast nonce"
    using p(5) nn(1) by (simp add: un word_less_nat_alt word_le_nat_alt)
  let ?b = "request_body cr (d_sessionID d) nonce rnd (d_PrivateKey d)"
  obtain res ln1 where res: "buildResponderHandshake cr (ln_sessionConfig ln) True (d_sessionID d) nonce
      (as_responderPrivateKey (ln_acts ln a)) ?b = ok res" and com: "hs_commit a nonce ln = Inr ln1"
    and ans: "answer cr k sid privS ln (be_put16 165 @ ?b) = (ok (a, True), Some res, resumeSession a k ln1)"
    by (rule answer_resume [OF assms(1-5) lt])
  have "initiatorExchange cr (Inr rnd) (tr_write tr) (tr_peer tr) (d_sessionID d) nonce (d_PrivateKey d) =
      ok (reply_message cr (ln_sessionConfig ln) True (d_sessionID d) nonce (as_responderPrivateKey (ln_acts ln a)) ?b, ([], ErrEOF))"
    by (rule exchange_served [OF assms(1,2) p(1) assms(4) p(2) assms(10) p(3,2) _ res]) (simp_all add: ans)
  then have "dialer_resume cr (Inr rnd) meanwhile tr d s =
      (Ret None, d\<lparr>d_nonce := d_nonce d + 1\<rparr>, resumeWithConnection (tr_id tr) (meanwhile s))"
    using assms(8) p(4) by (simp add: dialer_resume_def bg resume_end_def Let_def)
  with bg un com ans show ?thesis by (rule that)
qed

text \<open>C8: A paired session can always be resumed, also after replies were lost.  When the client is
  allowed to resume, has nonces left and is not closed, its next attempt against the listener
  succeeds on both sides: the client's session runs on the new transport, the listener's on the
  transport the request came from, and the two are paired again.  The client's memory after the attempt
  is also paired with the listener as it was, so an attempt whose request is lost, or whose
  reply is lost after the listener accepted, does not prevent the next one.\<close>

theorem resume_agrees:
  assumes "ed25519_sizes cr" "ed25519_complete cr" "paired cr d a ln" "length rnd = 32"
    "ln_AllowConnectionResumption ln" "\<not> s_closed s" "AllowConnectionResumption (s_config s)"
    "\<not> s_closed (meanwhile s)" "unat (d_nonce d) < 65535" "served_by cr k sid privS ln tr"
  shows "\<exists>nonce res ln1 d1 s2.
      resume_begin d s = (Inr nonce, d1) \<and>
      answer cr k sid privS ln (be_put16 165 @ request_body cr (d_sessionID d) nonce rnd (d_PrivateKey d)) =
        (ok (a, True), Some res, ln1) \<and>
      dialer_resume cr (Inr rnd) meanwhile tr d s = (Ret None, d1, s2) \<and>
      s_conn s2 = Some (tr_id tr) \<and> \<not> s_suspended s2 \<and>
      s_conn (ln_sess ln1 (as_session (ln_acts ln1 a))) = Some k \<and> paired cr d1 a ln1 \<and> paired cr d1 a ln"
proof -
  obtain nonce res ln1 where bg: "resume_begin d s = (Inr nonce, d\<lparr>d_nonce := d_nonce d + 1\<rparr>)"
    and un: "ucast nonce = d_nonce d + 1" and com: "hs_commit a nonce ln = Inr ln1"
    and ans: "answer cr k sid privS ln (be_put16 165 @ request_body cr (d_sessionID d) nonce rnd (d_PrivateKey d)) =
        (ok (a, True), Some res, resumeSession a k ln1)"
    and client: "dialer_resume cr (Inr rnd) meanwhile tr d s =
        (Ret None, d\<lparr>d_nonce := d_nonce d + 1\<rparr>, resumeWithConnection (tr_id tr) (meanwhile s))"
    by (rule resume_served [where meanwhile = meanwhile, OF assms])
  have "s_conn (ln_sess (resumeSession a k ln1) (as_session (ln_acts ln1 a))) = Some k"
    by (simp add: resumeSession_def alterConnection_def resumed_conn)
  moreover have "paired cr (d\<lparr>d_nonce := d_nonce d + 1\<rparr>) a (resumeSession a k ln1)"
    using paired_resumed [OF assms(3) com, of k] by (simp add: un)
  moreover have "paired cr (d\<lparr>d_nonce := d_nonce d + 1\<rparr>) a ln"
    by (rule paired_nonce [OF assms(3)]) (simp add: word_le_nat_alt next_nonce [OF assms(9)])
  ultimately show ?thesis using bg ans client resumed_conn
    by (intro exI [of _ nonce] exI [of _ res] exI [of _ "resumeSession a k ln1"]
        exI [of _ "d\<lparr>d_nonce := d_nonce d + 1\<rparr>"] exI [of _ "resumeWithConnection (tr_id tr) (meanwhile s)"]) simp
qed

definition sample_dialer :: dialer where
  "sample_dialer = \<lparr>d_nonce = 0, d_PrivateKey = sample_key, d_responderPublicKey = go_copy 32 (replicate 64 2),
     d_sessionID = sample_sid, d_timeout = DefaultHandshakeTimeout, d_redial = True, d_resuming = False\<rparr>"

definition sample_client :: session where
  "sample_client = (NewSessionWithID (s_objs sample_session) (s_uobjs sample_session) 0 None
     (Some (DefaultConfig\<lparr>AllowConnectionResumption := True\<rparr>)) sample_sid)\<lparr>s_suspended := True\<rparr>"

lemma sample_paired: "paired sample_crypto sample_dialer 0 sample_listener"
proof -
  have "as_id (ln_acts sample_listener 0) = sample_sid"
    "as_responderPrivateKey (ln_acts sample_listener 0) = replicate 64 2"
    by (simp_all add: sample_listener_def hs_register_def Listen_def saveSession_def upd_sess_def
        new_active_def addCloseHook_def Let_def)
  then show ?thesis
    by (simp add: paired_def sample_dialer_def sample_sizes sample_listener_session sample_crypto_def)
qed

lemma sample_client_open: "\<not> s_closed sample_client" "AllowConnectionResumption (s_config sample_client)"
  by (simp_all add: sample_client_def NewSessionWithID_def session_config_def Let_def)

lemma sample_resumed:
  "\<exists>d1 s1. dialer_resume sample_crypto (Inr (replicate 32 5)) id
     (served_transport sample_crypto 4 sample_sid (replicate 64 2) sample_listener) sample_dialer sample_client =
   (Ret None, d1, s1)"
proof -
  have *: "\<not> s_closed (id sample_client)" "unat (d_nonce sample_dialer) < 65535" "length (replicate 32 (5 :: u8)) = 32"
    by (simp_all add: sample_client_open sample_dialer_def)
  show ?thesis
    by (rule resume_served [where meanwhile = id, OF sample_crypto_laws sample_paired *(3) sample_listener_session(4) sample_client_open *(1,2)
          served_transport [of _ 4 sample_sid "replicate 64 2"]]) blast
qed

theorem resume_agrees_witness:
  "\<exists>d1 s2. dialer_resume sample_crypto (Inr (replicate 32 5)) id
       (served_transport sample_crypto 4 sample_sid (replicate 64 2) sample_listener) sample_dialer sample_client =
     (Ret None, d1, s2) \<and> s_conn s2 = Some 5 \<and> \<not> s_suspended s2"
  using resume_agrees [OF sample_crypto_laws sample_paired, of "replicate 32 5" sample_client id,
      OF _ _ _ _ _ _ served_transport [of _ 4 sample_sid "replicate 64 2"]]
  by (auto simp: sample_listener_session sample_client_open sample_dialer_def served_transport_def)

subsection \<open>What a resumption rests on\<close>

lemma request_length:
  assumes "BuildInitiatorHandshake cr rnd sid nonce priv = ok req"
  shows "2 \<le> length req"
  using assms by (auto simp: BuildInitiatorHandshake_def rbind_ok_iff seal_def be_put16_def Let_def)

lemma exchange_ok:
  assumes "initiatorExchange cr rnd wr peer sid nonce priv = ok (resp, rest)" "nonce \<noteq> 0" "\<not> isZeroID sid"
  obtains req b where "BuildInitiatorHandshake cr rnd sid nonce priv = ok req"
    "parseResponderHandshakeMessage b = ok resp"
    "cr_verify cr (rm_PublicKey resp) (responderSignedMessage cr (take 86 b) (drop 2 req)) (rm_Signature resp)"
    "rm_Nonce resp = nonce" "rm_SessionID resp = sid"
proof -
  obtain req where req: "BuildInitiatorHandshake cr rnd sid nonce priv = ok req"
    and rr: "read_reply cr sid nonce req (peer req) = ok (resp, rest)"
    using assms(1) by (auto simp: initiatorExchange_def rbind_ok_iff split: option.splits)
  obtain b where "check_reply cr sid nonce req b = ok resp" using read_reply_ok [OF rr] by blast
  from check_reply_ok [OF this request_length [OF req]] req assms(2,3) show ?thesis by (intro that) auto
qed

text \<open>The cases of an attempt.\<close>

lemma resume_cases:
  assumes "dialer_resume cr rnd meanwhile tr d s = (Ret r, d1, s1)"
  shows "r \<noteq> None \<and> s1 \<in> {s, meanwhile s} \<or>
    r = None \<and> \<not> s_closed (meanwhile s) \<and> s1 = resumeWithConnection (tr_id tr) (meanwhile s) \<and>
    (\<exists>nonce resp rest. resume_begin d s = (Inr nonce, d1) \<and>
       initiatorExchange cr rnd (tr_write tr) (tr_peer tr) (d_sessionID d1) nonce (d_PrivateKey d1) = ok (resp, rest) \<and>
       rm_PublicKey resp = d_responderPublicKey d1)"
  using assms
  by (auto simp: dialer_resume_def resume_end_def Let_def split: prod.splits sum.splits outcome.splits if_splits)

lemma resume_begin_ok:
  assumes "resume_begin d s = (Inr nonce, d1)"
  shows "d1 = d\<lparr>d_nonce := d_nonce d + 1\<rparr>" "nonce = ucast (d_nonce d + 1)" "unat (d_nonce d + 1) \<le> 65535"
    "\<not> s_closed s" "AllowConnectionResumption (s_config s)"
  using assms by (auto simp: resume_begin_def Let_def split: if_splits)

lemma unat_inc: "n \<noteq> - 1 \<Longrightarrow> unat (n + 1) = Suc (unat n)" for n :: "'a::len word"
  by (metis add.commute add_eq_0_iff2 unatSuc)

text \<open>C7: A session is moved to a new transport only on proof of its server's identity.  Whatever the other
  end sends and however the exchange is disturbed: if \<^verbatim>\<open>resume\<close> reports success, the other end has
  answered with a signature that verifies under the public key pinned at the first handshake, over a
  reply that names this session and carries this attempt's nonce, bound to this very request; and
  the session was neither closed nor resumption disabled.  On every error the session is as it
  would be without the attempt.  In both cases a nonce once tried is never tried again: the
  counter moves up before anything is sent.\<close>

theorem resume_authentic:
  assumes "dialer_resume cr rnd meanwhile tr d s = (Ret r, d1, s1)" "\<not> isZeroID (d_sessionID d)" "d_nonce d \<noteq> - 1"
  shows "(case r of
       None \<Rightarrow> (\<exists>nonce req b resp. BuildInitiatorHandshake cr rnd (d_sessionID d) nonce (d_PrivateKey d) = ok req \<and>
           parseResponderHandshakeMessage b = ok resp \<and> rm_SessionID resp = d_sessionID d \<and> rm_Nonce resp = nonce \<and>
           cr_verify cr (d_responderPublicKey d) (responderSignedMessage cr (take 86 b) (drop 2 req)) (rm_Signature resp) \<and>
           unat nonce = Suc (unat (d_nonce d)) \<and> d1 = d\<lparr>d_nonce := ucast nonce\<rparr>) \<and>
         \<not> s_closed s \<and> AllowConnectionResumption (s_config s) \<and> \<not> s_closed (meanwhile s) \<and>
         s1 = resumeWithConnection (tr_id tr) (meanwhile s)
     | Some e \<Rightarrow> s1 \<in> {s, meanwhile s} \<and> d1 \<in> {d, d\<lparr>d_nonce := d_nonce d + 1\<rparr>} \<and>
         (s_closed s \<or> \<not> AllowConnectionResumption (s_config s) \<or> unat (d_nonce d1) = Suc (unat (d_nonce d))))"
proof (cases r)
  case None
  obtain nonce resp rest where *: "resume_begin d s = (Inr nonce, d1)"
      "initiatorExchange cr rnd (tr_write tr) (tr_peer tr) (d_sessionID d1) nonce (d_PrivateKey d1) = ok (resp, rest)"
      "rm_PublicKey resp = d_responderPublicKey d1" "\<not> s_closed (meanwhile s)"
      "s1 = resumeWithConnection (tr_id tr) (meanwhile s)"
    using resume_cases [OF assms(1)] None by auto
  note bg = resume_begin_ok [OF *(1)]
  have "unat (d_nonce d) < 65535" using bg(3) unat_inc [OF assms(3)] by simp
  note nn = next_nonce [OF this, folded bg(2)]
  then have n0: "nonce \<noteq> 0" by auto
  have d1: "d1 = d\<lparr>d_nonce := ucast nonce\<rparr>"
    using bg(1) nn by (simp add: word_unat_eq_iff unat_ucast_u16)
  obtain req b where "BuildInitiatorHandshake cr rnd (d_sessionID d1) nonce (d_PrivateKey d1) = ok req"
    "parseResponderHandshakeMessage b = ok resp"
    "cr_verify cr (rm_PublicKey resp) (responderSignedMessage cr (take 86 b) (drop 2 req)) (rm_Signature resp)"
    "rm_Nonce resp = nonce" "rm_SessionID resp = d_sessionID d1"
    by (rule exchange_ok [OF *(2) n0]) (simp_all add: d1 assms(2))
  with * bg(4,5) nn(2) d1 show ?thesis
    unfolding None option.case
    by (intro conjI exI [of _ nonce] exI [of _ req] exI [of _ b] exI [of _ resp]) simp_all
next
  case (Some e)
  have "snd (resume_begin d s) = d1" using assms(1)
    by (auto simp: dialer_resume_def Let_def split: prod.splits sum.splits outcome.splits)
  then have "d1 = d \<and> (s_closed s \<or> \<not> AllowConnectionResumption (s_config s)) \<or> d1 = d\<lparr>d_nonce := d_nonce d + 1\<rparr>"
    by (auto simp: resume_begin_def Let_def split: if_splits)
  with Some resume_cases [OF assms(1)] show ?thesis by (auto simp: unat_inc [OF assms(3)])
qed

theorem resume_authentic_witness:
  "\<exists>d1 s1 req b resp. dialer_resume sample_crypto (Inr (replicate 32 5)) id
       (served_transport sample_crypto 4 sample_sid (replicate 64 2) sample_listener) sample_dialer sample_client =
     (Ret None, d1, s1) \<and> parseResponderHandshakeMessage b = ok resp \<and> rm_SessionID resp = sample_sid \<and>
     cr_verify sample_crypto (go_copy 32 (replicate 64 2)) (responderSignedMessage sample_crypto (take 86 b) (drop 2 req))
       (rm_Signature resp)"
proof -
  let ?tr = "served_transport sample_crypto 4 sample_sid (replicate 64 2) sample_listener"
  obtain d1 s1 where "dialer_resume sample_crypto (Inr (replicate 32 5)) id ?tr sample_dialer sample_client = (Ret None, d1, s1)"
    using sample_resumed by blast
  with resume_authentic [OF this] show ?thesis by (auto simp: sample_dialer_def sample_sizes)
qed

subsection \<open>A configuration that was left unset\<close>

text \<open>C40: A listener whose configuration leaves the frame size unset accepts clients that all fail.  \<^verbatim>\<open>Listen\<close>
  keeps such a configuration, its sessions replace the unset value by the default, but the reply
  advertises the value as it stands: \<^verbatim>\<open>handshake\<close> registers a session and returns it as
  successful, while \<^verbatim>\<open>dial\<close> on the same exchange refuses the parameters with \<^verbatim>\<open>ErrInvalidHandshake\<close>.\<close>

theorem unset_config_rejected:
  assumes "ed25519_sizes cr" "ed25519_complete cr" "length privC = 64" "length rnd = 32" "length privS = 64"
    "length sid = 32" "MaxFrameDataSize cfg = 0" "served_by cr k sid privS (Listen mem (Some cfg)) tr"
  shows "\<exists>a res ln1. answer cr k sid privS (Listen mem (Some cfg))
        (be_put16 165 @ request_body cr (replicate 32 0) 0 rnd privC) = (ok (a, False), Some res, ln1) \<and>
      getSession sid ln1 = Some a \<and>
      MaxFrameDataSize (s_config (ln_sess ln1 (as_session (ln_acts ln1 a)))) = DEFAULT_MAX_FRAME_DATA_LEN \<and>
      dial cr (Inr rnd) tr opts smem privC = err ErrInvalidHandshake"
proof -
  let ?b = "request_body cr (replicate 32 0) 0 rnd privC" and ?ln = "Listen mem (Some cfg)"
  have c: "ln_sessionConfig ?ln = Some cfg" by (simp add: Listen_def)
  obtain res a ln1 where
    res: "buildResponderHandshake cr (Some cfg) (ln_AllowConnectionResumption ?ln) sid 0 privS ?b = ok res"
    and reg: "hs_register k sid privS (cr_public cr privC) ?ln = (a, ln1)"
    and ans: "answer cr k sid privS ?ln (be_put16 165 @ ?b) = (ok (a, False), Some res, ln1)"
    by (rule answer_fresh [OF assms(1-6) c, of k])
  note r = registered_session [OF reg c]
  have zero: "isZeroID (replicate 32 0)" by (simp add: isZeroID_def list_all_iff)
  have "initiatorExchange cr (Inr rnd) (tr_write tr) (tr_peer tr) (replicate 32 0) 0 privC =
      ok (reply_message cr (Some cfg) (ln_AllowConnectionResumption ?ln) sid 0 privS ?b, ([], ErrEOF))"
    by (rule exchange_served [OF assms(1-4) _ assms(8,5,6) _ res]) (simp_all add: ans zero)
  then have "dial cr (Inr rnd) tr opts smem privC = err ErrInvalidHandshake"
    by (simp add: dial_def Let_def negotiatedConfig_def assms(7))
  moreover have "MaxFrameDataSize (session_config (Some cfg)) = DEFAULT_MAX_FRAME_DATA_LEN"
    using assms(7) by (simp add: session_config_def fill_frame_def Let_def DEFAULT_MAX_FRAME_DATA_LEN_def MaxAllocSize_def)
  moreover have "as_session (ln_acts ln1 a) = ln_nextS ?ln" by (simp add: r(2) new_active_def)
  ultimately show ?thesis using ans r(1,3,4) by auto
qed

theorem unset_config_rejected_witness:
  "dial sample_crypto (Inr (replicate 32 5))
     (served_transport sample_crypto 3 sample_sid (replicate 64 2)
        (Listen sample_memory (Some (DefaultConfig\<lparr>MaxFrameDataSize := 0\<rparr>))))
     sample_options sample_session sample_key = err ErrInvalidHandshake"
  using unset_config_rejected [OF sample_crypto_laws sample_sizes(2) _ _ sample_sizes(1) _ served_transport,
      where rnd = "replicate 32 5" and cfg = "DefaultConfig\<lparr>MaxFrameDataSize := 0\<rparr>" and privS = "replicate 64 2"]
  by auto

end
