(* ===== verification/Spec2Isabelle.thy ===== *)
theory Spec2Isabelle
  imports Flow_Steps ChannelStream Dialer
begin

text \<open>
  Muxocket is a Go package (one package, nine files under \<^verbatim>\<open>src/\<close>) that carries many byte streams, called
  channels, over one connection.  This development models it as pure functions and step relations
  and proves the theorems that make its parts correct.  The properties are the theorems introduced by
  a claim number \<open>C1\<close> to \<open>C40\<close>; this theory has the two that span all parts.

  \<^bold>\<open>The program.\<close>  A user writes to a \<^verbatim>\<open>Channel\<close>; \<^verbatim>\<open>Write\<close> buys send credit from the flow control of the
  channel and of the session, cuts the bytes into frames and puts them into the data queue.  The write
  scheduler, one goroutine per session, collects frames from the control and the data queue into
  batches, merges acknowledgements and window updates and writes the batch to the transport, as a byte
  stream or as datagrams.  The read loop of the other end takes the transport apart into frames
  and hands each to its channel: payloads go into the channel's ring buffer, through a reorder map
  when the reliability layer is on, and are taken from there by \<^verbatim>\<open>Read\<close>.  Frames for a channel that is
  not open yet are stashed.  A listener and a dialler set a session up by a signed handshake and can
  move it to a new transport when the old one is lost; over packet sockets the listener sorts
  datagrams by source address into one connection per peer.

  \<^bold>\<open>The theories\<close>, in the order of their imports, with the source they model.
  \<^item> Mux_Prelude: types, errors, byte codecs, signed words, Go maps as association lists; the locale
    \<open>field_codec\<close> (a fixed-size encoding, interpreted for the big-endian fields and the frame header)
    and \<open>step_invariant\<close> (an invariant of a step relation holds along its runs).
  \<^item> Allocator (\<^verbatim>\<open>allocator.go\<close>): \<^verbatim>\<open>Get\<close>, \<^verbatim>\<open>Put\<close>, \<^verbatim>\<open>msb\<close>.  \<open>Get\<close> returns the size asked for (C34).
  \<^item> ByteSource: \<^verbatim>\<open>io.ReadFull\<close> and the locale \<open>byte_source\<close>, the contract of an \<^verbatim>\<open>io.Reader\<close> that
    delivers a byte stream; interpreted by the channel, the client's and the listener's datagram
    connections.
  \<^item> RingBuffer (\<^verbatim>\<open>ringbuffer.go\<close>): every operation is one of a FIFO queue (locales \<open>fifo_ring\<close>,
    \<open>ring_reader\<close>), no index is out of range, every buffer is handed back once (C23, C33).
  \<^item> Frames (\<^verbatim>\<open>putHeader\<close>, \<^verbatim>\<open>flushDatagrams\<close>, the header reads of \<^verbatim>\<open>session.go\<close>): round trips on streams
    and datagrams (C29, C30), and the loss of window updates on the datagram path (C36).
  \<^item> Labels (\<^verbatim>\<open>stringToUint32\<close>, \<^verbatim>\<open>uint32ToString\<close>): C35.
  \<^item> Mux_State and Config (the structs; \<^verbatim>\<open>DefaultConfig\<close>, \<^verbatim>\<open>NewSessionWithID\<close>): the state of one end, and
    what every session's configuration satisfies (C32).
  \<^item> Queues (\<^verbatim>\<open>session.go\<close>, \<^verbatim>\<open>write_scheduler.go\<close>): the bounded queues and the reference counts of
    unacknowledged frames.
  \<^item> Flow and Flow_Steps (\<^verbatim>\<open>flow.go\<close>): the operations run to completion (C19, C24; locale \<open>credit_pool\<close>)
    and as atomic steps of any number of goroutines on \<^verbatim>\<open>int32\<close> counters (C10, C27, C37).
  \<^item> Scheduler (\<^verbatim>\<open>write_scheduler.go\<close>): compaction (C15), what the peer finds in a batch (C28), the
    final flush (C31).
  \<^item> Pending (\<^verbatim>\<open>session.go\<close>): the stash stays within its limits (C22).
  \<^item> Channel, Channel_IO (\<^verbatim>\<open>channel.go\<close>): all operations of a channel.  Delivery: reassembly (C3).  Sender:
    \<^verbatim>\<open>Write\<close> and \<^verbatim>\<open>onAck\<close> (C4, C21, C25).
  \<^item> Lifecycle (\<^verbatim>\<open>session.go\<close>): \<^verbatim>\<open>Close\<close>, grace period, resumption, timers (C16, C17).
  \<^item> Dispatch, Reader (\<^verbatim>\<open>session.go\<close>): \<^verbatim>\<open>OpenChannel\<close> and the two read loops; early frames first (C18).
  \<^item> ChannelStream: \<^verbatim>\<open>Channel.Read\<close> as a \<open>byte_source\<close>.
  \<^item> Handshake (\<^verbatim>\<open>listener.go\<close>, \<^verbatim>\<open>dialer.go\<close>): the messages, what an accepted reply proves (C9), and what
    the client takes from it (C26).
  \<^item> PacketConn (\<^verbatim>\<open>packetListener.go\<close>): per-peer connections as byte streams (C12), routing (C14), wake-ups
    (C13), and two races (C38, C39).  DatagramConn (\<^verbatim>\<open>dialer.go\<close>): the client's adapter (C11).
  \<^item> Listener (\<^verbatim>\<open>listener.go\<close>): the session table and the responder; no input makes it panic (C20), no
    request is accepted twice (C6).
  \<^item> Dialer (\<^verbatim>\<open>dialer.go\<close>): dialling and resuming, alone and against the listener (C5, C7, C8, C40).
  \<^item> This theory: what \<^verbatim>\<open>Write\<close> took on one side is what \<^verbatim>\<open>io.ReadFull\<close> returns on the other, over a
    stream (C2) and, with the reliability layer, over a transport that repeats and reorders (C1).

  \<^bold>\<open>How the model corresponds to the code.\<close>  A struct is a record, an object shared by pointer an entry of a
  store under a number; machine integers are words (\<^verbatim>\<open>int32\<close> read by \<open>sint\<close>) with their
  wrap-around; times are integers in nanoseconds.  An operation that can block returns a value that says where
  it waits, with its locks still held, and a second definition continues it; a goroutine that is
  started is recorded in the state.  A panic is the outcome \<open>Panic\<close> or sets \<open>s_panic\<close>.  Choices of
  the run-time (which \<^verbatim>\<open>select\<close> case, which pooled buffer, in which order the queues are read) are
  arguments.

  \<^bold>\<open>Parameters.\<close>  Ed25519 and SHA-256 (record \<open>crypto\<close>), random bytes, transports and sockets (what
  reads and writes return), and the text of an address.  What a theorem needs of them is a hypothesis: the key and
  signature sizes, that a signature made with a key verifies under it, that the signature received is no
  forgery, that no two of the requests compared collide.

  \<^bold>\<open>Bounds.\<close>  \<open>AcquireCredits\<close> runs at most two rounds and \<open>channel_Read\<close> at most four without interference
  (\<open>AcquireCredits_rounds\<close>, \<open>channel_Read_ends\<close>); the loop over the reorder map takes an entry out in
  each turn and is given as many turns as there are entries; the flush loop is given the number of rounds
  the deadline allows, and one more than there are queued frames is enough (C31); the loops of
  \<open>channel_WriteTo\<close> are given one turn more than there are buffers, and four rounds for the same reason as
  \<open>channel_Read\<close>.  Loops over an unbounded input (\<open>ReadFrom\<close>) are partial functions into \<open>option\<close>; all other recursions
  have termination proofs.

  \<^bold>\<open>Simplifications.\<close>  An operation on a session is one step between the points at which it can block;
  interleavings inside operations are modelled where the code is lock-free and the claim is about
  them: flow control, the wake-ups of a peer connection, its \<^verbatim>\<open>Close\<close>, and handshakes.  The routing of one datagram
  is one step.  Flow_Steps assumes of the peer that it keeps at most \<open>2 ^ 31 - 1\<close> bytes of credit
  outstanding and sends no more than its window; the code enforces neither.

  \<^bold>\<open>Not modelled\<close>: accessors such as \<^verbatim>\<open>Addr\<close>, \<^verbatim>\<open>ID\<close> and \<^verbatim>\<open>NumChannels\<close>, deadlines passed straight to the
  transport, socket buffer sizes and the zones of IPv6 addresses, which change no state of the package;
  sockets, timers and the network themselves.
\<close>

section \<open>From one user to the other\<close>

text \<open>C2: What is written on one side is read on the other.  When \<^verbatim>\<open>Write\<close> returns without an error, the
  bytes the writer puts on a stream transport for the frames it queued are read by the peer's
  \<^verbatim>\<open>streamReadLoop\<close> for an open channel of the same id (with the same frame size and without the
  reliability layer); then \<^verbatim>\<open>io.ReadFull\<close> on the peer's channel, which may still have earlier bytes to read,
  returns those followed by exactly the written bytes, and the channel is empty; the read loop is
  left at the next header and nothing panics.\<close>

theorem stream_end_to_end:
  assumes "channel_Write b ca sa = Some (W_Done n None, sa')" "sane_frame_size sa"
    and "serves (ch_id (s_objs sa ca)) cb sb" "rx_open cb sb" "\<not> Reliability (s_config sb)"
    and "MaxFrameDataSize (s_config sb) = MaxFrameDataSize (s_config sa)" "ch_ready cb sb"
  shows "\<exists>fs sb' sb''. ws_writes (s_writer sa') = ws_writes (s_writer sa) @ fs \<and>
    stream_run conn RD_Header (concat (map frame_bytes fs)) sb = (RD_Header, [], sb') \<and> \<not> s_panic sb' \<and>
    io_ReadFull (ch_src cb) (length (bytes_of (items cb sb)) + length b) sb' = Some (Inr (bytes_of (items cb sb) @ b), sb'') \<and>
    bytes_of (items cb sb'') = []"
proof -
  have full: "full_slots (items cb sb)" and mu: "\<not> ch_readMu (s_objs sb cb)"
    using assms(7) by (simp_all add: ch_ready_def)
  obtain fs sb' where w: "ws_writes (s_writer sa') = ws_writes (s_writer sa) @ fs"
    "stream_run conn RD_Header (concat (map frame_bytes fs)) sb = (RD_Header, [], sb')"
    "bytes_of (items cb sb') = bytes_of (items cb sb) @ b" "full_slots (items cb sb')" "rx_open cb sb'"
    "gate cb sb' = gate cb sb"
    by (rule Write_arrives [OF assms(1-6) full])
  have "ch_ready cb sb'" using mu w(6) by (intro ch_ready_open [OF w(5,4)]) (simp add: gate_def)
  from read_all [OF this w(3)] w(1,2,5) show ?thesis by (auto simp: rx_open_def)
qed

theorem stream_end_to_end_witness:
  "\<exists>sa' fs sb' sb''. channel_Write [1, 2, 3] 0 sample_session = Some (W_Done 3 None, sa') \<and>
     ws_writes (s_writer sa') = ws_writes (s_writer sample_session) @ fs \<and>
     stream_run 0 RD_Header (concat (map frame_bytes fs)) sample_session = (RD_Header, [], sb') \<and>
     io_ReadFull (ch_src 0) 3 sb' = Some (Inr [1, 2, 3], sb'')"
proof -
  obtain sa' where w: "channel_Write [1, 2, 3] 0 sample_session = Some (W_Done 3 None, sa')"
    using Write_done [of "[1, 2, 3]" 0 sample_session] sample_can_send by (auto simp: numeral_3_eq_3)
  have i: "ch_id (s_objs sample_session 0) = 1" "items 0 sample_session = []" "\<not> ch_readMu (s_objs sample_session 0)"
    using sample_credits(8) NewBufferRing_ok(2) [of 8] by (simp_all add: blank_channel_def)
  have "ch_ready 0 sample_session" by (rule ch_ready_open [OF sample_receives(2)]) (simp_all add: i)
  from stream_end_to_end [OF w sample_frame_size _ sample_receives(2,3) refl this, of 0] sample_receives(1) i w
  show ?thesis by (auto simp: numeral_3_eq_3)
qed

text \<open>C1: With the reliability layer the transport may repeat and reorder frames.  When the first
  \<^verbatim>\<open>Write\<close> on a channel returns without an error, and the bytes of its frames reach the peer's
  \<^verbatim>\<open>streamReadLoop\<close> for a new channel of the same id in any order and any number of times, but each
  at least once (as retransmission makes sure), then \<^verbatim>\<open>io.ReadFull\<close> on that channel returns exactly the
  written bytes and leaves it empty, provided they fit into the reorder window.\<close>

theorem reliable_end_to_end:
  assumes w: "channel_Write b ca sa = Some (W_Done n None, sa')" "sane_frame_size sa" "ch_writeOffset (s_objs sa ca) = 0"
    and r: "serves (ch_id (s_objs sa ca)) cb sb" "fresh_receiver cb sb" "Reliability (s_config sb)"
      "MaxFrameDataSize (s_config sb) = MaxFrameDataSize (s_config sa)" "\<not> ch_readMu (s_objs sb cb)"
    and win: "length b \<le> unat (maxReorderBytes sb)"
  shows "\<exists>fs. ws_writes (s_writer sa') = ws_writes (s_writer sa) @ fs \<and>
    (\<forall>is. set is = {..< length fs} \<longrightarrow>
      (\<exists>sb' sb''. stream_run conn RD_Header (concat (map (\<lambda>i. frame_bytes (fs ! i)) is)) sb = (RD_Header, [], sb') \<and>
        \<not> s_panic sb' \<and> io_ReadFull (ch_src cb) (length b) sb' = Some (Inr b, sb'') \<and> bytes_of (items cb sb'') = []))"
proof -
  obtain fs where fs: "ws_writes (s_writer sa') = ws_writes (s_writer sa) @ fs"
    "\<And>is. set is = {..< length fs} \<Longrightarrow>
      \<exists>sb'. stream_run conn RD_Header (concat (map (\<lambda>i. frame_bytes (fs ! i)) is)) sb = (RD_Header, [], sb') \<and>
        bytes_of (items cb sb') = b \<and> full_slots (items cb sb') \<and> rx_open cb sb' \<and> gate cb sb' = gate cb sb"
    using Write_arrives_reliable [OF w r(1-4) win, of conn] by metis
  have "\<exists>sb' sb''. stream_run conn RD_Header (concat (map (\<lambda>i. frame_bytes (fs ! i)) is)) sb = (RD_Header, [], sb') \<and>
      \<not> s_panic sb' \<and> io_ReadFull (ch_src cb) (length b) sb' = Some (Inr b, sb'') \<and> bytes_of (items cb sb'') = []"
    if a: "set is = {..< length fs}" for "is"
  proof -
    obtain sb' where s: "stream_run conn RD_Header (concat (map (\<lambda>i. frame_bytes (fs ! i)) is)) sb = (RD_Header, [], sb')"
      "bytes_of (items cb sb') = b" "full_slots (items cb sb')" "rx_open cb sb'" "gate cb sb' = gate cb sb"
      using fs(2) [OF a] by blast
    have "ch_ready cb sb'" using r(5) s(5) by (intro ch_ready_open [OF s(4,3)]) (simp add: gate_def)
    from read_all [OF this s(2)] s(1,4) show ?thesis by (auto simp: rx_open_def)
  qed
  with fs(1) show ?thesis by blast
qed

theorem reliable_end_to_end_witness:
  "\<exists>sa' fs sb' sb''. channel_Write [1, 2, 3] 0 sample_reliable = Some (W_Done 3 None, sa') \<and>
     ws_writes (s_writer sa') = ws_writes (s_writer sample_reliable) @ fs \<and>
     stream_run 0 RD_Header (concat (map (\<lambda>i. frame_bytes (fs ! i)) (rev [0..<length fs] @ [0..<length fs]))) sample_reliable =
       (RD_Header, [], sb') \<and> io_ReadFull (ch_src 0) 3 sb' = Some (Inr [1, 2, 3], sb'')"
proof -
  obtain sa' where w: "channel_Write [1, 2, 3] 0 sample_reliable = Some (W_Done 3 None, sa')"
    using Write_done [of "[1, 2, 3]" 0 sample_reliable] sample_reliable_ok(1,2) by (auto simp: numeral_3_eq_3)
  have sv: "serves (ch_id (s_objs sample_reliable 0)) 0 sample_reliable"
    using sample_reliable_ok(5,6) by simp
  have win: "length [1, 2, 3 :: u8] \<le> unat (maxReorderBytes sample_reliable)"
    using sample_reliable_ok(9) by simp
  have mu: "\<not> ch_readMu (s_objs sample_reliable 0)"
    using sample_credits(8) by (simp add: sample_reliable_def blank_channel_def)
  from reliable_end_to_end [OF w sample_reliable_ok(3,4) sv sample_reliable_ok(7,8) refl mu win, of 0]
  obtain fs where fs: "ws_writes (s_writer sa') = ws_writes (s_writer sample_reliable) @ fs"
    "\<And>is. set is = {..< length fs} \<Longrightarrow> \<exists>sb' sb''. stream_run 0 RD_Header (concat (map (\<lambda>i. frame_bytes (fs ! i)) is)) sample_reliable =
       (RD_Header, [], sb') \<and> \<not> s_panic sb' \<and> io_ReadFull (ch_src 0) (length [1, 2, 3 :: u8]) sb' = Some (Inr [1, 2, 3], sb'') \<and>
       bytes_of (items 0 sb'') = []" by blast
  have "set (rev [0..<length fs] @ [0..<length fs]) = {..< length fs}" by auto
  from fs(2) [OF this] fs(1) w show ?thesis by (auto simp: numeral_3_eq_3)
qed

end
